(* ===== verification/Go_Prelude.thy ===== *)
theory Go_Prelude
  imports Main "HOL-Library.Word" "HOL-Library.List_Lexorder" "HOL-Library.Multiset"
begin

text \<open>
  Shared vocabulary of the development: Go's fixed-width types, byte slices, Go maps as
  association lists whose order is the iteration order, results that carry an error, and the
  lemmas on sums of deposits and on sorting that the components use.

  Conventions.
  \<^item> A Go \<open>map[K]V\<close> is a list of pairs with distinct keys (\<open>wfm\<close>). Go leaves the iteration
    order open; here it is the order of the list, so a statement that holds for every list
    holds for every iteration order the runtime may choose.
  \<^item> A \<open>*big.Int\<close> that the code never leaves nil is an \<open>int\<close>.
  \<^item> A Go error or a run-time panic is an \<open>Inl\<close> of a sum, a normal result an \<open>Inr\<close>.
\<close>

section \<open>Types\<close>

type_synonym byte = "8 word"
type_synonym u64 = "64 word"
type_synonym bytes = "byte list"

text \<open>\<open>common.Hash\<close> and \<open>common.Address\<close> are arrays of 32 bytes (\<open>common/types.go\<close>).\<close>

type_synonym hash = bytes
type_synonym address = bytes

type_synonym ('k, 'v) gomap = "('k \<times> 'v) list"

named_theorems gomap_simps \<open>equations for the operations on Go maps\<close>
named_theorems deposit_simps \<open>equations for sums of deposits\<close>

section \<open>Machine words\<close>

lemma word_eqI_unat: "unat v = unat w \<Longrightarrow> v = w"
  by (simp add: word_unat_eq_iff)

lemma unat_byte_less: "unat (b :: byte) < 256"
  using unsigned_less [of b, where ?'a = nat] by simp

lemma unat_u64_less: "unat (i :: u64) < 2 ^ 64"
  using unsigned_less [of i, where ?'a = nat] by simp

lemma unat_byte_of_nat: "unat (word_of_nat n :: byte) = n mod 256"
  by (simp add: unat_of_nat)

section \<open>Go maps\<close>

definition mget :: "('k, 'v) gomap \<Rightarrow> 'k \<Rightarrow> 'v option" where
  "mget m k = map_of m k"

primrec mput :: "'k \<Rightarrow> 'v \<Rightarrow> ('k, 'v) gomap \<Rightarrow> ('k, 'v) gomap" where
  "mput k v [] = [(k, v)]"
| "mput k v (p # m) = (if fst p = k then (k, v) # m else p # mput k v m)"

definition mdel :: "'k \<Rightarrow> ('k, 'v) gomap \<Rightarrow> ('k, 'v) gomap" where
  "mdel k m = filter (\<lambda>p. fst p \<noteq> k) m"

definition mkeys :: "('k, 'v) gomap \<Rightarrow> 'k list" where
  "mkeys m = map fst m"

definition mhas :: "('k, 'v) gomap \<Rightarrow> 'k \<Rightarrow> bool" where
  "mhas m k \<longleftrightarrow> mget m k \<noteq> None"

definition wfm :: "('k, 'v) gomap \<Rightarrow> bool" where
  "wfm m \<longleftrightarrow> distinct (map fst m)"

lemma mget_Nil [simp, gomap_simps]: "mget [] k = None"
  by (simp add: mget_def)

lemma mget_Cons [simp, gomap_simps]:
  "mget (p # m) k = (if fst p = k then Some (snd p) else mget m k)"
  by (simp add: mget_def)

lemma wfm_Nil [simp, gomap_simps]: "wfm []"
  by (simp add: wfm_def)

lemma wfm_Cons [simp, gomap_simps]: "wfm (p # m) \<longleftrightarrow> fst p \<notin> fst ` set m \<and> wfm m"
  by (simp add: wfm_def)

lemma mkeys_simps [simp, gomap_simps]:
  "mkeys [] = []" "mkeys (p # m) = fst p # mkeys m"
  by (simp_all add: mkeys_def)

lemma length_mkeys [simp]: "length (mkeys m) = length m"
  by (simp add: mkeys_def)

lemma set_mkeys: "set (mkeys m) = fst ` set m"
  by (simp add: mkeys_def)

lemma distinct_mkeys: "distinct (mkeys m) \<longleftrightarrow> wfm m"
  by (simp add: mkeys_def wfm_def)

lemma mget_None_iff: "mget m k = None \<longleftrightarrow> k \<notin> fst ` set m"
  by (simp add: mget_def map_of_eq_None_iff)

lemma mhas_iff: "mhas m k \<longleftrightarrow> k \<in> fst ` set m"
  by (simp add: mhas_def mget_None_iff)

lemma mget_SomeD: "mget m k = Some v \<Longrightarrow> (k, v) \<in> set m"
  by (simp add: mget_def map_of_SomeD)

lemma mget_in: "wfm m \<Longrightarrow> (k, v) \<in> set m \<Longrightarrow> mget m k = Some v"
  by (simp add: wfm_def mget_def)

lemma mget_eq_iff: "wfm m \<Longrightarrow> mget m k = Some v \<longleftrightarrow> (k, v) \<in> set m"
  by (auto dest: mget_SomeD intro: mget_in)

lemma mget_mput: "mget (mput k v m) k' = (if k' = k then Some v else mget m k')"
  by (induction m) auto

lemma fst_set_mput: "fst ` set (mput k v m) = insert k (fst ` set m)"
  by (induction m) auto

lemma set_mput_subset: "set (mput k v m) \<subseteq> insert (k, v) (set m)"
  by (induction m) auto

lemma wfm_mput: "wfm m \<Longrightarrow> wfm (mput k v m)"
  by (induction m) (auto simp: fst_set_mput)

lemma mget_mdel: "mget (mdel k m) k' = (if k' = k then None else mget m k')"
  by (induction m) (auto simp: mdel_def)

lemma set_mdel: "set (mdel k m) = {p \<in> set m. fst p \<noteq> k}"
  by (auto simp: mdel_def)

lemma wfm_filter: "wfm m \<Longrightarrow> wfm (filter P m)"
  by (induction m) auto

lemma wfm_mdel: "wfm m \<Longrightarrow> wfm (mdel k m)"
  by (simp add: mdel_def wfm_filter)

lemma mget_filter:
  "wfm m \<Longrightarrow> mget (filter P m) k = (case mget m k of None \<Rightarrow> None
     | Some v \<Rightarrow> if P (k, v) then Some v else None)"
  by (induction m) (auto simp: mget_None_iff split: option.splits)

lemma mhas_mput [gomap_simps]: "mhas (mput k v m) k' \<longleftrightarrow> k' = k \<or> mhas m k'"
  by (simp add: mhas_def mget_mput)

text \<open>
  What the components rely on of a Go map, as an interface; the client lemmas are proved once
  from its laws and hold for the association lists by the interpretation below.
\<close>

locale go_map =
  fixes get :: "'m \<Rightarrow> 'k \<Rightarrow> 'v option"
    and put :: "'k \<Rightarrow> 'v \<Rightarrow> 'm \<Rightarrow> 'm"
    and del :: "'k \<Rightarrow> 'm \<Rightarrow> 'm"
    and inv :: "'m \<Rightarrow> bool"
  assumes get_put: "get (put k v m) k' = (if k' = k then Some v else get m k')"
    and get_del: "get (del k m) k' = (if k' = k then None else get m k')"
    and inv_put: "inv m \<Longrightarrow> inv (put k v m)"
    and inv_del: "inv m \<Longrightarrow> inv (del k m)"
begin

lemma get_put_same: "get (put k v m) k = Some v"
  by (simp add: get_put)

lemma get_put_other: "k' \<noteq> k \<Longrightarrow> get (put k v m) k' = get m k'"
  by (simp add: get_put)

lemma put_twice: "get (put k v (put k w m)) = get (put k v m)"
  by (auto simp: get_put fun_eq_iff)

lemma put_commute: "k \<noteq> l \<Longrightarrow> get (put k v (put l w m)) = get (put l w (put k v m))"
  by (auto simp: get_put fun_eq_iff)

lemma put_all_values:
  assumes "\<And>k v. get m k = Some v \<Longrightarrow> P k v" and "P k v"
  shows "get (put k v m) k' = Some v' \<Longrightarrow> P k' v'"
  using assms by (auto simp: get_put split: if_splits)

lemma del_all_values:
  assumes "\<And>k v. get m k = Some v \<Longrightarrow> P k v"
  shows "get (del k m) k' = Some v' \<Longrightarrow> P k' v'"
  using assms by (auto simp: get_del split: if_splits)

end

interpretation gm: go_map mget mput mdel wfm
  by unfold_locales (simp_all add: mget_mput mget_mdel wfm_mput wfm_mdel)

lemmas gomap_laws = mget_mput mget_mdel gm.get_put_same wfm_mput wfm_mdel

section \<open>Sums of deposits\<close>

text \<open>\<open>dep m v\<close> is the deposit of \<open>v\<close>, 0 for a key that is not in the map.\<close>

definition dep :: "('k, int) gomap \<Rightarrow> 'k \<Rightarrow> int" where
  "dep m v = (case mget m v of None \<Rightarrow> 0 | Some d \<Rightarrow> d)"

definition weight :: "('k, int) gomap \<Rightarrow> 'k set \<Rightarrow> int" where
  "weight m S = (\<Sum>v\<in>S. dep m v)"

definition total_dep :: "('k, int) gomap \<Rightarrow> int" where
  "total_dep m = sum_list (map snd m)"

definition nonneg :: "('k, int) gomap \<Rightarrow> bool" where
  "nonneg m \<longleftrightarrow> (\<forall>d \<in> snd ` set m. 0 \<le> d)"

definition deposits_ok :: "('k, int) gomap \<Rightarrow> bool" where
  "deposits_ok m \<longleftrightarrow> wfm m \<and> nonneg m"

lemma dep_nonneg: "nonneg m \<Longrightarrow> 0 \<le> dep m v"
  by (force simp: nonneg_def dep_def dest: mget_SomeD split: option.splits)

lemma nonneg_Cons [simp]: "nonneg (p # m) \<longleftrightarrow> 0 \<le> snd p \<and> nonneg m"
  by (simp add: nonneg_def)

lemma total_simps [simp, deposit_simps]: "total_dep [] = 0" "total_dep (p # m) = snd p + total_dep m"
  by (simp_all add: total_dep_def)

lemma dep_Cons: "dep (p # m) v = (if fst p = v then snd p else dep m v)"
  by (simp add: dep_def)

lemma weight_keys: "wfm m \<Longrightarrow> weight m (fst ` set m) = total_dep m"
proof (induction m)
  case Nil
  then show ?case by (simp add: weight_def)
next
  case (Cons p m)
  have "(\<Sum>v\<in>fst ` set m. dep (p # m) v) = (\<Sum>v\<in>fst ` set m. dep m v)"
    by (rule sum.cong) (use Cons.prems in \<open>auto simp: dep_Cons\<close>)
  with Cons show ?case by (simp add: weight_def dep_Cons)
qed

lemma total_nonneg: "nonneg m \<Longrightarrow> 0 \<le> total_dep m"
  by (induction m) auto

lemma total_filter_le: "nonneg m \<Longrightarrow> total_dep (filter P m) \<le> total_dep m"
  by (induction m) auto

lemma nonneg_filter: "nonneg m \<Longrightarrow> nonneg (filter P m)"
  by (induction m) auto

lemma deposits_ok_filter: "deposits_ok m \<Longrightarrow> deposits_ok (filter P m)"
  by (simp add: deposits_ok_def nonneg_filter wfm_filter)

lemma total_mset: "mset m = mset m' \<Longrightarrow> total_dep m = total_dep m'"
  by (metis mset_map sum_mset_sum_list total_dep_def)

text \<open>
  Weighted voting over a stake distribution: what a vote count needs to know of it, and that
  two vote sets whose weights exceed the total must share validators.
\<close>

locale stake =
  fixes ok :: "'m \<Rightarrow> bool"
    and members :: "'m \<Rightarrow> 'v set"
    and wt :: "'m \<Rightarrow> 'v set \<Rightarrow> int"
    and tot :: "'m \<Rightarrow> int"
  assumes finite_members: "finite (members m)"
    and wt_members: "ok m \<Longrightarrow> wt m (members m) = tot m"
    and wt_mono: "ok m \<Longrightarrow> A \<subseteq> B \<Longrightarrow> finite B \<Longrightarrow> wt m A \<le> wt m B"
    and wt_Un_Int: "finite A \<Longrightarrow> finite B \<Longrightarrow> wt m (A \<union> B) + wt m (A \<inter> B) = wt m A + wt m B"
begin

lemma quorum_overlap:
  assumes "ok m" and "A \<subseteq> members m" and "B \<subseteq> members m"
    and "q \<le> wt m A" and "q' \<le> wt m B"
  shows "q + q' - tot m \<le> wt m (A \<inter> B)"
proof -
  have fin: "finite A" "finite B"
    using assms(2,3) finite_members finite_subset by metis+
  have "wt m (A \<union> B) \<le> tot m"
    using wt_mono [OF assms(1), of "A \<union> B" "members m"] assms finite_members wt_members by auto
  then show ?thesis
    using wt_Un_Int [OF fin, of m] assms(4,5) by linarith
qed

lemma disjoint_bound:
  assumes "ok m" and "A \<subseteq> members m" and "B \<subseteq> members m" and "A \<inter> B = {}"
  shows "wt m A + wt m B \<le> tot m + wt m {}"
  using quorum_overlap [OF assms(1-3), of "wt m A" "wt m B"] assms(4) by simp

end

interpretation st: stake deposits_ok "\<lambda>m. fst ` set m" weight total_dep
proof unfold_locales
  fix m :: "('k, int) gomap" and A B :: "'k set"
  show "finite (fst ` set m)" by simp
  show "deposits_ok m \<Longrightarrow> weight m (fst ` set m) = total_dep m"
    by (simp add: deposits_ok_def weight_keys)
  show "deposits_ok m \<Longrightarrow> A \<subseteq> B \<Longrightarrow> finite B \<Longrightarrow> weight m A \<le> weight m B"
    by (auto simp: weight_def deposits_ok_def dep_nonneg intro: sum_mono2)
  show "finite A \<Longrightarrow> finite B \<Longrightarrow> weight m (A \<union> B) + weight m (A \<inter> B) = weight m A + weight m B"
    by (simp add: weight_def sum.union_inter)
qed

section \<open>Sorting\<close>

text \<open>
  \<open>sort.Slice\<close> is not stable, but when the keys of the elements are distinct every sorting
  algorithm gives the same list; \<open>sort_key\<close> stands for it.
\<close>

lemma filter_eq_replicate: "filter (\<lambda>x. x = k) xs = replicate (count (mset xs) k) k"
  by (induction xs) auto

lemma filter_key_cong:
  assumes "mset xs = mset ys" and "inj_on f (set xs)" and "k \<in> set xs"
  shows "filter (\<lambda>x. f k = f x) xs = filter (\<lambda>x. f k = f x) ys"
proof -
  have "set xs = set ys"
    using assms(1) mset_eq_setD by blast
  then have "filter (\<lambda>x. f k = f x) zs = filter (\<lambda>x. x = k) zs" if "set zs = set xs" for zs
    using assms that by (intro filter_cong) (auto dest: inj_onD)
  with \<open>set xs = set ys\<close> assms(1) show ?thesis
    by (simp add: filter_eq_replicate)
qed

lemma sort_key_mset_cong:
  assumes "mset xs = mset ys" and "inj_on f (set xs)"
  shows "sort_key f xs = sort_key f ys"
proof (rule properties_for_sort_key)
  show "mset (sort_key f ys) = mset xs" using assms(1) by simp
  fix k
  assume "k \<in> set (sort_key f ys)"
  then have "k \<in> set xs" using assms(1) by (metis mset_eq_setD set_sort)
  moreover have "mset xs = mset (sort_key f ys)" using assms(1) by simp
  ultimately show "filter (\<lambda>x. f k = f x) (sort_key f ys) = filter (\<lambda>x. f k = f x) xs"
    using filter_key_cong [OF _ assms(2), of "sort_key f ys" k] by simp
qed simp

lemma hd_sort_key_min:
  assumes "xs \<noteq> []"
  shows "hd (sort_key f xs) \<in> set xs" and "y \<in> set xs \<Longrightarrow> f (hd (sort_key f xs)) \<le> f y"
proof -
  have ne: "sort_key f xs \<noteq> []"
    using assms by (metis set_empty2 set_sort)
  then show "hd (sort_key f xs) \<in> set xs"
    by (metis hd_in_set set_sort)
  have "sorted (map f (sort_key f xs))" by simp
  with ne show "y \<in> set xs \<Longrightarrow> f (hd (sort_key f xs)) \<le> f y"
    by (cases "sort_key f xs") (auto simp flip: set_sort [of f xs])
qed

end
