(* ===== verification/Common_Bytes.thy ===== *)
theory Common_Bytes
  imports Go_Prelude
begin

text \<open>
  The byte and string helpers of the packages \<open>common\<close> (\<open>bytes.go\<close>, \<open>types.go\<close>) and
  \<open>common/hexutil\<close>: hexadecimal strings, padding and trimming, hashes from bytes, the two-part
  records in which keys and signatures are combined, and little-endian integers. The standard
  library's \<open>encoding/hex\<close> and \<open>strconv.ParseUint\<close> are modelled as far as they are used.

  Shown: every printer is inverted by its parser, the word-by-word \<open>DecodeBig\<close> computes the
  positional value of the digits, what the combined records accept is exactly what was combined,
  and padding and trimming do what their names say.
\<close>

section \<open>Hexadecimal digits\<close>

definition hex_digit :: "char \<Rightarrow> nat option" where
  "hex_digit c =
    (let n = of_char c :: nat in
     if 48 \<le> n \<and> n \<le> 57 then Some (n - 48)
     else if 97 \<le> n \<and> n \<le> 102 then Some (n - 87)
     else if 65 \<le> n \<and> n \<le> 70 then Some (n - 55)
     else None)"

definition hex_char :: "nat \<Rightarrow> char" where
  "hex_char d = (if d < 10 then char_of (48 + d) else char_of (87 + d))"

datatype hex_err = InvalidByte | ErrLength

text \<open>\<open>hex.DecodeString\<close>: the bytes decoded before the first error, and the error.\<close>

fun DecodeString :: "string \<Rightarrow> bytes \<times> hex_err option" where
  "DecodeString [] = ([], None)"
| "DecodeString [p] = ([], Some (if hex_digit p = None then InvalidByte else ErrLength))"
| "DecodeString (p # q # s) =
    (case (hex_digit p, hex_digit q) of
       (Some a, Some b) \<Rightarrow> (let (r, e) = DecodeString s in (word_of_nat (16 * a + b) # r, e))
     | _ \<Rightarrow> ([], Some InvalidByte))"

definition EncodeToString :: "bytes \<Rightarrow> string" where
  "EncodeToString b = concat (map (\<lambda>x. [hex_char (unat x div 16), hex_char (unat x mod 16)]) b)"

section \<open>\<open>common/bytes.go\<close>\<close>

definition has0xPrefix :: "string \<Rightarrow> bool" where
  "has0xPrefix str \<longleftrightarrow>
    (case str of p # q # _ \<Rightarrow> p = CHR ''0'' \<and> (q = CHR ''x'' \<or> q = CHR ''X'') | _ \<Rightarrow> False)"

definition Hex2Bytes :: "string \<Rightarrow> bytes" where
  "Hex2Bytes str = fst (DecodeString str)"

definition Bytes2Hex :: "bytes \<Rightarrow> string" where
  "Bytes2Hex d = EncodeToString d"

definition FromHex :: "string \<Rightarrow> bytes" where
  "FromHex s =
    (let s1 = (if has0xPrefix s then drop 2 s else s);
         s2 = (if length s1 mod 2 = 1 then CHR ''0'' # s1 else s1)
     in Hex2Bytes s2)"

definition isHexCharacter :: "char \<Rightarrow> bool" where
  "isHexCharacter c \<longleftrightarrow>
    (let n = of_char c :: nat in (48 \<le> n \<and> n \<le> 57) \<or> (97 \<le> n \<and> n \<le> 102) \<or> (65 \<le> n \<and> n \<le> 70))"

definition IsHex :: "string \<Rightarrow> bool" where
  "IsHex str \<longleftrightarrow> length str mod 2 = 0 \<and> list_all isHexCharacter str"

definition Hex2BytesFixed :: "string \<Rightarrow> nat \<Rightarrow> bytes" where
  "Hex2BytesFixed str flen =
    (let h = fst (DecodeString str) in
     if length h = flen then h
     else if length h > flen then drop (length h - flen) h
     else replicate (flen - length h) 0 @ h)"

definition RightPadBytes :: "bytes \<Rightarrow> nat \<Rightarrow> bytes" where
  "RightPadBytes b l = (if l \<le> length b then b else b @ replicate (l - length b) 0)"

definition LeftPadBytes :: "bytes \<Rightarrow> nat \<Rightarrow> bytes" where
  "LeftPadBytes b l = (if l \<le> length b then b else replicate (l - length b) 0 @ b)"

fun TrimLeftZeroes :: "bytes \<Rightarrow> bytes" where
  "TrimLeftZeroes [] = []"
| "TrimLeftZeroes (x # s) = (if x \<noteq> 0 then x # s else TrimLeftZeroes s)"

text \<open>The loop of \<open>TrimRightZeroes\<close> on the index.\<close>

fun trimRightIdx :: "bytes \<Rightarrow> nat \<Rightarrow> nat" where
  "trimRightIdx s 0 = 0"
| "trimRightIdx s (Suc i) = (if s ! i \<noteq> 0 then Suc i else trimRightIdx s i)"

definition TrimRightZeroes :: "bytes \<Rightarrow> bytes" where
  "TrimRightZeroes s = take (trimRightIdx s (length s)) s"

text \<open>Little-endian integers (\<open>binary.LittleEndian\<close>).\<close>

fun put_le :: "nat \<Rightarrow> nat \<Rightarrow> bytes" where
  "put_le 0 x = []"
| "put_le (Suc k) x = word_of_nat (x mod 256) # put_le k (x div 256)"

fun get_le :: "bytes \<Rightarrow> nat" where
  "get_le [] = 0"
| "get_le (b # bs) = unat b + 256 * get_le bs"

definition Uint64ToBytes :: "u64 \<Rightarrow> bytes" where
  "Uint64ToBytes val = put_le 8 (unat val)"

text \<open>A slice that is too short panics.\<close>

datatype bytes_err = Panicked string | Invalid string

definition BytesToUint64 :: "bytes \<Rightarrow> bytes_err + u64" where
  "BytesToUint64 val =
    (if length val < 8 then Inl (Panicked ''index out of range'')
     else Inr (word_of_nat (get_le (take 8 val))))"

definition BytesToLen :: "bytes \<Rightarrow> nat" where
  "BytesToLen b = get_le (take 2 b)"

definition LenToBytes :: "nat \<Rightarrow> bytes_err + bytes" where
  "LenToBytes len =
    (if len > 65535 then Inl (Panicked ''LenToBytes max length exceeded'')
     else
       let b = put_le 2 len in
       if BytesToLen b \<noteq> len then Inl (Panicked ''len compare failed'') else Inr b)"

definition CombineTwoParts :: "bytes \<Rightarrow> bytes \<Rightarrow> bytes_err + bytes" where
  "CombineTwoParts part1 part2 =
    (if part1 = [] \<or> part2 = [] then Inl (Panicked ''CombineTwoParts nil'')
     else
       case LenToBytes (length part1 + length part2) of
         Inl e \<Rightarrow> Inl e
       | Inr totalLenBytes \<Rightarrow>
           (case LenToBytes (length part1) of
              Inl e \<Rightarrow> Inl e
            | Inr part1LenBytes \<Rightarrow> Inr (totalLenBytes @ part1LenBytes @ part1 @ part2)))"

definition ExtractTwoParts :: "bytes \<Rightarrow> bytes_err + bytes \<times> bytes" where
  "ExtractTwoParts data =
    (if length data < 4 then Inl (Invalid ''nvalid length 1'')
     else
       let totalLen = BytesToLen (take 2 data) in
       if length data \<noteq> totalLen + 4 then Inl (Invalid ''invalid length 2'')
       else
         let part1Len = BytesToLen (take 2 (drop 2 data)) in
         if part1Len > length data - 4 then Inl (Invalid ''invalid length 3'')
         else Inr (take part1Len (drop 4 data), drop (4 + part1Len) data))"

section \<open>\<open>common/types.go\<close>: hashes\<close>

definition SetBytes :: "bytes \<Rightarrow> hash" where
  "SetBytes b =
    (let b' = (if length b > 32 then drop (length b - 32) b else b)
     in replicate (32 - length b') 0 @ b')"

abbreviation BytesToHash :: "bytes \<Rightarrow> hash" where "BytesToHash \<equiv> SetBytes"

definition HexToHash :: "string \<Rightarrow> hash" where
  "HexToHash s = BytesToHash (FromHex s)"

section \<open>\<open>common/hexutil\<close>\<close>

datatype dec_err = ErrEmptyString | ErrSyntax | ErrMissingPrefix | ErrOddLength | ErrEmptyNumber
  | ErrLeadingZero | ErrUint64Range | ErrBig256Range

fun mapError :: "hex_err \<Rightarrow> dec_err" where
  "mapError InvalidByte = ErrSyntax"
| "mapError ErrLength = ErrOddLength"

definition Decode :: "string \<Rightarrow> bytes \<times> dec_err option" where
  "Decode input =
    (if input = [] then ([], Some ErrEmptyString)
     else if \<not> has0xPrefix input then ([], Some ErrMissingPrefix)
     else let (b, e) = DecodeString (drop 2 input) in (b, map_option mapError e))"

definition Encode :: "bytes \<Rightarrow> string" where
  "Encode b = ''0x'' @ EncodeToString b"

definition hash_Hex :: "hash \<Rightarrow> string" where
  "hash_Hex h = Encode h"

definition checkNumber :: "string \<Rightarrow> dec_err + string" where
  "checkNumber input =
    (if input = [] then Inl ErrEmptyString
     else if \<not> has0xPrefix input then Inl ErrMissingPrefix
     else
       let raw = drop 2 input in
       if raw = [] then Inl ErrEmptyNumber
       else if length raw > 1 \<and> hd raw = CHR ''0'' then Inl ErrLeadingZero
       else Inr raw)"

text \<open>\<open>strconv.ParseUint(raw, 16, 64)\<close>: the first bad digit or the first overflow is the error.\<close>

fun ParseUint16 :: "string \<Rightarrow> nat \<Rightarrow> dec_err + u64" where
  "ParseUint16 [] n = Inr (word_of_nat n)"
| "ParseUint16 (c # cs) n =
    (case hex_digit c of
       None \<Rightarrow> Inl ErrSyntax
     | Some d \<Rightarrow> if 16 * n + d \<ge> 2 ^ 64 then Inl ErrUint64Range else ParseUint16 cs (16 * n + d))"

definition DecodeUint64 :: "string \<Rightarrow> dec_err + u64" where
  "DecodeUint64 input = (case checkNumber input of Inl e \<Rightarrow> Inl e | Inr raw \<Rightarrow> ParseUint16 raw 0)"

text \<open>The hexadecimal digits of a number (\<open>strconv.AppendUint(_, i, 16)\<close>, \<open>%x\<close>), 0 as one digit.\<close>

fun hex_digits :: "nat \<Rightarrow> string" where
  "hex_digits n = (if n < 16 then [hex_char n] else hex_digits (n div 16) @ [hex_char (n mod 16)])"

declare hex_digits.simps [simp del]

definition EncodeUint64 :: "u64 \<Rightarrow> string" where
  "EncodeUint64 i = ''0x'' @ hex_digits (unat i)"

definition badNibble :: u64 where
  "badNibble = - 1"

definition decodeNibble :: "char \<Rightarrow> u64" where
  "decodeNibble c =
    (let n = of_char c :: nat in
     if n \<ge> 48 \<and> n \<le> 57 then word_of_nat (n - 48)
     else if n \<ge> 65 \<and> n \<le> 70 then word_of_nat (n - 65 + 10)
     else if n \<ge> 97 \<and> n \<le> 102 then word_of_nat (n - 97 + 10)
     else badNibble)"

text \<open>The loops of \<open>DecodeBig\<close>: one machine word from up to 16 digits, the words from the end.\<close>

fun nibbleWord :: "string \<Rightarrow> u64 \<Rightarrow> dec_err + u64" where
  "nibbleWord [] w = Inr w"
| "nibbleWord (c # cs) w =
    (let nib = decodeNibble c in
     if nib = badNibble then Inl ErrSyntax else nibbleWord cs (w * 16 + nib))"

fun bigWords :: "nat \<Rightarrow> string \<Rightarrow> dec_err + u64 list" where
  "bigWords 0 raw = Inr []"
| "bigWords (Suc k) raw =
    (let start = length raw - 16 in
     case nibbleWord (drop start raw) 0 of
       Inl e \<Rightarrow> Inl e
     | Inr w \<Rightarrow> (case bigWords k (take start raw) of Inl e \<Rightarrow> Inl e | Inr ws \<Rightarrow> Inr (w # ws)))"

text \<open>\<open>big.Int.SetBits\<close>.\<close>

fun SetBits :: "u64 list \<Rightarrow> nat" where
  "SetBits [] = 0"
| "SetBits (w # ws) = unat w + 2 ^ 64 * SetBits ws"

definition DecodeBig :: "string \<Rightarrow> dec_err + nat" where
  "DecodeBig input =
    (case checkNumber input of
       Inl e \<Rightarrow> Inl e
     | Inr raw \<Rightarrow>
         if length raw > 64 then Inl ErrBig256Range
         else
           case bigWords (length raw div 16 + 1) raw of Inl e \<Rightarrow> Inl e | Inr words \<Rightarrow> Inr (SetBits words))"

text \<open>The sign is written by \<open>%#x\<close>.\<close>

definition EncodeBig :: "int \<Rightarrow> string" where
  "EncodeBig x =
    (if x = 0 then ''0x0'' else (if x < 0 then ''-'' else []) @ ''0x'' @ hex_digits (nat \<bar>x\<bar>))"

section \<open>Hexadecimal strings: printing and parsing\<close>

lemma of_char_hex_char: "d < 16 \<Longrightarrow> of_char (hex_char d) = (if d < 10 then 48 + d else 87 + d :: nat)"
  by (simp add: hex_char_def of_char_of)

lemma hex_digit_hex_char [simp]: "d < 16 \<Longrightarrow> hex_digit (hex_char d) = Some d"
  by (simp add: hex_digit_def of_char_hex_char)

lemma hex_digit_bound: "hex_digit c = Some d \<Longrightarrow> d < 16"
  by (auto simp: hex_digit_def Let_def split: if_splits)

lemma hex_char_not_x: "d < 16 \<Longrightarrow> hex_char d \<noteq> CHR ''x'' \<and> hex_char d \<noteq> CHR ''X''"
proof -
  assume d: "d < 16"
  have "hex_digit (CHR ''x'') = None" "hex_digit (CHR ''X'') = None" by code_simp+
  with hex_digit_hex_char [OF d] show ?thesis by auto
qed

lemma hex_char_eq_0: "d < 16 \<Longrightarrow> hex_char d = CHR ''0'' \<longleftrightarrow> d = 0"
proof -
  assume d: "d < 16"
  have "hex_digit (CHR ''0'') = Some 0" "hex_char 0 = CHR ''0''" by code_simp+
  with hex_digit_hex_char [OF d] show ?thesis by auto
qed

lemma byte_split: "word_of_nat (16 * (unat b div 16) + unat b mod 16) = (b :: byte)"
  by (rule word_eqI_unat) (simp only: mult_div_mod_eq unat_byte_of_nat mod_less unat_byte_less)

lemma unat_byte_div: "unat (b :: byte) div 16 < 16"
  using unat_byte_less [of b] by simp

lemma DecodeString_EncodeToString: "DecodeString (EncodeToString b) = (b, None)"
  by (induction b) (simp_all add: EncodeToString_def unat_byte_div byte_split)

lemma isHexCharacter_iff: "isHexCharacter c \<longleftrightarrow> hex_digit c \<noteq> None"
  by (auto simp: isHexCharacter_def hex_digit_def Let_def)

text \<open>\<open>IsHex\<close> is exactly the condition under which the decoder reports no error.\<close>

lemma IsHex_iff: "IsHex s \<longleftrightarrow> snd (DecodeString s) = None"
proof (induction s rule: DecodeString.induct)
  case (3 p q s)
  then show ?case
    by (auto simp: IsHex_def isHexCharacter_iff split: option.split prod.split)
qed (auto simp: IsHex_def)

lemma has0xPrefix_0x: "has0xPrefix (''0x'' @ s)"
  by (simp add: has0xPrefix_def)

lemma EncodeToString_no_prefix: "\<not> has0xPrefix (EncodeToString b)"
  using hex_char_not_x by (cases b) (auto simp: has0xPrefix_def EncodeToString_def)

lemma length_EncodeToString: "length (EncodeToString b) = 2 * length b"
  by (induction b) (simp_all add: EncodeToString_def)

lemma Decode_Encode: "Decode (Encode b) = (b, None)"
  by (simp add: Decode_def Encode_def has0xPrefix_0x [simplified] DecodeString_EncodeToString)

lemma FromHex_Encode: "FromHex (Encode b) = b" and FromHex_Bytes2Hex: "FromHex (Bytes2Hex b) = b"
  by (simp_all add: FromHex_def Encode_def Bytes2Hex_def Hex2Bytes_def has0xPrefix_0x [simplified]
      length_EncodeToString DecodeString_EncodeToString EncodeToString_no_prefix)

section \<open>Hashes\<close>

lemma length_SetBytes [simp]: "length (SetBytes b) = 32"
  by (simp add: SetBytes_def Let_def)

lemma SetBytes_id: "length b = 32 \<Longrightarrow> SetBytes b = b"
  by (simp add: SetBytes_def)

lemma HexToHash_hash_Hex: "length h = 32 \<Longrightarrow> HexToHash (hash_Hex h) = h"
  by (simp add: HexToHash_def hash_Hex_def FromHex_Encode SetBytes_id)

section \<open>Little-endian integers and combined records\<close>

lemma length_put_le [simp]: "length (put_le k x) = k"
  by (induction k arbitrary: x) simp_all

lemma get_put_le: "get_le (put_le k x) = x mod 256 ^ k"
proof (induction k arbitrary: x)
  case (Suc k)
  have "x mod 256 ^ Suc k = 256 * (x div 256 mod 256 ^ k) + x mod 256"
    using mod_mult2_eq [of x 256 "256 ^ k"] by simp
  with Suc show ?case by (simp add: unat_byte_of_nat)
qed simp

lemma put_get_le: "put_le (length b) (get_le b) = b"
proof (induction b)
  case (Cons x b)
  have "unat x < 256" by (rule unat_byte_less)
  with Cons show ?case by simp
qed simp

lemma get_le_bound: "get_le b < 256 ^ length b"
proof (induction b)
  case (Cons x b)
  have "unat x < 256" by (rule unat_byte_less)
  with Cons show ?case by simp
qed simp

lemma BytesToUint64_Uint64ToBytes: "BytesToUint64 (Uint64ToBytes v) = Inr v"
proof -
  have "unat v < 256 ^ 8" using unat_u64_less [of v] by simp
  then show ?thesis by (simp add: BytesToUint64_def Uint64ToBytes_def get_put_le)
qed

lemma Uint64ToBytes_inj: "Uint64ToBytes v = Uint64ToBytes w \<Longrightarrow> v = w"
  by (metis BytesToUint64_Uint64ToBytes sum.inject(2))

lemma BytesToLen_put: "len < 65536 \<Longrightarrow> BytesToLen (put_le 2 len) = len"
  by (simp add: BytesToLen_def get_put_le)

text \<open>The internal comparison never fails.\<close>

lemma LenToBytes_eq:
  "LenToBytes len =
    (if len > 65535 then Inl (Panicked ''LenToBytes max length exceeded'') else Inr (put_le 2 len))"
  by (simp add: LenToBytes_def BytesToLen_put)

lemma Extract_Combine:
  assumes "CombineTwoParts p q = Inr b"
  shows "ExtractTwoParts b = Inr (p, q)"
proof -
  have len: "length p + length q < 65536"
    and b: "b = put_le 2 (length p + length q) @ put_le 2 (length p) @ p @ q"
    using assms by (auto simp: CombineTwoParts_def LenToBytes_eq split: if_splits)
  have "drop 4 b = p @ q" and "drop (4 + length p) b = q" by (simp_all add: b)
  with len show ?thesis
    by (simp add: ExtractTwoParts_def b BytesToLen_put Let_def del: put_le.simps)
qed

lemma put_BytesToLen: "length c = 2 \<Longrightarrow> put_le 2 (BytesToLen c) = c"
  using put_get_le [of c] by (simp add: BytesToLen_def del: put_le.simps)

lemma BytesToLen_less: "BytesToLen b < 65536"
proof -
  have "get_le (take 2 b) < 256 ^ length (take 2 b)" by (rule get_le_bound)
  also have "(256 :: nat) ^ length (take 2 b) \<le> 256 ^ 2" by (rule power_increasing) auto
  finally show ?thesis by (simp add: BytesToLen_def)
qed

lemma Combine_Extract:
  assumes "ExtractTwoParts b = Inr (p, q)" and "p \<noteq> []" and "q \<noteq> []"
  shows "CombineTwoParts p q = Inr b"
proof -
  define n where "n = BytesToLen (take 2 (drop 2 b))"
  define t where "t = BytesToLen (take 2 b)"
  have b4: "4 \<le> length b" and t: "length b = t + 4" and n: "n \<le> length b - 4"
    and p: "p = take n (drop 4 b)" and q: "q = drop (4 + n) b"
    using assms(1) unfolding ExtractTwoParts_def Let_def n_def [symmetric] t_def [symmetric]
    by (simp_all split: if_splits)
  have lp: "length p = n" and lq: "length q = t - n" using t n by (simp_all add: p q)
  then have lpq: "length p + length q = t" using t n by simp
  have "put_le 2 t = take 2 b" "put_le 2 n = take 2 (drop 2 b)"
    unfolding t_def n_def by (rule put_BytesToLen, use b4 in simp)+
  moreover have "p @ q = drop 4 b"
    using append_take_drop_id [of n "drop 4 b"] by (simp add: p q add.commute)
  moreover have "take 2 b @ take 2 (drop 2 b) @ drop 4 b = b"
    using append_take_drop_id [of 2 "drop 2 b"] append_take_drop_id [of 2 b] by simp
  ultimately have "put_le 2 t @ put_le 2 n @ p @ q = b" by (simp only:)
  moreover have "t < 65536" "n < 65536" by (simp_all add: t_def n_def BytesToLen_less)
  ultimately show ?thesis
    using assms(2,3) lpq by (simp add: CombineTwoParts_def LenToBytes_eq lp del: put_le.simps)
qed

section \<open>Numbers in hexadecimal\<close>

text \<open>The positional value of a digit string: the reference the parsers are compared with.\<close>

fun hex_value :: "string \<Rightarrow> nat \<Rightarrow> nat option" where
  "hex_value [] n = Some n"
| "hex_value (c # cs) n =
    (case hex_digit c of None \<Rightarrow> None | Some d \<Rightarrow> hex_value cs (16 * n + d))"

lemma hex_value_append:
  "hex_value (xs @ ys) n = (case hex_value xs n of None \<Rightarrow> None | Some m \<Rightarrow> hex_value ys m)"
  by (induction xs arbitrary: n) (simp_all split: option.split)

lemma hex_value_scale:
  "hex_value xs n = map_option (\<lambda>v. 16 ^ length xs * n + v) (hex_value xs 0)"
proof (induction xs arbitrary: n)
  case (Cons c xs)
  show ?case
  proof (cases "hex_digit c")
    case (Some d)
    then show ?thesis
      using Cons [of "16 * n + d"] Cons [of d]
      by (cases "hex_value xs 0") (simp_all add: algebra_simps)
  qed simp
qed simp

lemma hex_value_split:
  "hex_value (xs @ ys) 0 =
    (case (hex_value xs 0, hex_value ys 0) of
       (Some a, Some b) \<Rightarrow> Some (16 ^ length ys * a + b) | _ \<Rightarrow> None)"
proof (cases "hex_value xs 0")
  case (Some a)
  then show ?thesis
    using hex_value_scale [of ys a] by (cases "hex_value ys 0") (simp_all add: hex_value_append)
qed (simp add: hex_value_append)

lemma hex_value_bound: "hex_value xs 0 = Some v \<Longrightarrow> v < 16 ^ length xs"
proof (induction xs arbitrary: v)
  case (Cons c xs)
  then obtain d where c: "hex_digit c = Some d" "hex_value xs d = Some v" by (auto split: option.splits)
  then obtain w where d: "hex_value xs 0 = Some w" "v = 16 ^ length xs * d + w"
    using hex_value_scale [of xs d] by (cases "hex_value xs 0") simp_all
  then have "w < 16 ^ length xs" "d \<le> 15" using Cons.IH hex_digit_bound [OF c(1)] by auto
  then have "16 ^ length xs * d + w < 16 ^ length xs * 15 + 16 ^ length xs"
    by (metis add_le_less_mono mult_le_mono2)
  with d(2) show ?case by simp
qed simp

lemma hex_digits_step:
  "n < 16 \<Longrightarrow> hex_digits n = [hex_char n]"
  "\<not> n < 16 \<Longrightarrow> hex_digits n = hex_digits (n div 16) @ [hex_char (n mod 16)]"
  by (subst hex_digits.simps, simp)+

lemma hex_value_digits: "hex_value (hex_digits n) 0 = Some n"
proof (induction n rule: less_induct)
  case (less n)
  show ?case
  proof (cases "n < 16")
    case True
    then show ?thesis by (simp add: hex_digits_step(1))
  next
    case False
    with less [of "n div 16"] show ?thesis by (simp add: hex_digits_step(2) hex_value_append)
  qed
qed

lemma hex_digits_lead: "hex_digits n \<noteq> [] \<and> (n \<noteq> 0 \<longrightarrow> hd (hex_digits n) \<noteq> CHR ''0'')"
proof (induction n rule: less_induct)
  case (less n)
  show ?case
  proof (cases "n < 16")
    case True
    then show ?thesis by (simp add: hex_digits_step hex_char_eq_0)
  next
    case False
    then have "n div 16 < n" "n div 16 \<noteq> 0" by auto
    with less False show ?thesis by (simp add: hex_digits_step(2))
  qed
qed

lemma checkNumber_digits: "checkNumber (''0x'' @ hex_digits n) = Inr (hex_digits n)"
  using hex_digits_lead [of n] has0xPrefix_0x [of "hex_digits n"]
  by (cases "n = 0") (simp_all add: checkNumber_def hex_digits_step(1))

lemma ParseUint16_value:
  "hex_value cs n = Some v \<Longrightarrow> v < 2 ^ 64 \<Longrightarrow> ParseUint16 cs n = Inr (word_of_nat v)"
proof (induction cs arbitrary: n)
  case (Cons c cs)
  then obtain d where d: "hex_digit c = Some d" "hex_value cs (16 * n + d) = Some v"
    by (auto split: option.splits)
  have "1 * (16 * n + d) \<le> 16 ^ length cs * (16 * n + d)" by (rule mult_le_mono1) simp
  also have "\<dots> \<le> v" using hex_value_scale [of cs "16 * n + d"] d(2) by (cases "hex_value cs 0") auto
  finally show ?case using Cons d by simp
qed simp

lemma DecodeUint64_EncodeUint64: "DecodeUint64 (EncodeUint64 i) = Inr i"
proof -
  have "ParseUint16 (hex_digits (unat i)) 0 = Inr (word_of_nat (unat i))"
    by (rule ParseUint16_value [OF hex_value_digits unat_u64_less])
  then show ?thesis
    using checkNumber_digits [of "unat i"] by (simp add: DecodeUint64_def EncodeUint64_def)
qed

lemma decodeNibble_eq: "decodeNibble c = (case hex_digit c of None \<Rightarrow> badNibble | Some d \<Rightarrow> word_of_nat d)"
  by (auto simp: decodeNibble_def hex_digit_def Let_def)

lemma nibble_not_bad: "d < 16 \<Longrightarrow> word_of_nat d \<noteq> badNibble"
proof
  assume "d < 16" and "word_of_nat d = badNibble"
  then have "unat (word_of_nat d :: u64) = 2 ^ 64 - 1"
    by (simp add: badNibble_def unsigned_minus_1_eq_mask mask_eq_exp_minus_1)
  with \<open>d < 16\<close> show False by (simp add: unat_of_nat)
qed

lemma nibbleWord_value:
  "nibbleWord cs (word_of_nat n) =
    (case hex_value cs n of None \<Rightarrow> Inl ErrSyntax | Some v \<Rightarrow> Inr (word_of_nat v))"
proof (induction cs arbitrary: n)
  case (Cons c cs)
  show ?case
  proof (cases "hex_digit c")
    case (Some d)
    then have "d < 16" by (rule hex_digit_bound)
    moreover have "word_of_nat n * 16 + word_of_nat d = (word_of_nat (16 * n + d) :: u64)" by simp
    ultimately show ?thesis
      using Some Cons [of "16 * n + d"] nibble_not_bad [of d] by (simp add: decodeNibble_eq Let_def mult.commute)
  qed (simp add: decodeNibble_eq)
qed simp

lemma word_value:
  assumes "hex_value cs 0 = Some v" and "length cs \<le> 16"
  shows "nibbleWord cs 0 = Inr (word_of_nat v)" and "unat (word_of_nat v :: u64) = v"
proof -
  show "nibbleWord cs 0 = Inr (word_of_nat v)" using nibbleWord_value [of cs 0] assms(1) by simp
  have "v < 16 ^ length cs" by (rule hex_value_bound [OF assms(1)])
  also have "(16 :: nat) ^ length cs \<le> 16 ^ 16" using assms(2) by (rule power_increasing) simp
  finally show "unat (word_of_nat v :: u64) = v" by (simp add: unat_of_nat)
qed

text \<open>The word-by-word computation gives the value of the digits.\<close>

lemma bigWords_value:
  "hex_value raw 0 = Some v \<Longrightarrow> length raw \<le> 16 * k \<Longrightarrow>
    \<exists>ws. bigWords k raw = Inr ws \<and> SetBits ws = v"
proof (induction k arbitrary: raw v)
  case (Suc k)
  let ?s = "length raw - 16"
  obtain hi lo where hi: "hex_value (take ?s raw) 0 = Some hi"
    and lo: "hex_value (drop ?s raw) 0 = Some lo" and v: "v = 16 ^ length (drop ?s raw) * hi + lo"
    using hex_value_split [of "take ?s raw" "drop ?s raw"] Suc.prems(1) by (auto split: option.splits)
  have le: "length (take ?s raw) \<le> 16 * k" using Suc.prems(2) by simp
  obtain ws where ws: "bigWords k (take ?s raw) = Inr ws" "SetBits ws = hi"
    using Suc.IH [OF hi] le by blast
  have w: "nibbleWord (drop ?s raw) 0 = Inr (word_of_nat lo)" "unat (word_of_nat lo :: u64) = lo"
    using word_value [OF lo] by auto
  have "16 ^ length (drop ?s raw) * hi = 2 ^ 64 * hi"
  proof (cases "length raw < 16")
    case True
    then have "hi = 0" using hi by simp
    then show ?thesis by simp
  next
    case False
    then have "length (drop ?s raw) = 16" by simp
    then show ?thesis by simp
  qed
  then have "SetBits (word_of_nat lo # ws) = v" using ws(2) w(2) v by (simp only: SetBits.simps)
  moreover have "bigWords (Suc k) raw = Inr (word_of_nat lo # ws)" using ws(1) w(1) by (simp add: Let_def)
  ultimately show ?case by blast
qed simp

lemma bigWords_syntax:
  "hex_value raw 0 = None \<Longrightarrow> length raw \<le> 16 * k \<Longrightarrow> bigWords k raw = Inl ErrSyntax"
proof (induction k arbitrary: raw)
  case (Suc k)
  let ?s = "length raw - 16"
  have "hex_value (take ?s raw) 0 = None \<or> hex_value (drop ?s raw) 0 = None"
    using hex_value_split [of "take ?s raw" "drop ?s raw"] Suc.prems(1) by (auto split: option.splits)
  moreover have "hex_value (take ?s raw) 0 = None \<Longrightarrow> bigWords k (take ?s raw) = Inl ErrSyntax"
    using Suc.IH [of "take ?s raw"] Suc.prems(2) by simp
  ultimately show ?case
    using nibbleWord_value [of "drop ?s raw" 0] by (auto simp: Let_def split: option.splits)
qed simp

lemma DecodeBig_eq:
  "DecodeBig input =
    (case checkNumber input of
       Inl e \<Rightarrow> Inl e
     | Inr raw \<Rightarrow> if length raw > 64 then Inl ErrBig256Range
         else case hex_value raw 0 of None \<Rightarrow> Inl ErrSyntax | Some v \<Rightarrow> Inr v)"
proof (cases "checkNumber input")
  case (Inr raw)
  have "length raw \<le> 16 * (length raw div 16 + 1)" by presburger
  with Inr show ?thesis
    using bigWords_value [of raw _ "length raw div 16 + 1"] bigWords_syntax [of raw "length raw div 16 + 1"]
    by (cases "hex_value raw 0") (auto simp: DecodeBig_def simp del: bigWords.simps)
qed (simp add: DecodeBig_def)

lemma length_hex_digits: "n < 16 ^ k \<Longrightarrow> 0 < k \<Longrightarrow> length (hex_digits n) \<le> k"
proof (induction k arbitrary: n)
  case (Suc k)
  show ?case
  proof (cases "n < 16")
    case True
    then show ?thesis by (simp add: hex_digits_step(1))
  next
    case False
    then have "n div 16 < 16 ^ k" using Suc.prems(1) by (simp add: div_less_iff_less_mult mult.commute)
    moreover have "0 < k"
    proof (rule ccontr)
      assume "\<not> 0 < k"
      with Suc.prems(1) have "n < 16" by simp
      with False show False ..
    qed
    ultimately have "n div 16 < 16 ^ k" "0 < k" .
    with Suc.IH [of "n div 16"] False show ?thesis by (simp add: hex_digits_step(2))
  qed
qed simp

lemma DecodeBig_EncodeBig:
  assumes "0 \<le> x" and "x < 2 ^ 256"
  shows "DecodeBig (EncodeBig x) = Inr (nat x)"
proof -
  have e: "EncodeBig x = ''0x'' @ hex_digits (nat x)"
    using assms(1) hex_char_eq_0 [of 0] by (auto simp: EncodeBig_def hex_digits_step(1))
  have "nat x < 16 ^ 64" using assms by (simp add: nat_less_iff)
  then have "length (hex_digits (nat x)) \<le> 64" by (rule length_hex_digits) simp
  with checkNumber_digits [of "nat x"] hex_value_digits [of "nat x"] e show ?thesis
    by (simp add: DecodeBig_eq)
qed

text \<open>The sign is not ignored, and what is printed for a negative number is not accepted back.\<close>

lemma EncodeBig_negative: "x < 0 \<Longrightarrow> EncodeBig x = CHR ''-'' # EncodeBig (- x)"
  by (simp add: EncodeBig_def)

lemma DecodeBig_negative: "x < 0 \<Longrightarrow> DecodeBig (EncodeBig x) = Inl ErrMissingPrefix"
  by (simp add: EncodeBig_def DecodeBig_def checkNumber_def has0xPrefix_def)

section \<open>Padding and trimming\<close>

lemma TrimLeftZeroes_spec:
  "\<exists>k. s = replicate k 0 @ TrimLeftZeroes s \<and> (TrimLeftZeroes s \<noteq> [] \<longrightarrow> hd (TrimLeftZeroes s) \<noteq> 0)"
proof (induction s)
  case (Cons x s)
  then obtain k where "s = replicate k 0 @ TrimLeftZeroes s"
      "TrimLeftZeroes s \<noteq> [] \<longrightarrow> hd (TrimLeftZeroes s) \<noteq> 0" by blast
  then show ?case
    by (cases "x = 0") (auto intro: exI [of _ "Suc k"] exI [of _ 0])
qed simp

lemma TrimLeftZeroes_replicate: "TrimLeftZeroes (replicate k 0 @ s) = TrimLeftZeroes s"
  by (induction k) simp_all

lemma TrimLeft_LeftPad: "TrimLeftZeroes (LeftPadBytes b l) = TrimLeftZeroes b"
  by (simp add: LeftPadBytes_def TrimLeftZeroes_replicate)

lemma trimRightIdx_le: "trimRightIdx s i \<le> i"
  by (induction i) auto

lemma trimRightIdx_zero: "trimRightIdx s i \<le> j \<Longrightarrow> j < i \<Longrightarrow> s ! j = 0"
  by (induction i) (auto simp: less_Suc_eq split: if_splits)

lemma trimRightIdx_last: "0 < trimRightIdx s i \<Longrightarrow> s ! (trimRightIdx s i - 1) \<noteq> 0"
  by (induction i) auto

lemma TrimRightZeroes_spec:
  "s = TrimRightZeroes s @ replicate (length s - length (TrimRightZeroes s)) 0"
  "TrimRightZeroes s \<noteq> [] \<Longrightarrow> last (TrimRightZeroes s) \<noteq> 0"
proof -
  let ?i = "trimRightIdx s (length s)"
  have len: "length (TrimRightZeroes s) = ?i" using trimRightIdx_le by (simp add: TrimRightZeroes_def min_absorb2)
  have "drop ?i s = replicate (length s - ?i) 0"
    using trimRightIdx_zero [of s "length s"] by (intro nth_equalityI) auto
  then show "s = TrimRightZeroes s @ replicate (length s - length (TrimRightZeroes s)) 0"
    unfolding len by (metis TrimRightZeroes_def append_take_drop_id)
  assume "TrimRightZeroes s \<noteq> []"
  then have "0 < ?i" using len by (metis length_greater_0_conv)
  then show "last (TrimRightZeroes s) \<noteq> 0"
    using trimRightIdx_last [of s "length s"] trimRightIdx_le [of s "length s"] len
      last_conv_nth [OF \<open>TrimRightZeroes s \<noteq> []\<close>] by (simp add: TrimRightZeroes_def)
qed

end
