(* ===== verification/Rlp_Encode.thy ===== *)
theory Rlp_Encode
  imports Go_Prelude
begin

text \<open>
  The RLP encoder of \<open>rlp/encode.go\<close>. \<open>putint\<close>, \<open>intsize\<close>, \<open>headsize\<close>, \<open>puthead\<close> are the integer
  and header primitives on 64-bit words; \<open>encbuf\<close> with \<open>list_open\<close>, \<open>list_end\<close>, \<open>toBytes\<close> is
  the two-pass buffer (string data and list headers kept apart, spliced at the end); \<open>write_val\<close> is
  the writer the type cache selects for a value. \<open>enc\<close> is the reference definition of RLP, and
  the main result is that the buffer produces it: \<open>EncodeToBytes_eq\<close>.

  Values. The writers dispatch on the reflected Go type; the model's values say which writer
  applies: unsigned integers (\<open>VUint\<close>), booleans, \<open>*big.Int\<close> (\<open>VBig\<close>), byte slices and strings
  (\<open>VBytes\<close>), byte arrays (\<open>VArray\<close>), other slices (\<open>VSlice\<close>) and structs without optional
  fields (\<open>VStruct\<close>). Nil pointers, interface values, tail and optional fields and custom
  \<open>EncodeRLP\<close> methods are not modelled.
\<close>

unbundle bit_operations_syntax

section \<open>Big-endian integers\<close>

primrec be_nat :: "nat \<Rightarrow> nat \<Rightarrow> bytes" where
  "be_nat 0 n = []"
| "be_nat (Suc k) n = be_nat k (n div 256) @ [word_of_nat n]"

primrec nat_be :: "bytes \<Rightarrow> nat" where
  "nat_be [] = 0"
| "nat_be (b # bs) = unat b * 256 ^ length bs + nat_be bs"

lemma nat_be_append: "nat_be (xs @ ys) = nat_be xs * 256 ^ length ys + nat_be ys"
  by (induction xs) (simp_all add: algebra_simps power_add)

lemma length_be_nat [simp]: "length (be_nat k n) = k"
  by (induction k arbitrary: n) simp_all

lemma nat_be_be_nat: "nat_be (be_nat k n) = n mod 256 ^ k"
proof (induction k arbitrary: n)
  case 0
  then show ?case by simp
next
  case (Suc k)
  have "n mod 256 ^ Suc k = n div 256 mod 256 ^ k * 256 + n mod 256"
    using mod_mult2_eq [of n 256 "256 ^ k"] by simp
  then show ?case by (simp add: nat_be_append Suc unat_byte_of_nat)
qed

lemma nat_be_less: "nat_be bs < 256 ^ length bs"
proof (induction bs)
  case Nil
  then show ?case by simp
next
  case (Cons b bs)
  have "unat b < 256" by (rule unat_byte_less)
  then have "unat b * 256 ^ length bs \<le> 255 * 256 ^ length bs" by simp
  with Cons have "unat b * 256 ^ length bs + nat_be bs < 255 * 256 ^ length bs + 256 ^ length bs"
    by linarith
  then show ?case by simp
qed

lemma be_nat_nat_be: "be_nat (length bs) (nat_be bs) = bs"
proof (induction bs rule: rev_induct)
  case Nil
  then show ?case by simp
next
  case (snoc b bs)
  have b: "unat b < 256" by (rule unat_byte_less)
  have "nat_be (bs @ [b]) = nat_be bs * 256 + unat b"
    by (simp add: nat_be_append)
  moreover have "word_of_nat (nat_be bs * 256 + unat b) = b"
  proof (rule word_eqI_unat)
    show "unat (word_of_nat (nat_be bs * 256 + unat b) :: byte) = unat b"
      using b unfolding unat_byte_of_nat by simp
  qed
  ultimately show ?case using snoc b by simp
qed

section \<open>Integers and headers\<close>

definition to_byte :: "u64 \<Rightarrow> byte" where
  "to_byte i = ucast i"

text \<open>\<open>putint\<close> (\<open>encode.go\<close>): the bytes written at the start of \<open>b\<close>; their number is its result.\<close>

definition putint :: "u64 \<Rightarrow> bytes" where
  "putint i =
    (if i < 2 ^ 8 then [to_byte i]
     else if i < 2 ^ 16 then [to_byte (drop_bit 8 i), to_byte i]
     else if i < 2 ^ 24 then [to_byte (drop_bit 16 i), to_byte (drop_bit 8 i), to_byte i]
     else if i < 2 ^ 32 then [to_byte (drop_bit 24 i), to_byte (drop_bit 16 i),
       to_byte (drop_bit 8 i), to_byte i]
     else if i < 2 ^ 40 then [to_byte (drop_bit 32 i), to_byte (drop_bit 24 i),
       to_byte (drop_bit 16 i), to_byte (drop_bit 8 i), to_byte i]
     else if i < 2 ^ 48 then [to_byte (drop_bit 40 i), to_byte (drop_bit 32 i),
       to_byte (drop_bit 24 i), to_byte (drop_bit 16 i), to_byte (drop_bit 8 i), to_byte i]
     else if i < 2 ^ 56 then [to_byte (drop_bit 48 i), to_byte (drop_bit 40 i),
       to_byte (drop_bit 32 i), to_byte (drop_bit 24 i), to_byte (drop_bit 16 i),
       to_byte (drop_bit 8 i), to_byte i]
     else [to_byte (drop_bit 56 i), to_byte (drop_bit 48 i), to_byte (drop_bit 40 i),
       to_byte (drop_bit 32 i), to_byte (drop_bit 24 i), to_byte (drop_bit 16 i),
       to_byte (drop_bit 8 i), to_byte i])"

text \<open>The loop of \<open>intsize\<close>: shift by eight until nothing is left.\<close>

lemma drop_bit_8_less: "drop_bit 8 i \<noteq> 0 \<Longrightarrow> unat (drop_bit 8 (i :: u64)) < unat i"
proof -
  assume "drop_bit 8 i \<noteq> 0"
  then have "i \<noteq> 0" by auto
  then have "0 < unat i" by (simp add: unat_gt_0)
  then show ?thesis unfolding unat_drop_bit_eq by (simp add: drop_bit_eq_div)
qed

function intsize_loop :: "u64 \<Rightarrow> nat \<Rightarrow> nat" where
  "intsize_loop i sz =
     (let i' = drop_bit 8 i in if i' = 0 then sz else intsize_loop i' (sz + 1))"
  by pat_completeness auto
termination
  by (relation "measure (\<lambda>(i, sz). unat i)") (auto simp: drop_bit_8_less)

definition intsize :: "u64 \<Rightarrow> nat" where
  "intsize i = intsize_loop i 1"

definition headsize :: "u64 \<Rightarrow> nat" where
  "headsize sz = (if sz < 56 then 1 else 1 + intsize sz)"

text \<open>\<open>puthead\<close>: the bytes written at the start of \<open>buf\<close>.\<close>

definition puthead :: "byte \<Rightarrow> byte \<Rightarrow> u64 \<Rightarrow> bytes" where
  "puthead smalltag largetag sz =
    (if sz < 56 then [smalltag + to_byte sz]
     else let p = putint sz in (largetag + word_of_nat (length p)) # p)"

declare intsize_loop.simps [simp del]

lemma unat_drop_bit_u64: "unat (drop_bit n (i :: u64)) = unat i div 2 ^ n"
  unfolding unat_drop_bit_eq by (simp add: drop_bit_eq_div)

lemma unat_to_byte: "unat (to_byte i) = unat i mod 256"
  by (simp add: to_byte_def unsigned_ucast_eq take_bit_eq_mod)

lemma to_byte_drop: "to_byte (drop_bit n i) = word_of_nat (unat i div 2 ^ n)"
  by (rule word_eqI_unat) (simp add: unat_to_byte unat_drop_bit_u64 unat_byte_of_nat)

definition nbytes :: "nat \<Rightarrow> nat" where
  "nbytes n = (if n < 2 ^ 8 then 1 else if n < 2 ^ 16 then 2 else if n < 2 ^ 24 then 3
     else if n < 2 ^ 32 then 4 else if n < 2 ^ 40 then 5 else if n < 2 ^ 48 then 6
     else if n < 2 ^ 56 then 7 else 8)"

lemma be_nat_numeral:
  "be_nat (numeral k) n = be_nat (pred_numeral k) (n div 256) @ [word_of_nat n]"
  unfolding numeral_eq_Suc [of k] by (simp only: be_nat.simps)

lemma be_nat_1: "be_nat 1 n = [word_of_nat n]"
  by simp

lemma to_byte_unat: "to_byte i = word_of_nat (unat i)"
  by (rule word_eqI_unat) (simp only: unat_to_byte unat_byte_of_nat)

lemma be_nat_words:
  "be_nat 1 (unat i) = [to_byte i]"
  "be_nat 2 (unat i) = [to_byte (drop_bit 8 i), to_byte i]"
  "be_nat 3 (unat i) = [to_byte (drop_bit 16 i), to_byte (drop_bit 8 i), to_byte i]"
  "be_nat 4 (unat i) = [to_byte (drop_bit 24 i), to_byte (drop_bit 16 i), to_byte (drop_bit 8 i), to_byte i]"
  "be_nat 5 (unat i) = [to_byte (drop_bit 32 i), to_byte (drop_bit 24 i), to_byte (drop_bit 16 i), to_byte (drop_bit 8 i), to_byte i]"
  "be_nat 6 (unat i) = [to_byte (drop_bit 40 i), to_byte (drop_bit 32 i), to_byte (drop_bit 24 i), to_byte (drop_bit 16 i), to_byte (drop_bit 8 i), to_byte i]"
  "be_nat 7 (unat i) = [to_byte (drop_bit 48 i), to_byte (drop_bit 40 i), to_byte (drop_bit 32 i), to_byte (drop_bit 24 i), to_byte (drop_bit 16 i), to_byte (drop_bit 8 i), to_byte i]"
  "be_nat 8 (unat i) = [to_byte (drop_bit 56 i), to_byte (drop_bit 48 i), to_byte (drop_bit 40 i), to_byte (drop_bit 32 i), to_byte (drop_bit 24 i), to_byte (drop_bit 16 i), to_byte (drop_bit 8 i), to_byte i]"
  by (simp_all only: be_nat_numeral be_nat.simps pred_numeral_simps to_byte_drop
      to_byte_unat [of i] append.simps div_mult2_eq [symmetric] One_nat_def
      Num.BitM.simps) simp_all

lemma u64_less_pow:
  "(i :: u64) < 2 ^ 8 \<longleftrightarrow> unat i < 2 ^ 8" "(i :: u64) < 2 ^ 16 \<longleftrightarrow> unat i < 2 ^ 16"
  "(i :: u64) < 2 ^ 24 \<longleftrightarrow> unat i < 2 ^ 24" "(i :: u64) < 2 ^ 32 \<longleftrightarrow> unat i < 2 ^ 32"
  "(i :: u64) < 2 ^ 40 \<longleftrightarrow> unat i < 2 ^ 40" "(i :: u64) < 2 ^ 48 \<longleftrightarrow> unat i < 2 ^ 48"
  "(i :: u64) < 2 ^ 56 \<longleftrightarrow> unat i < 2 ^ 56"
  by (simp_all add: word_less_nat_alt)

lemma putint_be: "putint i = be_nat (nbytes (unat i)) (unat i)"
  unfolding putint_def nbytes_def
  by (simp only: u64_less_pow be_nat_words if_distrib [of "\<lambda>k. be_nat k (unat i)"])

lemma nbytes_bounds: "1 \<le> nbytes n" "nbytes n \<le> 8"
  by (simp_all add: nbytes_def)

lemma nbytes_upper: "n < 2 ^ 64 \<Longrightarrow> n < 256 ^ nbytes n"
  by (simp add: nbytes_def)

lemma nbytes_lower: "n \<noteq> 0 \<Longrightarrow> 256 ^ (nbytes n - 1) \<le> n"
  by (simp add: nbytes_def)

lemma nbytes_unique:
  assumes "256 ^ k \<le> n" and "n < 256 ^ Suc k" and "k < 8"
  shows "nbytes n = Suc k"
proof -
  have "n < 2 ^ 64"
    using assms(2) power_increasing [of "Suc k" 8 "256 :: nat"] assms(3) by simp
  have "nbytes n - 1 < Suc k"
  proof (rule ccontr)
    assume "\<not> ?thesis"
    then have "256 ^ Suc k \<le> (256 :: nat) ^ (nbytes n - 1)" by (intro power_increasing) auto
    with nbytes_lower [of n] assms(1,2) show False by (cases "n = 0") auto
  qed
  moreover have "k < nbytes n"
  proof (rule ccontr)
    assume "\<not> ?thesis"
    then have "(256 :: nat) ^ nbytes n \<le> 256 ^ k" by (intro power_increasing) auto
    with nbytes_upper [OF \<open>n < 2 ^ 64\<close>] assms(1) show False by simp
  qed
  ultimately show ?thesis by simp
qed

lemma length_putint: "length (putint i) = nbytes (unat i)"
  by (simp add: putint_be)

lemma nat_be_putint: "nat_be (putint i) = unat i"
  using nbytes_upper [OF unat_u64_less] by (simp add: putint_be nat_be_be_nat)

lemma hd_nonzero_iff:
  assumes "bs \<noteq> []"
  shows "hd bs \<noteq> 0 \<longleftrightarrow> 256 ^ (length bs - 1) \<le> nat_be bs"
proof (cases bs)
  case Nil
  with assms show ?thesis by simp
next
  case (Cons b cs)
  have "b = 0 \<or> 1 \<le> unat b"
    using unat_gt_0 [of b] by (cases "b = 0") auto
  then show ?thesis
  proof
    assume "1 \<le> unat b"
    then have "256 ^ length cs \<le> unat b * 256 ^ length cs" by simp
    moreover have "b \<noteq> 0" using \<open>1 \<le> unat b\<close> by auto
    ultimately show ?thesis using Cons by (simp add: trans_le_add1)
  qed (use Cons nat_be_less [of cs] in simp)
qed

lemma putint_not_Nil [simp]: "putint i \<noteq> []"
  using nbytes_bounds(1) [of "unat i"] by (auto simp flip: length_0_conv simp: length_putint)

lemma hd_putint: "i \<noteq> 0 \<Longrightarrow> hd (putint i) \<noteq> 0"
  using nbytes_lower [of "unat i"]
  by (simp add: hd_nonzero_iff length_putint nat_be_putint unat_0_iff)

text \<open>A byte string without a leading zero is the minimal encoding of the number it denotes.\<close>

lemma putint_nat_be:
  assumes "bs \<noteq> []" and "hd bs \<noteq> 0" and "length bs \<le> 8"
  shows "putint (word_of_nat (nat_be bs)) = bs"
proof -
  have lt: "nat_be bs < 256 ^ length bs" by (rule nat_be_less)
  also have "(256 :: nat) ^ length bs \<le> 256 ^ 8"
    using assms(3) by (intro power_increasing) auto
  finally have u: "unat (word_of_nat (nat_be bs) :: u64) = nat_be bs"
    by (simp add: unat_of_nat)
  have "nbytes (nat_be bs) = Suc (length bs - 1)"
    by (rule nbytes_unique) (use assms lt hd_nonzero_iff [of bs] in \<open>auto simp: Suc_diff_1\<close>)
  with assms(1) u show ?thesis
    unfolding putint_be by (simp add: be_nat_nat_be)
qed

lemma nbytes_div:
  assumes "256 \<le> n" and "n < 2 ^ 64"
  shows "nbytes n = Suc (nbytes (n div 256))"
proof -
  have "n div 256 < 2 ^ 56" using assms(2) by (simp add: div_less_iff_less_mult)
  with assms show ?thesis by (simp add: nbytes_def div_less_iff_less_mult)
qed

lemma intsize_loop_nbytes: "intsize_loop i n = n + nbytes (unat i) - 1"
proof (induction i n rule: intsize_loop.induct)
  case (1 i n)
  have z: "drop_bit 8 i = 0 \<longleftrightarrow> unat i < 256"
    by (simp add: unat_0_iff [symmetric] unat_drop_bit_u64 div_eq_0_iff)
  show ?case
  proof (cases "drop_bit 8 i = 0")
    case True
    with z have "nbytes (unat i) = 1" by (simp add: nbytes_def)
    with True show ?thesis by (simp add: intsize_loop.simps [of i])
  next
    case False
    with z have "nbytes (unat i) = Suc (nbytes (unat i div 256))"
      using unat_u64_less [of i] by (intro nbytes_div) auto
    with 1 [OF refl False] False show ?thesis
      by (simp add: intsize_loop.simps [of i] unat_drop_bit_u64)
  qed
qed

text \<open>\<open>intsize\<close> computes the number of bytes that \<open>putint\<close> writes.\<close>

lemma intsize_putint: "intsize i = length (putint i)"
  by (simp add: intsize_def intsize_loop_nbytes length_putint)

lemma length_puthead: "length (puthead st lt n) = headsize n"
  by (simp add: puthead_def headsize_def intsize_putint Let_def)

section \<open>The encode buffer\<close>

record listhead =
  offset :: nat
  hsize :: nat

record encbuf =
  str :: bytes
  lheads :: "listhead list"
  lhsize :: nat

definition encbuf_reset :: encbuf where
  "encbuf_reset = \<lparr>str = [], lheads = [], lhsize = 0\<rparr>"

definition encbuf_size :: "encbuf \<Rightarrow> nat" where
  "encbuf_size w = length (str w) + lhsize w"

definition w_append :: "bytes \<Rightarrow> encbuf \<Rightarrow> encbuf" where
  "w_append bs w = w\<lparr>str := str w @ bs\<rparr>"

definition list_open :: "encbuf \<Rightarrow> encbuf \<times> nat" where
  "list_open w =
    (w\<lparr>lheads := lheads w @ [\<lparr>offset = length (str w), hsize = lhsize w\<rparr>]\<rparr>, length (lheads w))"

definition list_end :: "nat \<Rightarrow> encbuf \<Rightarrow> encbuf" where
  "list_end index w =
    (let lh = lheads w ! index;
         sz = encbuf_size w - offset lh - hsize lh
     in w\<lparr>lheads := (lheads w)[index := lh\<lparr>hsize := sz\<rparr>],
          lhsize := lhsize w + (if sz < 56 then 1 else 1 + intsize (word_of_nat sz))\<rparr>)"

definition head_encode :: "listhead \<Rightarrow> bytes" where
  "head_encode h = puthead 0xC0 0xF7 (word_of_nat (hsize h))"

text \<open>Go's \<open>copy(out[pos:], src)\<close>: as many bytes as fit.\<close>

definition copy_at :: "bytes \<Rightarrow> nat \<Rightarrow> bytes \<Rightarrow> bytes" where
  "copy_at out pos src =
    take pos out @ take (length out - pos) src @ drop (pos + length src) out"

primrec toBytes_loop :: "listhead list \<Rightarrow> bytes \<Rightarrow> bytes \<Rightarrow> nat \<Rightarrow> nat \<Rightarrow> bytes" where
  "toBytes_loop [] s out strpos pos = copy_at out pos (drop strpos s)"
| "toBytes_loop (h # hs) s out strpos pos =
    (let src = take (offset h - strpos) (drop strpos s);
         n = min (length out - pos) (length src);
         out1 = copy_at out pos src;
         e = head_encode h
     in toBytes_loop hs s (copy_at out1 (pos + n) e) (strpos + n) (pos + n + length e))"

definition toBytes :: "encbuf \<Rightarrow> bytes" where
  "toBytes w = toBytes_loop (lheads w) (str w) (replicate (encbuf_size w) 0) 0 0"

definition encodeStringHeader :: "nat \<Rightarrow> encbuf \<Rightarrow> encbuf" where
  "encodeStringHeader n w =
    (if n < 56 then w_append [0x80 + word_of_nat n] w
     else let p = putint (word_of_nat n) in w_append ((0xB7 + word_of_nat (length p)) # p) w)"

definition encodeString :: "bytes \<Rightarrow> encbuf \<Rightarrow> encbuf" where
  "encodeString b w =
    (if length b = 1 \<and> hd b \<le> 0x7F then w_append b w
     else w_append b (encodeStringHeader (length b) w))"

definition encodeUint :: "u64 \<Rightarrow> encbuf \<Rightarrow> encbuf" where
  "encodeUint i w =
    (if i = 0 then w_append [0x80] w
     else if i < 128 then w_append [to_byte i] w
     else let p = putint i in w_append ((0x80 + word_of_nat (length p)) # p) w)"

section \<open>Writers\<close>

datatype rval = VUint u64 | VBool bool | VBig int | VBytes bytes | VArray bytes
  | VSlice "rval list" | VStruct "rval list"

text \<open>The errors of the package (\<open>decode.go\<close>, \<open>encode.go\<close>); \<open>OutOfFuel\<close> is the model's own.\<close>

datatype rlp_err = EOL | ErrExpectedString | ErrExpectedList | ErrCanonInt | ErrCanonSize
  | ErrElemTooLarge | ErrValueTooLarge | ErrMoreThanOneValue | ErrNotInList | ErrNotAtEOL
  | ErrUintOverflow | ErrEOF | ErrUnexpectedEOF | ErrTooFewElements | ErrStringTooLong
  | ErrStringTooShort | ErrInvalidBool | ErrNegativeBigInt | OutOfFuel

fun bitlen :: "nat \<Rightarrow> nat" where
  "bitlen n = (if n = 0 then 0 else Suc (bitlen (n div 2)))"

declare bitlen.simps [simp del]

text \<open>
  \<open>writeBigInt\<close>: \<open>length = ((bitlen + 7) & -8) >> 3\<close>; the two loops over \<open>i.Bits()\<close> fill the
  buffer from its end with the bytes of the number, the least significant first.
\<close>

definition writeBigInt :: "int \<Rightarrow> encbuf \<Rightarrow> rlp_err + encbuf" where
  "writeBigInt i w =
    (if i < 0 then Inl ErrNegativeBigInt
     else if bitlen (nat i) \<le> 64 then Inr (encodeUint (word_of_int i) w)
     else let len = (bitlen (nat i) + 7) div 8
          in Inr (w_append (be_nat len (nat i)) (encodeStringHeader len w)))"

definition writeBool :: "bool \<Rightarrow> encbuf \<Rightarrow> encbuf" where
  "writeBool b w = w_append [if b then 0x01 else 0x80] w"

text \<open>\<open>makeByteArrayWriter\<close> selects one of three writers by the length of the array.\<close>

definition writeByteArray :: "bytes \<Rightarrow> encbuf \<Rightarrow> encbuf" where
  "writeByteArray b w =
    (case b of [] \<Rightarrow> w_append [0x80] w
     | [x] \<Rightarrow> if x \<le> 0x7F then w_append [x] w else w_append [0x81, x] w
     | _ \<Rightarrow> w_append b (encodeStringHeader (length b) w))"

fun write_val :: "rval \<Rightarrow> encbuf \<Rightarrow> rlp_err + encbuf"
  and write_list :: "rval list \<Rightarrow> encbuf \<Rightarrow> rlp_err + encbuf" where
  "write_val (VUint i) w = Inr (encodeUint i w)"
| "write_val (VBool b) w = Inr (writeBool b w)"
| "write_val (VBig i) w = writeBigInt i w"
| "write_val (VBytes b) w = Inr (encodeString b w)"
| "write_val (VArray b) w = Inr (writeByteArray b w)"
| "write_val (VSlice vs) w =
    (case list_open w of (w1, lh) \<Rightarrow>
      (case write_list vs w1 of Inl e \<Rightarrow> Inl e | Inr w2 \<Rightarrow> Inr (list_end lh w2)))"
| "write_val (VStruct vs) w =
    (case list_open w of (w1, lh) \<Rightarrow>
      (case write_list vs w1 of Inl e \<Rightarrow> Inl e | Inr w2 \<Rightarrow> Inr (list_end lh w2)))"
| "write_list [] w = Inr w"
| "write_list (v # vs) w =
    (case write_val v w of Inl e \<Rightarrow> Inl e | Inr w1 \<Rightarrow> write_list vs w1)"

definition EncodeToBytes :: "rval \<Rightarrow> rlp_err + bytes" where
  "EncodeToBytes v = (case write_val v encbuf_reset of Inl e \<Rightarrow> Inl e | Inr w \<Rightarrow> Inr (toBytes w))"

section \<open>The reference encoding\<close>

definition enc_uint :: "nat \<Rightarrow> bytes" where
  "enc_uint n =
    (if n = 0 then [0x80] else if n < 128 then [word_of_nat n]
     else let k = (bitlen n + 7) div 8 in
       puthead 0x80 0xB7 (word_of_nat k) @ be_nat k n)"

definition enc_string :: "bytes \<Rightarrow> bytes" where
  "enc_string b =
    (if length b = 1 \<and> hd b \<le> 0x7F then b
     else puthead 0x80 0xB7 (word_of_nat (length b)) @ b)"

definition enc_seq :: "bytes \<Rightarrow> bytes" where
  "enc_seq payload = puthead 0xC0 0xF7 (word_of_nat (length payload)) @ payload"

fun enc :: "rval \<Rightarrow> bytes" where
  "enc (VUint i) = enc_uint (unat i)"
| "enc (VBool b) = [if b then 0x01 else 0x80]"
| "enc (VBig i) = enc_uint (nat i)"
| "enc (VBytes b) = enc_string b"
| "enc (VArray b) = enc_string b"
| "enc (VSlice vs) = enc_seq (concat (map enc vs))"
| "enc (VStruct vs) = enc_seq (concat (map enc vs))"

text \<open>Values the writers accept: no negative \<open>big.Int\<close> anywhere.\<close>

fun encodable :: "rval \<Rightarrow> bool" where
  "encodable (VBig i) \<longleftrightarrow> 0 \<le> i"
| "encodable (VSlice vs) \<longleftrightarrow> (\<forall>v\<in>set vs. encodable v)"
| "encodable (VStruct vs) \<longleftrightarrow> (\<forall>v\<in>set vs. encodable v)"
| "encodable v \<longleftrightarrow> True"

section \<open>Byte lengths of big integers\<close>

lemma bitlen_bounds: "0 < n \<Longrightarrow> 2 ^ (bitlen n - 1) \<le> n \<and> n < 2 ^ bitlen n \<and> 0 < bitlen n"
proof (induction n rule: bitlen.induct)
  case (1 n)
  show ?case
  proof (cases "n div 2 = 0")
    case True
    with 1 have "n = 1" by auto
    then show ?thesis by (simp add: bitlen.simps [of "Suc 0"] bitlen.simps [of 0])
  next
    case False
    then have "2 ^ (bitlen (n div 2) - 1) \<le> n div 2 \<and> n div 2 < 2 ^ bitlen (n div 2) \<and> 0 < bitlen (n div 2)"
      using 1 by auto
    then have "2 ^ bitlen (n div 2) \<le> n" and "n < 2 * 2 ^ bitlen (n div 2)"
      by (cases "bitlen (n div 2)"; auto)+
    with 1 show ?thesis by (simp add: bitlen.simps [of n])
  qed
qed

definition biglen :: "nat \<Rightarrow> nat" where
  "biglen n = (bitlen n + 7) div 8"

lemma biglen_bounds:
  assumes "0 < n"
  shows "256 ^ (biglen n - 1) \<le> n" and "n < 256 ^ biglen n" and "0 < biglen n"
proof -
  have p: "(256 :: nat) ^ k = 2 ^ (8 * k)" for k by (simp add: power_mult)
  have b: "2 ^ (bitlen n - 1) \<le> n" "n < 2 ^ bitlen n" "0 < bitlen n"
    using bitlen_bounds [OF assms] by auto
  then show "0 < biglen n" by (simp add: biglen_def)
  have "8 * (biglen n - 1) \<le> bitlen n - 1" by (simp add: biglen_def)
  then have "(2 :: nat) ^ (8 * (biglen n - 1)) \<le> 2 ^ (bitlen n - 1)"
    by (intro power_increasing) auto
  with b(1) show "256 ^ (biglen n - 1) \<le> n" unfolding p by (rule order_trans [rotated])
  have "bitlen n \<le> 8 * biglen n" by (simp add: biglen_def)
  then have "(2 :: nat) ^ bitlen n \<le> 2 ^ (8 * biglen n)"
    by (intro power_increasing) auto
  with b(2) show "n < 256 ^ biglen n" unfolding p by (rule less_le_trans)
qed

lemma biglen_unique:
  assumes "256 ^ k \<le> n" and "n < 256 ^ Suc k"
  shows "biglen n = Suc k"
proof -
  have "0 < n" using assms(1) by (cases n) auto
  note b = biglen_bounds [OF this]
  have "biglen n - 1 < Suc k"
    using le_less_trans [OF b(1) assms(2)] by (subst (asm) power_strict_increasing_iff) auto
  moreover have "k < biglen n"
    using le_less_trans [OF assms(1) b(2)] by (subst (asm) power_strict_increasing_iff) auto
  ultimately show ?thesis by simp
qed

lemma biglen_nbytes: "0 < n \<Longrightarrow> n < 2 ^ 64 \<Longrightarrow> biglen n = nbytes n"
  using nbytes_lower [of n] nbytes_upper [of n] nbytes_bounds(1) [of n]
    biglen_unique [of "nbytes n - 1" n] by simp

lemma bitlen_64: "bitlen n \<le> 64 \<longleftrightarrow> n < 2 ^ 64"
proof (cases "n = 0")
  case True
  then show ?thesis by (simp add: bitlen.simps [of 0])
next
  case False
  then have b: "2 ^ (bitlen n - 1) \<le> n" "n < 2 ^ bitlen n" "0 < bitlen n"
    using bitlen_bounds [of n] by auto
  show ?thesis
  proof
    assume "bitlen n \<le> 64"
    then have "(2 :: nat) ^ bitlen n \<le> 2 ^ 64" by (intro power_increasing) auto
    with b(2) show "n < 2 ^ 64" by linarith
  next
    assume "n < 2 ^ 64"
    with b(1) have "(2 :: nat) ^ (bitlen n - 1) < 2 ^ 64" by linarith
    then have "bitlen n - 1 < 64" by (subst (asm) power_strict_increasing_iff) auto
    then show "bitlen n \<le> 64" by simp
  qed
qed

section \<open>The two-pass buffer renders the reference encoding\<close>


text \<open>\<open>render s hs p\<close>: string data from position \<open>p\<close> on, with the list headers put in.\<close>

fun render :: "bytes \<Rightarrow> listhead list \<Rightarrow> nat \<Rightarrow> bytes" where
  "render s [] p = s"
| "render s (h # hs) p =
    take (offset h - p) s @ head_encode h @ render (drop (offset h - p) s) hs (offset h)"

text \<open>Offsets of list headers never decrease and stay within the string data.\<close>

fun heads_ok :: "listhead list \<Rightarrow> nat \<Rightarrow> nat \<Rightarrow> bool" where
  "heads_ok [] p q \<longleftrightarrow> p \<le> q"
| "heads_ok (h # hs) p q \<longleftrightarrow> p \<le> offset h \<and> heads_ok hs (offset h) q"

abbreviation heads_len :: "listhead list \<Rightarrow> nat" where
  "heads_len hs \<equiv> sum_list (map (\<lambda>h. length (head_encode h)) hs)"

lemma heads_ok_le: "heads_ok hs p q \<Longrightarrow> p \<le> q"
  by (induction hs arbitrary: p) fastforce+

lemma heads_ok_append: "heads_ok hs p q \<Longrightarrow> heads_ok hs' q r \<Longrightarrow> heads_ok (hs @ hs') p r"
proof (induction hs arbitrary: p)
  case Nil
  then show ?case by (cases hs') auto
qed auto

lemma length_render:
  "heads_ok hs p (p + length s) \<Longrightarrow> length (render s hs p) = length s + heads_len hs"
proof (induction s hs p rule: render.induct)
  case (2 s h hs p)
  then have "offset h \<le> p + length s" using heads_ok_le by auto
  with 2 show ?case by (auto simp: add.commute)
qed simp

lemma render_shift:
  assumes "heads_ok hs (p + length s) r"
  shows "render (s @ t) hs p = s @ render t hs (p + length s)"
  using assms by (cases hs) auto

lemma render_append:
  "heads_ok hs p (p + length s) \<Longrightarrow> heads_ok hs' (p + length s) r \<Longrightarrow>
    render (s @ t) (hs @ hs') p = render s hs p @ render t hs' (p + length s)"
proof (induction s hs p rule: render.induct)
  case (1 s p)
  then show ?case by (simp add: render_shift)
next
  case (2 s h hs p)
  then have "offset h \<le> p + length s" using heads_ok_le by auto
  with 2 show ?case by (auto simp: add.commute)
qed

lemma copy_at_fit:
  "length src \<le> length r \<Longrightarrow> copy_at (p @ r) (length p) src = p @ src @ drop (length src) r"
  by (simp add: copy_at_def)

lemma toBytes_loop_render:
  "heads_ok hs k (length s) \<Longrightarrow> length r = length (render (drop k s) hs k) \<Longrightarrow>
    toBytes_loop hs s (p @ r) k (length p) = p @ render (drop k s) hs k"
proof (induction hs arbitrary: k p r)
  case Nil
  then show ?case by (simp add: copy_at_fit)
next
  case (Cons h hs)
  let ?src = "take (offset h - k) (drop k s)" and ?e = "head_encode h"
  have le: "k \<le> offset h" "offset h \<le> length s"
    using Cons.prems(1) heads_ok_le by auto
  then have len: "length ?src = offset h - k" by simp
  have r: "length r = (offset h - k) + length ?e + length (render (drop (offset h) s) hs (offset h))"
    using Cons.prems(2) le by simp
  have c1: "copy_at (p @ r) (length p) ?src = (p @ ?src) @ drop (offset h - k) r"
    using r len by (simp add: copy_at_fit)
  have c2: "copy_at ((p @ ?src) @ drop (offset h - k) r) (length (p @ ?src)) ?e =
      (p @ ?src @ ?e) @ drop (offset h - k + length ?e) r"
    by (subst copy_at_fit) (use r in \<open>simp_all add: add.commute\<close>)
  have n: "min (length (p @ r) - length p) (length ?src) = offset h - k"
    using r len by simp
  have "toBytes_loop (h # hs) s (p @ r) k (length p) =
      toBytes_loop hs s ((p @ ?src @ ?e) @ drop (offset h - k + length ?e) r) (offset h)
        (length (p @ ?src @ ?e))"
    using c1 c2 le n len by (simp add: Let_def add.assoc)
  also have "\<dots> = (p @ ?src @ ?e) @ render (drop (offset h) s) hs (offset h)"
    using Cons.prems(1) r by (intro Cons.IH) simp_all
  finally show ?case using le by (simp del: toBytes_loop.simps)
qed

lemma toBytes_render:
  assumes "heads_ok (lheads w) 0 (length (str w))" and "lhsize w = heads_len (lheads w)"
  shows "toBytes w = render (str w) (lheads w) 0"
proof -
  have "length (render (str w) (lheads w) 0) = encbuf_size w"
    using assms length_render [of "lheads w" 0 "str w"] by (simp add: encbuf_size_def)
  with toBytes_loop_render [OF assms(1), of "replicate (encbuf_size w) 0" "[]"]
  show ?thesis by (simp add: toBytes_def)
qed


text \<open>\<open>emits w w' bs\<close>: the writer that took \<open>w\<close> to \<open>w'\<close> has added the output \<open>bs\<close>.\<close>

definition emits :: "encbuf \<Rightarrow> encbuf \<Rightarrow> bytes \<Rightarrow> bool" where
  "emits w w' bs \<longleftrightarrow> (\<exists>s hs. str w' = str w @ s \<and> lheads w' = lheads w @ hs \<and>
     lhsize w' = lhsize w + heads_len hs \<and>
     heads_ok hs (length (str w)) (length (str w')) \<and> render s hs (length (str w)) = bs)"

lemma emits_refl: "emits w w []"
  by (auto simp: emits_def intro!: exI [of _ "[]"])

lemma emits_append: "emits w (w_append bs w) bs"
  by (auto simp: emits_def w_append_def intro!: exI [of _ bs] exI [of _ "[]"])

lemma emits_trans:
  assumes "emits w w1 a" and "emits w1 w2 b"
  shows "emits w w2 (a @ b)"
proof -
  obtain s hs where 1: "str w1 = str w @ s" "lheads w1 = lheads w @ hs"
      "lhsize w1 = lhsize w + heads_len hs" "heads_ok hs (length (str w)) (length (str w1))"
      "render s hs (length (str w)) = a"
    using assms(1) by (auto simp: emits_def)
  obtain t gs where 2: "str w2 = str w1 @ t" "lheads w2 = lheads w1 @ gs"
      "lhsize w2 = lhsize w1 + heads_len gs" "heads_ok gs (length (str w1)) (length (str w2))"
      "render t gs (length (str w1)) = b"
    using assms(2) by (auto simp: emits_def)
  have "render (s @ t) (hs @ gs) (length (str w)) = a @ b"
    using 1 2 render_append [of hs "length (str w)" s gs "length (str w2)" t] by simp
  moreover have "heads_ok (hs @ gs) (length (str w)) (length (str w2))"
    using 1(4) 2(4) by (rule heads_ok_append)
  ultimately show ?thesis using 1 2 unfolding emits_def
    by (intro exI [of _ "s @ t"] exI [of _ "hs @ gs"]) simp
qed

lemma u64_less_56: "n < 2 ^ 64 \<Longrightarrow> (word_of_nat n :: u64) < 56 \<longleftrightarrow> n < 56"
  by (simp add: word_less_nat_alt unat_of_nat)

lemma emits_list:
  assumes "emits (fst (list_open w)) w2 payload" and "length payload < 2 ^ 64"
  shows "emits w (list_end (length (lheads w)) w2) (enc_seq payload)"
proof -
  let ?p = "length (str w)"
  obtain s hs where 1: "str w2 = str w @ s"
      "lheads w2 = lheads w @ \<lparr>offset = ?p, hsize = lhsize w\<rparr> # hs"
      "lhsize w2 = lhsize w + heads_len hs" "heads_ok hs ?p (?p + length s)"
      "render s hs ?p = payload"
    using assms(1) by (auto simp: emits_def list_open_def)
  define h where "h = \<lparr>offset = ?p, hsize = length payload\<rparr>"
  have len: "length payload = length s + heads_len hs"
    using length_render [OF 1(4)] 1(5) by simp
  then have sz: "encbuf_size w2 - ?p - lhsize w = length payload"
    using 1 by (simp add: encbuf_size_def)
  have hl: "length (head_encode h) =
      (if length payload < 56 then 1 else 1 + intsize (word_of_nat (length payload)))"
    using assms(2) by (simp add: h_def head_encode_def length_puthead headsize_def u64_less_56)
  have "lheads (list_end (length (lheads w)) w2) = lheads w @ h # hs"
    using sz 1(2) by (simp add: list_end_def Let_def h_def)
  moreover have "lhsize (list_end (length (lheads w)) w2) = lhsize w + heads_len (h # hs)"
    using sz 1(2,3) hl by (simp add: list_end_def Let_def)
  moreover have "str (list_end (length (lheads w)) w2) = str w @ s"
    using 1(1) by (simp add: list_end_def Let_def)
  moreover have "render s (h # hs) ?p = enc_seq payload"
    using 1(5) by (simp add: h_def head_encode_def enc_seq_def)
  moreover have "heads_ok (h # hs) ?p (?p + length s)"
    using 1(4) by (simp add: h_def)
  ultimately show ?thesis unfolding emits_def
    by (intro exI [of _ s] exI [of _ "h # hs"]) simp
qed

lemma to_byte_of_nat: "n < 2 ^ 64 \<Longrightarrow> to_byte (word_of_nat n) = word_of_nat n"
  by (rule word_eqI_unat) (simp add: unat_to_byte unat_byte_of_nat unat_of_nat)

lemma emits_header:
  "n < 2 ^ 64 \<Longrightarrow> emits w (encodeStringHeader n w) (puthead 0x80 0xB7 (word_of_nat n))"
  using emits_append
  by (simp add: encodeStringHeader_def puthead_def u64_less_56 Let_def to_byte_of_nat)

lemma emits_string: "length b < 2 ^ 64 \<Longrightarrow> emits w (encodeString b w) (enc_string b)"
  by (auto simp: encodeString_def enc_string_def intro: emits_append emits_trans [OF emits_header])

lemma emits_uint: "emits w (encodeUint i w) (enc_uint (unat i))"
proof -
  have "i < 128 \<longleftrightarrow> unat i < 128" by (simp add: word_less_nat_alt)
  moreover have "(bitlen (unat i) + 7) div 8 = nbytes (unat i)" if "\<not> unat i < 128"
    using that biglen_nbytes [of "unat i"] unat_u64_less [of i] by (simp add: biglen_def)
  moreover have "(0x80 + word_of_nat (nbytes (unat i))) # putint i =
      puthead 0x80 0xB7 (word_of_nat (nbytes (unat i))) @ be_nat (nbytes (unat i)) (unat i)"
    using nbytes_bounds(2) [of "unat i"]
    by (simp add: puthead_def putint_be u64_less_56 to_byte_of_nat)
  ultimately show ?thesis
    using emits_append
    by (simp add: encodeUint_def enc_uint_def Let_def length_putint unat_eq_0 to_byte_unat
        del: of_nat_unat)
qed

lemma emits_big:
  assumes "0 \<le> i" and "length (enc_uint (nat i)) < 2 ^ 64"
  shows "\<exists>w'. writeBigInt i w = Inr w' \<and> emits w w' (enc_uint (nat i))"
proof (cases "bitlen (nat i) \<le> 64")
  case True
  then have "unat (word_of_int i :: u64) = nat i"
    using assms(1) by (simp add: bitlen_64 unsigned_of_int take_bit_int_eq_self)
  with True assms(1) emits_uint [of w "word_of_int i"] show ?thesis
    by (simp add: writeBigInt_def)
next
  case False
  let ?k = "(bitlen (nat i) + 7) div 8"
  have e: "enc_uint (nat i) = puthead 0x80 0xB7 (word_of_nat ?k) @ be_nat ?k (nat i)"
    using False by (auto simp: bitlen_64 enc_uint_def Let_def)
  then have "?k < 2 ^ 64" using assms(2) by simp
  from emits_trans [OF emits_header [OF this] emits_append] False assms(1) show ?thesis
    by (simp add: writeBigInt_def e Let_def)
qed

lemma writeByteArray_eq: "writeByteArray b w = encodeString b w"
  by (auto simp: writeByteArray_def encodeString_def encodeStringHeader_def w_append_def
      split: list.split)

lemma length_enc_seq: "length payload < length (enc_seq payload)"
  by (simp add: enc_seq_def length_puthead headsize_def)

lemma length_string: "length b \<le> length (enc_string b)"
  by (simp add: enc_string_def)

lemma emits_writer:
  assumes "\<exists>w2. write_list vs (fst (list_open w)) = Inr w2 \<and>
      emits (fst (list_open w)) w2 (concat (map enc vs))"
    and "length (enc_seq (concat (map enc vs))) < 2 ^ 64"
  shows "\<exists>w'. (case write_list vs (fst (list_open w)) of Inl e \<Rightarrow> Inl e
        | Inr w2 \<Rightarrow> Inr (list_end (length (lheads w)) w2)) = Inr w' \<and>
      emits w w' (enc_seq (concat (map enc vs)))"
proof -
  obtain w2 where "write_list vs (fst (list_open w)) = Inr w2"
      "emits (fst (list_open w)) w2 (concat (map enc vs))" using assms(1) by blast
  moreover have "length (concat (map enc vs)) < 2 ^ 64"
    using assms(2) length_enc_seq by (rule less_trans [rotated])
  ultimately show ?thesis using emits_list by simp
qed

lemma list_open_snd: "list_open w = (fst (list_open w), length (lheads w))"
  by (simp add: list_open_def)

lemma write_emits:
  "encodable v \<Longrightarrow> length (enc v) < 2 ^ 64 \<Longrightarrow> \<exists>w'. write_val v w = Inr w' \<and> emits w w' (enc v)"
  "\<forall>v\<in>set vs. encodable v \<Longrightarrow> length (concat (map enc vs)) < 2 ^ 64 \<Longrightarrow>
     \<exists>w'. write_list vs w = Inr w' \<and> emits w w' (concat (map enc vs))"
proof (induction v w and vs w rule: write_val_write_list.induct)
  case (4 b w)
  then show ?case using emits_string le_less_trans [OF length_string] by auto
next
  case (5 b w)
  then show ?case unfolding write_val.simps writeByteArray_eq
    using emits_string le_less_trans [OF length_string] by auto
next
  case (6 vs w)
  have "length (concat (map enc vs)) < 2 ^ 64"
    using "6.prems" less_trans [OF length_enc_seq] by simp
  from emits_writer [OF "6.IH" [OF list_open_snd [symmetric] _ this]] "6.prems" show ?case
    by (subst write_val.simps, subst list_open_snd) simp
next
  case (7 vs w)
  have "length (concat (map enc vs)) < 2 ^ 64"
    using "7.prems" less_trans [OF length_enc_seq] by simp
  from emits_writer [OF "7.IH" [OF list_open_snd [symmetric] _ this]] "7.prems" show ?case
    by (subst write_val.simps, subst list_open_snd) simp
next
  case (9 v vs w)
  then obtain w1 where w1: "write_val v w = Inr w1" "emits w w1 (enc v)" by auto
  with 9 obtain w2 where "write_list vs w1 = Inr w2" "emits w1 w2 (concat (map enc vs))" by auto
  with w1 show ?case using emits_trans by auto
qed (auto simp: emits_uint emits_big emits_refl writeBool_def emits_append)

text \<open>The only error of the writers is a negative \<open>big.Int\<close>, and it is always reported.\<close>

lemma write_error:
  "case write_val v w of Inl e \<Rightarrow> e = ErrNegativeBigInt \<and> \<not> encodable v | Inr w' \<Rightarrow> encodable v"
  "case write_list vs w of Inl e \<Rightarrow> e = ErrNegativeBigInt \<and> \<not> (\<forall>v\<in>set vs. encodable v)
    | Inr w' \<Rightarrow> \<forall>v\<in>set vs. encodable v"
  by (induction v w and vs w rule: write_val_write_list.induct)
    (auto simp: writeBigInt_def Let_def split: sum.splits prod.splits)

lemma EncodeToBytes_eq:
  assumes "encodable v" and "length (enc v) < 2 ^ 64"
  shows "EncodeToBytes v = Inr (enc v)"
proof -
  obtain w where w: "write_val v encbuf_reset = Inr w" "emits encbuf_reset w (enc v)"
    using write_emits(1) [OF assms] by blast
  then have "toBytes w = enc v"
    by (subst toBytes_render) (auto simp: emits_def encbuf_reset_def)
  with w(1) show ?thesis by (simp add: EncodeToBytes_def)
qed

end
