(* ===== verification/Rlp_Decode.thy ===== *)
theory Rlp_Decode
  imports Rlp_Encode
begin

text \<open>
  The RLP decoder of \<open>rlp/decode.go\<close>: the \<open>Stream\<close> with its stack of list limits, the header
  reader (\<open>Kind\<close>, \<open>readKind\<close>, \<open>readUint\<close>), the typed readers and the decoders the type cache
  builds for integers, booleans, \<open>big.Int\<close>, byte slices and arrays, lists and structs.

  State. \<open>stream\<close> is the Go struct: the reader is the list of unread bytes (\<open>bytes.Reader\<close>), the
  stack has the innermost list first, \<open>skind = None\<close> is Go's \<open>kind = -1\<close>. Sizes and limits are
  64-bit words, so the subtraction in \<open>List\<close> wraps as in Go. The scratch array \<open>uintbuf\<close> is
  replaced by the bytes read into it. Every operation returns the new stream, also on error.
  Error wrapping (\<open>decodeError\<close>, \<open>addErrorContext\<close>) only adds a message and is left out.

  Types. \<open>rtyp\<close> says which decoder applies; \<open>TArr\<close> is a byte array, \<open>TArray\<close> an array of other
  elements. Pointers without the \<open>nil\<close> tag decode like their element. Interface values, \<open>nil\<close>
  tags, tail and optional fields and custom \<open>DecodeRLP\<close> methods are not modelled.
\<close>

section \<open>The stream\<close>

datatype kind = Byte | String | List

record stream =
  inp :: bytes
  remaining :: u64
  ssize :: u64
  kinderr :: "rlp_err option"
  stk :: "u64 list"
  skind :: "kind option"
  byteval :: byte
  limited :: bool

text \<open>\<open>Reset\<close> on a \<open>bytes.Reader\<close>: the limit is the length of the data, also when it is zero.\<close>

definition stream_Reset :: "bytes \<Rightarrow> u64 \<Rightarrow> stream" where
  "stream_Reset b inputLimit =
    \<lparr>inp = b, remaining = (if inputLimit > 0 then inputLimit else word_of_nat (length b)),
     ssize = 0, kinderr = None, stk = [], skind = None, byteval = 0, limited = True\<rparr>"

definition listLimit :: "stream \<Rightarrow> u64 option" where
  "listLimit s = (case stk s of [] \<Rightarrow> None | l # ls \<Rightarrow> Some l)"

definition set_limit :: "u64 \<Rightarrow> stream \<Rightarrow> stream" where
  "set_limit l s = s\<lparr>stk := l # tl (stk s)\<rparr>"

definition willRead_remaining :: "u64 \<Rightarrow> stream \<Rightarrow> stream \<times> rlp_err option" where
  "willRead_remaining n s =
    (if limited s
     then if n > remaining s then (s, Some ErrValueTooLarge)
          else (s\<lparr>remaining := remaining s - n\<rparr>, None)
     else (s, None))"

definition willRead :: "u64 \<Rightarrow> stream \<Rightarrow> stream \<times> rlp_err option" where
  "willRead n s0 =
    (let s = s0\<lparr>skind := None\<rparr> in
     case listLimit s of
       Some l \<Rightarrow> if n > l then (s, Some ErrElemTooLarge)
                 else willRead_remaining n (set_limit (l - n) s)
     | None \<Rightarrow> willRead_remaining n s)"

text \<open>\<open>readFull\<close> with a buffer of \<open>n\<close> bytes: the loop drains the reader until the buffer is full.\<close>

definition readFull :: "nat \<Rightarrow> stream \<Rightarrow> stream \<times> (rlp_err + bytes)" where
  "readFull n s0 =
    (case willRead (word_of_nat n) s0 of
       (s, Some e) \<Rightarrow> (s, Inl e)
     | (s, None) \<Rightarrow>
         if n \<le> length (inp s) then (s\<lparr>inp := drop n (inp s)\<rparr>, Inr (take n (inp s)))
         else (s\<lparr>inp := []\<rparr>, Inl ErrUnexpectedEOF))"

definition readByte :: "stream \<Rightarrow> stream \<times> (rlp_err + byte)" where
  "readByte s0 =
    (case willRead 1 s0 of
       (s, Some e) \<Rightarrow> (s, Inl e)
     | (s, None) \<Rightarrow>
         (case inp s of [] \<Rightarrow> (s, Inl ErrUnexpectedEOF) | b # bs \<Rightarrow> (s\<lparr>inp := bs\<rparr>, Inr b)))"

definition readUint :: "nat \<Rightarrow> stream \<Rightarrow> stream \<times> (rlp_err + u64)" where
  "readUint n s0 =
    (if n = 0 then (s0\<lparr>skind := None\<rparr>, Inr 0)
     else if n = 1 then
       (case readByte s0 of (s, Inl e) \<Rightarrow> (s, Inl e) | (s, Inr b) \<Rightarrow> (s, Inr (ucast b)))
     else
       (case readFull n s0 of
          (s, Inl e) \<Rightarrow> (s, Inl e)
        | (s, Inr b) \<Rightarrow>
            if hd b = 0 then (s, Inl ErrCanonSize) else (s, Inr (word_of_nat (nat_be b)))))"

definition long_size :: "kind \<Rightarrow> stream \<times> (rlp_err + u64) \<Rightarrow> stream \<times> kind \<times> u64 \<times> rlp_err option" where
  "long_size k r =
    (case r of
       (s, Inl e) \<Rightarrow> (s, k, 0, Some e)
     | (s, Inr n) \<Rightarrow> (s, k, n, if n < 56 then Some ErrCanonSize else None))"

definition readKind :: "stream \<Rightarrow> stream \<times> kind \<times> u64 \<times> rlp_err option" where
  "readKind s0 =
    (case readByte s0 of
       (s, Inl e) \<Rightarrow>
         (s, Byte, 0, Some (if stk s = [] \<and> (e = ErrUnexpectedEOF \<or> e = ErrValueTooLarge)
                            then ErrEOF else e))
     | (s', Inr b) \<Rightarrow>
         let s = s'\<lparr>byteval := 0\<rparr> in
         if b < 0x80 then (s\<lparr>byteval := b\<rparr>, Byte, 0, None)
         else if b < 0xB8 then (s, String, ucast (b - 0x80), None)
         else if b < 0xC0 then long_size String (readUint (unat (b - 0xB7)) s)
         else if b < 0xF8 then (s, List, ucast (b - 0xC0), None)
         else long_size List (readUint (unat (b - 0xF7)) s))"

text \<open>
  \<open>Kind\<close>. The limit compared with the size of the value is the one read before the header was
  consumed, as in the code.
\<close>

definition Kind_op :: "stream \<Rightarrow> stream \<times> (rlp_err + kind \<times> u64)" where
  "Kind_op s =
    (case skind s of
       Some k \<Rightarrow> (s, case kinderr s of Some e \<Rightarrow> Inl e | None \<Rightarrow> Inr (k, ssize s))
     | None \<Rightarrow>
         if listLimit s = Some 0 then (s, Inl EOL)
         else
           (case readKind s of (s1, k, n, err) \<Rightarrow>
              let err' = (case err of Some e \<Rightarrow> Some e
                          | None \<Rightarrow>
                              if (case listLimit s of Some l \<Rightarrow> n > l | None \<Rightarrow> False)
                              then Some ErrElemTooLarge
                              else if limited s1 \<and> n > remaining s1 then Some ErrValueTooLarge
                              else None)
              in (s1\<lparr>skind := Some k, ssize := n, kinderr := err'\<rparr>,
                  case err' of Some e \<Rightarrow> Inl e | None \<Rightarrow> Inr (k, n))))"

definition rearm :: "stream \<Rightarrow> stream" where
  "rearm s = s\<lparr>skind := None\<rparr>"

definition Bytes_op :: "stream \<Rightarrow> stream \<times> (rlp_err + bytes)" where
  "Bytes_op s0 =
    (case Kind_op s0 of
       (s, Inl e) \<Rightarrow> (s, Inl e)
     | (s, Inr (Byte, n)) \<Rightarrow> (rearm s, Inr [byteval s])
     | (s, Inr (String, n)) \<Rightarrow>
         (case readFull (unat n) s of
            (s1, Inl e) \<Rightarrow> (s1, Inl e)
          | (s1, Inr b) \<Rightarrow> if n = 1 \<and> hd b < 128 then (s1, Inl ErrCanonSize) else (s1, Inr b))
     | (s, Inr (List, n)) \<Rightarrow> (s, Inl ErrExpectedString))"

definition Raw_op :: "stream \<Rightarrow> stream \<times> (rlp_err + bytes)" where
  "Raw_op s0 =
    (case Kind_op s0 of
       (s, Inl e) \<Rightarrow> (s, Inl e)
     | (s, Inr (k, n)) \<Rightarrow>
         if k = Byte then (rearm s, Inr [byteval s])
         else
           (case readFull (unat n) s of
              (s1, Inl e) \<Rightarrow> (s1, Inl e)
            | (s1, Inr b) \<Rightarrow>
                (s1, Inr ((if k = String then puthead 0x80 0xB7 n else puthead 0xC0 0xF7 n) @ b))))"

definition uint_op :: "nat \<Rightarrow> stream \<Rightarrow> stream \<times> (rlp_err + u64)" where
  "uint_op maxbits s0 =
    (case Kind_op s0 of
       (s, Inl e) \<Rightarrow> (s, Inl e)
     | (s, Inr (Byte, n)) \<Rightarrow>
         if byteval s = 0 then (s, Inl ErrCanonInt) else (rearm s, Inr (ucast (byteval s)))
     | (s, Inr (String, n)) \<Rightarrow>
         if n > word_of_nat (maxbits div 8) then (s, Inl ErrUintOverflow)
         else
           (case readUint (unat n) s of
              (s1, Inl e) \<Rightarrow> (s1, Inl (if e = ErrCanonSize then ErrCanonInt else e))
            | (s1, Inr v) \<Rightarrow>
                if n > 0 \<and> v < 128 then (s1, Inl ErrCanonSize) else (s1, Inr v))
     | (s, Inr (List, n)) \<Rightarrow> (s, Inl ErrExpectedString))"

definition Bool_op :: "stream \<Rightarrow> stream \<times> (rlp_err + bool)" where
  "Bool_op s0 =
    (case uint_op 8 s0 of
       (s, Inl e) \<Rightarrow> (s, Inl e)
     | (s, Inr num) \<Rightarrow>
         (s, if num = 0 then Inr False else if num = 1 then Inr True else Inl ErrInvalidBool))"

text \<open>\<open>List\<close>: the size of the inner list is taken off the outer one, with wrap-around.\<close>

definition List_op :: "stream \<Rightarrow> stream \<times> (rlp_err + u64)" where
  "List_op s0 =
    (case Kind_op s0 of
       (s, Inl e) \<Rightarrow> (s, Inl e)
     | (s, Inr (k, n)) \<Rightarrow>
         if k \<noteq> List then (s, Inl ErrExpectedList)
         else
           let s1 = (case listLimit s of Some l \<Rightarrow> set_limit (l - n) s | None \<Rightarrow> s)
           in (s1\<lparr>stk := n # stk s1, skind := None, ssize := 0\<rparr>, Inr n))"

definition ListEnd_op :: "stream \<Rightarrow> stream \<times> rlp_err option" where
  "ListEnd_op s =
    (case listLimit s of
       None \<Rightarrow> (s, Some ErrNotInList)
     | Some l \<Rightarrow>
         if l > 0 then (s, Some ErrNotAtEOL)
         else (s\<lparr>stk := tl (stk s), skind := None, ssize := 0\<rparr>, None))"

section \<open>Decoders\<close>

type_synonym decoder = "stream \<Rightarrow> stream \<times> (rlp_err + rval)"

definition decodeUint :: "nat \<Rightarrow> decoder" where
  "decodeUint bits s = (case uint_op bits s of (s1, r) \<Rightarrow> (s1, map_sum id VUint r))"

definition decodeBool :: decoder where
  "decodeBool s = (case Bool_op s of (s1, r) \<Rightarrow> (s1, map_sum id VBool r))"

definition decodeByteSlice :: decoder where
  "decodeByteSlice s = (case Bytes_op s of (s1, r) \<Rightarrow> (s1, map_sum id VBytes r))"

text \<open>
  \<open>decodeBigInt\<close>: the buffered and the allocating branch read the same bytes; only the buffered
  one (sizes up to 32, the length of \<open>uintbuf\<close>) checks for a single small byte.
\<close>

definition big_result :: "stream \<Rightarrow> bytes \<Rightarrow> stream \<times> (rlp_err + rval)" where
  "big_result s buffer =
    (if buffer \<noteq> [] \<and> hd buffer = 0 then (s, Inl ErrCanonInt)
     else (s, Inr (VBig (int (nat_be buffer)))))"

definition decodeBigInt :: decoder where
  "decodeBigInt s0 =
    (case Kind_op s0 of
       (s, Inl e) \<Rightarrow> (s, Inl e)
     | (s, Inr (k, n)) \<Rightarrow>
         if k = List then (s, Inl ErrExpectedString)
         else if k = Byte then big_result (rearm s) [byteval s]
         else if n = 0 then big_result (rearm s) []
         else if n \<le> 32 then
           (case readFull (unat n) s of
              (s1, Inl e) \<Rightarrow> (s1, Inl e)
            | (s1, Inr b) \<Rightarrow>
                if n = 1 \<and> hd b < 128 then (s1, Inl ErrCanonSize) else big_result s1 b)
         else
           (case readFull (unat n) s of
              (s1, Inl e) \<Rightarrow> (s1, Inl e)
            | (s1, Inr b) \<Rightarrow> big_result s1 b))"

definition decodeByteArray :: "nat \<Rightarrow> decoder" where
  "decodeByteArray len s0 =
    (case Kind_op s0 of
       (s, Inl e) \<Rightarrow> (s, Inl e)
     | (s, Inr (Byte, n)) \<Rightarrow>
         if len = 0 then (s, Inl ErrStringTooLong)
         else if len > 1 then (s, Inl ErrStringTooShort)
         else (rearm s, Inr (VArray [byteval s]))
     | (s, Inr (String, n)) \<Rightarrow>
         if word_of_nat len < n then (s, Inl ErrStringTooLong)
         else if word_of_nat len > n then (s, Inl ErrStringTooShort)
         else
           (case readFull len s of
              (s1, Inl e) \<Rightarrow> (s1, Inl e)
            | (s1, Inr b) \<Rightarrow>
                if n = 1 \<and> hd b < 128 then (s1, Inl ErrCanonSize) else (s1, Inr (VArray b)))
     | (s, Inr (List, n)) \<Rightarrow> (s, Inl ErrExpectedString))"

definition list_end_with :: "rval \<Rightarrow> decoder" where
  "list_end_with v s =
    (case ListEnd_op s of (s1, Some e) \<Rightarrow> (s1, Inl e) | (s1, None) \<Rightarrow> (s1, Inr v))"

text \<open>\<open>decodeSliceElems\<close>: elements until \<open>EOL\<close>; one unit of fuel per element.\<close>

primrec decodeSliceElems :: "nat \<Rightarrow> decoder \<Rightarrow> stream \<Rightarrow> rval list \<Rightarrow> stream \<times> (rlp_err + rval list)" where
  "decodeSliceElems 0 elemdec s acc = (s, Inl OutOfFuel)"
| "decodeSliceElems (Suc fuel) elemdec s acc =
    (case elemdec s of
       (s1, Inl e) \<Rightarrow> if e = EOL then (s1, Inr (rev acc)) else (s1, Inl e)
     | (s1, Inr v) \<Rightarrow> decodeSliceElems fuel elemdec s1 (v # acc))"

definition decodeListSlice :: "decoder \<Rightarrow> decoder" where
  "decodeListSlice elemdec s0 =
    (case List_op s0 of
       (s, Inl e) \<Rightarrow> (s, Inl e)
     | (s, Inr n) \<Rightarrow>
         if n = 0 then list_end_with (VSlice []) s
         else
           (case decodeSliceElems (Suc (length (inp s))) elemdec s [] of
              (s1, Inl e) \<Rightarrow> (s1, Inl e)
            | (s1, Inr vs) \<Rightarrow> list_end_with (VSlice vs) s1))"

primrec decodeArrayElems :: "nat \<Rightarrow> decoder \<Rightarrow> stream \<Rightarrow> rval list \<Rightarrow> stream \<times> (rlp_err + rval list)" where
  "decodeArrayElems 0 elemdec s acc = (s, Inr (rev acc))"
| "decodeArrayElems (Suc k) elemdec s acc =
    (case elemdec s of
       (s1, Inl e) \<Rightarrow> if e = EOL then (s1, Inl ErrTooFewElements) else (s1, Inl e)
     | (s1, Inr v) \<Rightarrow> decodeArrayElems k elemdec s1 (v # acc))"

definition decodeListArray :: "nat \<Rightarrow> decoder \<Rightarrow> decoder" where
  "decodeListArray vlen elemdec s0 =
    (case List_op s0 of
       (s, Inl e) \<Rightarrow> (s, Inl e)
     | (s, Inr n) \<Rightarrow>
         (case decodeArrayElems vlen elemdec s [] of
            (s1, Inl e) \<Rightarrow> (s1, Inl e)
          | (s1, Inr vs) \<Rightarrow> list_end_with (VSlice vs) s1))"

primrec decodeFields :: "decoder list \<Rightarrow> stream \<Rightarrow> rval list \<Rightarrow> stream \<times> (rlp_err + rval list)" where
  "decodeFields [] s acc = (s, Inr (rev acc))"
| "decodeFields (f # fs) s acc =
    (case f s of
       (s1, Inl e) \<Rightarrow> if e = EOL then (s1, Inl ErrTooFewElements) else (s1, Inl e)
     | (s1, Inr v) \<Rightarrow> decodeFields fs s1 (v # acc))"

definition decodeStruct :: "decoder list \<Rightarrow> decoder" where
  "decodeStruct fs s0 =
    (case List_op s0 of
       (s, Inl e) \<Rightarrow> (s, Inl e)
     | (s, Inr n) \<Rightarrow>
         (case decodeFields fs s [] of
            (s1, Inl e) \<Rightarrow> (s1, Inl e)
          | (s1, Inr vs) \<Rightarrow> list_end_with (VStruct vs) s1))"

datatype rtyp = TUint nat | TBool | TBig | TBytes | TArr nat | TSlice rtyp | TArray nat rtyp
  | TStruct "rtyp list"

primrec decode :: "rtyp \<Rightarrow> decoder" where
  "decode (TUint bits) = decodeUint bits"
| "decode TBool = decodeBool"
| "decode TBig = decodeBigInt"
| "decode TBytes = decodeByteSlice"
| "decode (TArr n) = decodeByteArray n"
| "decode (TSlice t) = decodeListSlice (decode t)"
| "decode (TArray n t) = decodeListArray n (decode t)"
| "decode (TStruct ts) = decodeStruct (map decode ts)"

definition DecodeBytes :: "rtyp \<Rightarrow> bytes \<Rightarrow> rlp_err + rval" where
  "DecodeBytes t b =
    (case decode t (stream_Reset b (word_of_nat (length b))) of
       (s, Inl e) \<Rightarrow> Inl e
     | (s, Inr v) \<Rightarrow> if inp s \<noteq> [] then Inl ErrMoreThanOneValue else Inr v)"

text \<open>The values a type describes, and the types the type cache accepts.\<close>

fun has_type :: "rtyp \<Rightarrow> rval \<Rightarrow> bool" where
  "has_type (TUint bits) (VUint i) \<longleftrightarrow> unat i < 2 ^ bits"
| "has_type TBool (VBool b) \<longleftrightarrow> True"
| "has_type TBig (VBig i) \<longleftrightarrow> 0 \<le> i"
| "has_type TBytes (VBytes b) \<longleftrightarrow> True"
| "has_type (TArr n) (VArray b) \<longleftrightarrow> length b = n"
| "has_type (TSlice t) (VSlice vs) \<longleftrightarrow> (\<forall>v\<in>set vs. has_type t v)"
| "has_type (TArray n t) (VSlice vs) \<longleftrightarrow> length vs = n \<and> (\<forall>v\<in>set vs. has_type t v)"
| "has_type (TStruct ts) (VStruct vs) \<longleftrightarrow> list_all2 has_type ts vs"
| "has_type _ _ \<longleftrightarrow> False"

fun go_type :: "rtyp \<Rightarrow> bool" where
  "go_type (TUint bits) \<longleftrightarrow> bits \<in> {8, 16, 32, 64}"
| "go_type (TArr n) \<longleftrightarrow> n < 2 ^ 63"
| "go_type (TSlice t) \<longleftrightarrow> go_type t"
| "go_type (TArray n t) \<longleftrightarrow> go_type t"
| "go_type (TStruct ts) \<longleftrightarrow> (\<forall>t\<in>set ts. go_type t)"
| "go_type _ \<longleftrightarrow> True"

end
