(* ===== verification/Rlp_Codec.thy ===== *)
theory Rlp_Codec
  imports Rlp_Decode
begin

text \<open>
  Correctness of the RLP decoder. \<open>codec\<close> is the contract of a decoder: it accepts exactly the
  encodings of its values, consumes exactly their bytes, reports \<open>EOL\<close> exactly at the end of the
  enclosing list and never uses up the fuel of the slice loop. Every decoder of \<open>Rlp_Decode\<close>
  meets it (\<open>decode_codec\<close>, by induction on the type). For whole inputs this gives: decoding
  inverts encoding, every accepted input is the encoding of the value it yields, and the loop
  terminates. The subtraction in \<open>List\<close> may wrap when an inner list is longer than what is left of
  the outer one; the limits are compared modulo \<open>2 ^ 64\<close> in the proofs, so the results cover
  such inputs (they are rejected at the end of the outer list).
\<close>

section \<open>Reading from the stream\<close>

definition base :: "stream \<Rightarrow> bool" where
  "base s \<longleftrightarrow> limited s \<and> length (inp s) < 2 ^ 63 \<and> remaining s = word_of_nat (length (inp s))"

definition ready :: "stream \<Rightarrow> bool" where
  "ready s \<longleftrightarrow> base s \<and> skind s = None"

definition sub_top :: "nat \<Rightarrow> u64 list \<Rightarrow> u64 list" where
  "sub_top n ls = (case ls of [] \<Rightarrow> [] | l # ls' \<Rightarrow> (l - word_of_nat n) # ls')"

definition fits :: "stream \<Rightarrow> nat \<Rightarrow> bool" where
  "fits s n \<longleftrightarrow> (case stk s of [] \<Rightarrow> True | l # ls \<Rightarrow> n \<le> unat l)"

text \<open>\<open>adv s s' bs\<close>: between \<open>s\<close> and \<open>s'\<close> exactly the bytes \<open>bs\<close> have been consumed.\<close>

definition adv :: "stream \<Rightarrow> stream \<Rightarrow> bytes \<Rightarrow> bool" where
  "adv s s' bs \<longleftrightarrow> base s' \<and> inp s = bs @ inp s' \<and> stk s' = sub_top (length bs) (stk s)"

lemma sub_top_0 [simp]: "sub_top 0 ls = ls"
  by (simp add: sub_top_def split: list.split)

lemma sub_top_sub_top [simp]: "sub_top n (sub_top m ls) = sub_top (m + n) ls"
  by (simp add: sub_top_def algebra_simps split: list.split)

lemma adv_refl: "base s \<Longrightarrow> adv s s []"
  by (simp add: adv_def)

lemma adv_trans: "adv s s1 a \<Longrightarrow> adv s1 s2 b \<Longrightarrow> adv s s2 (a @ b)"
  by (simp add: adv_def)

lemma unat_of_nat_small: "n < 2 ^ 64 \<Longrightarrow> unat (word_of_nat n :: u64) = n"
  by (simp add: unat_of_nat)

lemma fits_sub:
  assumes "fits s (m + n)" and "stk s' = sub_top m (stk s)"
  shows "fits s' n"
proof (cases "stk s")
  case (Cons l ls)
  with assms(1) have "m + n \<le> unat l" by (simp add: fits_def)
  moreover from this have "unat (l - word_of_nat m) = unat l - m"
    using unat_u64_less [of l] by (subst unat_sub) (simp_all add: word_le_nat_alt unat_of_nat_small)
  ultimately show ?thesis using assms(2) Cons by (simp add: fits_def sub_top_def)
qed (use assms in \<open>simp add: fits_def sub_top_def\<close>)

lemma fits_adv: "adv s s' bs \<Longrightarrow> fits s (length bs + n) \<Longrightarrow> fits s' n"
  by (rule fits_sub) (auto simp: adv_def)

lemma fits_mono: "fits s n \<Longrightarrow> m \<le> n \<Longrightarrow> fits s m"
  by (auto simp: fits_def split: list.splits)

lemma base_remaining: "base s \<Longrightarrow> unat (remaining s) = length (inp s)"
  by (simp add: base_def unat_of_nat_small)

lemma willRead_eq:
  assumes "base s"
  shows "willRead n s =
    (if \<not> fits s (unat n) then (s\<lparr>skind := None\<rparr>, Some ErrElemTooLarge)
     else if length (inp s) < unat n
       then (s\<lparr>skind := None, stk := sub_top (unat n) (stk s)\<rparr>, Some ErrValueTooLarge)
     else (s\<lparr>skind := None, stk := sub_top (unat n) (stk s), remaining := remaining s - n\<rparr>, None))"
proof -
  have "n > remaining s \<longleftrightarrow> length (inp s) < unat n"
    using base_remaining [OF assms] by (simp add: word_less_nat_alt)
  then show ?thesis using assms
    by (cases "stk s")
      (auto simp: willRead_def willRead_remaining_def listLimit_def set_limit_def fits_def
        sub_top_def base_def word_less_nat_alt Let_def not_le)
qed

lemma base_step:
  assumes "base s" and "n \<le> length (inp s)"
  shows "base (s\<lparr>skind := k, stk := st, remaining := remaining s - word_of_nat n,
    inp := drop n (inp s)\<rparr>)"
  using assms by (auto simp: base_def of_nat_diff)

lemma adv_step:
  assumes "base s" and "n \<le> length (inp s)"
  shows "adv s (s\<lparr>skind := k, stk := sub_top n (stk s), remaining := remaining s - word_of_nat n,
    inp := drop n (inp s)\<rparr>) (take n (inp s))"
  using base_step [OF assms] assms by (simp add: adv_def)

lemma readFull_inv:
  assumes "base s" and "n < 2 ^ 64" and "readFull n s = (s', Inr b)"
  shows "adv s s' b \<and> length b = n \<and> skind s' = None \<and> byteval s' = byteval s \<and> fits s n"
  using assms adv_step [OF assms(1), of n None]
  by (auto simp: readFull_def willRead_eq unat_of_nat_small base_def split: if_splits)

lemma readFull_ok:
  assumes "base s" and "inp s = b @ r" and "fits s (length b)"
  shows "\<exists>s'. readFull (length b) s = (s', Inr b) \<and> adv s s' b \<and> skind s' = None \<and>
    byteval s' = byteval s"
proof -
  have n: "length b \<le> length (inp s)" "length b < 2 ^ 64"
    using assms(1,2) by (auto simp: base_def)
  with assms adv_step [OF assms(1) n(1), of None] show ?thesis
    by (simp add: readFull_def willRead_eq unat_of_nat_small)
qed

lemma readFull_err: "base s \<Longrightarrow> readFull n s = (s', Inl e) \<Longrightarrow> e \<notin> {EOL, OutOfFuel, ErrCanonSize}"
  by (auto simp: readFull_def willRead_eq split: if_splits)

lemma readByte_eq:
  assumes "base s"
  shows "readByte s = (case readFull 1 s of (s', Inl e) \<Rightarrow> (s', Inl e) | (s', Inr b) \<Rightarrow> (s', Inr (hd b)))"
  using assms by (cases "inp s") (auto simp: readByte_def readFull_def willRead_eq base_def)

lemma readByte_inv:
  assumes "base s" and "readByte s = (s', Inr b)"
  shows "adv s s' [b] \<and> skind s' = None \<and> fits s 1"
proof -
  obtain bs where "readFull 1 s = (s', Inr bs)" "b = hd bs"
    using assms by (auto simp: readByte_eq split: prod.splits sum.splits)
  moreover from this have "length bs = 1"
    using readFull_inv [OF assms(1), of 1] by auto
  then have "bs = [hd bs]" by (cases bs) auto
  ultimately show ?thesis using readFull_inv [OF assms(1), of 1 s' bs] by simp
qed

lemma readByte_ok:
  assumes "base s" and "inp s = b # r" and "fits s 1"
  shows "\<exists>s'. readByte s = (s', Inr b) \<and> adv s s' [b] \<and> skind s' = None"
  using readFull_ok [of s "[b]" r] assms by (auto simp: readByte_eq)

lemma readByte_err: "base s \<Longrightarrow> readByte s = (s', Inl e) \<Longrightarrow> e \<notin> {EOL, OutOfFuel, ErrCanonSize}"
  using readFull_err [of s 1] by (auto simp: readByte_eq split: prod.splits sum.splits)

text \<open>\<open>readUint\<close> reads a big-endian number; from two bytes on it rejects a leading zero.\<close>

lemma nat_be_u64: "length b \<le> 8 \<Longrightarrow> nat_be b < 2 ^ 64"
proof -
  assume "length b \<le> 8"
  then have "(256 :: nat) ^ length b \<le> 256 ^ 8" by (intro power_increasing) auto
  with nat_be_less [of b] show ?thesis by simp
qed

lemma unat_ucast_byte: "unat (ucast (b :: byte) :: u64) = unat b"
  using unat_byte_less [of b] by (simp add: unsigned_ucast_eq take_bit_nat_eq_self)

lemma readUint_inv:
  assumes "base s" and "n \<le> 8" and "readUint n s = (s', Inr v)"
  shows "\<exists>b. length b = n \<and> adv s s' b \<and> skind s' = None \<and> unat v = nat_be b \<and>
    (2 \<le> n \<longrightarrow> hd b \<noteq> 0)"
proof -
  consider "n = 0" | "n = 1" | "2 \<le> n" by linarith
  then show ?thesis
  proof cases
    case 1
    with assms show ?thesis by (auto simp: readUint_def adv_def base_def)
  next
    case 2
    then obtain b where b: "readByte s = (s', Inr b)" "v = ucast b"
      using assms by (auto simp: readUint_def split: prod.splits sum.splits)
    then show ?thesis using 2 readByte_inv [OF assms(1) b(1)]
      by (intro exI [of _ "[b]"]) (auto simp: unat_ucast_byte)
  next
    case 3
    then obtain b where b: "readFull n s = (s', Inr b)" "hd b \<noteq> 0" "v = word_of_nat (nat_be b)"
      using assms by (auto simp: readUint_def split: prod.splits sum.splits if_splits)
    then show ?thesis using assms(2) readFull_inv [OF assms(1) _ b(1)] nat_be_u64 [of b]
      by (intro exI [of _ b]) (auto simp: unat_of_nat_small)
  qed
qed

lemma readUint_ok:
  assumes "base s" and "inp s = b @ r" and "fits s (length b)" and "2 \<le> length b \<longrightarrow> hd b \<noteq> 0"
  shows "\<exists>s'. readUint (length b) s = (s', Inr (word_of_nat (nat_be b))) \<and> adv s s' b \<and> skind s' = None"
proof -
  consider "b = []" | x where "b = [x]" | "2 \<le> length b"
    by (metis One_nat_def Suc_1 Suc_leI length_0_conv length_Suc_conv less_one linorder_neqE_nat)
  then show ?thesis
  proof cases
    case 1
    with assms show ?thesis by (auto simp: readUint_def adv_def base_def)
  next
    case 2
    with readByte_ok [of s x r] assms show ?thesis by (auto simp: readUint_def)
  next
    case 3
    with readFull_ok [OF assms(1-3)] assms(4) show ?thesis by (auto simp: readUint_def)
  qed
qed

lemma readUint_err: "base s \<Longrightarrow> readUint n s = (s', Inl e) \<Longrightarrow> e \<notin> {EOL, OutOfFuel}"
  using readByte_err [of s] readFull_err [of s n]
  by (fastforce simp: readUint_def split: prod.splits sum.splits if_splits)

section \<open>Headers\<close>

definition header :: "kind \<Rightarrow> u64 \<Rightarrow> byte \<Rightarrow> bytes" where
  "header k n b = (case k of Byte \<Rightarrow> [b] | String \<Rightarrow> puthead 0x80 0xB7 n | List \<Rightarrow> puthead 0xC0 0xF7 n)"

definition header_ok :: "kind \<Rightarrow> u64 \<Rightarrow> byte \<Rightarrow> bool" where
  "header_ok k n b \<longleftrightarrow> (k = Byte \<longrightarrow> n = 0 \<and> b < 0x80)"

lemma unat_byte_diff: "c \<le> b \<Longrightarrow> unat ((b :: byte) - c) = unat b - unat c"
  by (simp add: unat_sub)

text \<open>A one-byte header determines its size, and the size its header.\<close>

lemma short_header:
  assumes "c \<le> b" and "unat b < unat c + 56"
  shows "puthead c x (ucast (b - c)) = [b]"
proof -
  have "unat (b - c) < 56" using assms by (simp add: unat_byte_diff word_le_nat_alt)
  then have "(ucast (b - c) :: u64) < 56"
    by (simp add: word_less_nat_alt unat_ucast_byte)
  moreover have "to_byte (ucast (b - c)) = b - c"
    by (rule word_eqI_unat) (simp add: unat_to_byte unat_ucast_byte unat_byte_less)
  ultimately show ?thesis by (simp add: puthead_def)
qed

lemma short_size:
  assumes "n < 56" and "unat c + 56 \<le> 256"
  shows "puthead c x n = [c + to_byte n]" and "ucast (c + to_byte n - c) = (n :: u64)"
    and "unat (c + to_byte n) = unat c + unat n"
proof -
  have n: "unat n < 56" using assms(1) by (simp add: word_less_nat_alt)
  show "puthead c x n = [c + to_byte n]" using assms(1) by (simp add: puthead_def)
  show "ucast (c + to_byte n - c) = (n :: u64)"
    using n by (intro word_eqI_unat) (simp add: unat_to_byte unat_ucast_byte)
  show "unat (c + to_byte n) = unat c + unat n"
    using n assms(2) by (simp add: unat_word_ariths unat_to_byte)
qed

lemma long_header:
  assumes "length bs = unat b - unat c" and "c < b" and "length bs \<le> 8" and "unat v = nat_be bs"
    and "56 \<le> v" and "2 \<le> length bs \<longrightarrow> hd bs \<noteq> 0"
  shows "puthead x c v = b # bs"
proof -
  have ne: "bs \<noteq> []" using assms(1,2) by (auto simp: word_less_nat_alt)
  have "hd bs \<noteq> 0"
  proof (cases "2 \<le> length bs")
    case False
    with ne obtain y where "bs = [y]" by (cases bs; cases "tl bs"; auto)
    then show ?thesis using assms(4,5) by (auto simp: word_le_nat_alt)
  qed (use assms in simp)
  then have p: "putint v = bs"
    using putint_nat_be [OF ne _ assms(3)] assms(4)
    by (metis unat_of_nat_small nat_be_u64 [OF assms(3)] word_eqI_unat)
  have "c + word_of_nat (length bs) = b"
    using assms(1,2) by (simp add: of_nat_diff word_less_nat_alt)
  moreover have "\<not> v < 56" using assms(5) by simp
  ultimately show ?thesis using p by (simp add: puthead_def)
qed

lemma long_size_header:
  assumes "56 \<le> v" and "unat c + 8 < 256"
  shows "\<exists>b. puthead x c v = b # putint v \<and> unat (b - c) = length (putint v) \<and>
    c < b \<and> unat b \<le> unat c + 8"
proof -
  let ?k = "length (putint v)" and ?b = "c + word_of_nat (length (putint v)) :: byte"
  have k: "1 \<le> ?k" "?k \<le> 8"
    using nbytes_bounds [of "unat v"] by (simp_all add: length_putint)
  then have "unat ?b = unat c + ?k"
    using assms(2) by (simp add: unat_word_ariths unat_of_nat)
  moreover have "unat (?b - c) = ?k" using k by (simp add: unat_of_nat)
  moreover have "puthead x c v = ?b # putint v"
    using assms(1) by (simp add: puthead_def not_less [symmetric] Let_def)
  ultimately show ?thesis using k
    by (intro exI [of _ ?b]) (simp add: word_less_nat_alt)
qed

lemma long_size_inv:
  assumes "base s" and "unat (b - c) \<le> 8" and "c < b"
    and "long_size k (readUint (unat (b - c)) s) = (s', k', n, None)"
  shows "k' = k \<and> (\<exists>bs. adv s s' bs \<and> puthead x c n = b # bs)"
proof -
  have r: "readUint (unat (b - c)) s = (s', Inr n)" "56 \<le> n" "k' = k"
    using assms(4) by (auto simp: long_size_def split: prod.splits sum.splits if_splits)
  obtain bs where bs: "length bs = unat (b - c)" "adv s s' bs" "unat n = nat_be bs"
      "2 \<le> unat (b - c) \<longrightarrow> hd bs \<noteq> 0"
    using readUint_inv [OF assms(1,2) r(1)] by blast
  have "unat (b - c) = unat b - unat c" using assms(3) by (simp add: unat_byte_diff)
  with bs assms(2,3) r(2) have "puthead x c n = b # bs"
    by (intro long_header) auto
  with bs r show ?thesis by blast
qed

lemma adv_byteval: "adv s (s'\<lparr>byteval := b\<rparr>) bs \<longleftrightarrow> adv s s' bs"
  by (simp add: adv_def base_def)

lemma adv_byteval_left: "adv (s\<lparr>byteval := b\<rparr>) s' bs \<longleftrightarrow> adv s s' bs"
  by (simp add: adv_def)

lemma base_byteval: "base (s\<lparr>byteval := b\<rparr>) \<longleftrightarrow> base s"
  by (simp add: base_def)

lemma adv_base: "adv s s' bs \<Longrightarrow> base s'"
  by (simp add: adv_def)

lemma readKind_inv:
  assumes "base s" and "readKind s = (s', k, n, None)"
  shows "adv s s' (header k n (byteval s')) \<and> header_ok k n (byteval s')"
proof -
  obtain s1 b where b: "readByte s = (s1, Inr b)"
    using assms(2) by (auto simp: readKind_def split: prod.splits sum.splits)
  then have a: "adv s s1 [b]" using readByte_inv [OF assms(1)] by blast
  let ?s = "s1\<lparr>byteval := 0\<rparr>"
  have bs: "base ?s" using adv_base [OF a] by (simp add: base_byteval)
  consider "b < 0x80" | "0x80 \<le> b" "b < 0xB8" | "0xB8 \<le> b" "b < 0xC0"
    | "0xC0 \<le> b" "b < 0xF8" | "0xF8 \<le> b" by force
  then show ?thesis
  proof cases
    case 1
    with assms(2) b a show ?thesis
      by (auto simp: readKind_def Let_def header_def header_ok_def adv_byteval)
  next
    case 2
    then have "unat b < unat (0x80 :: byte) + 56" "\<not> b < 0x80"
      by (auto simp: word_less_nat_alt word_le_nat_alt)
    with 2 assms(2) b a short_header [of "0x80" b] show ?thesis
      by (auto simp: readKind_def Let_def header_def header_ok_def adv_byteval)
  next
    case 3
    then have c: "0xB7 < b" "unat (b - 0xB7) \<le> 8" "\<not> b < 0x80" "\<not> b < 0xB8"
      by (auto simp: word_less_nat_alt word_le_nat_alt unat_byte_diff)
    with 3 assms(2) b have "long_size String (readUint (unat (b - 0xB7)) ?s) = (s', k, n, None)"
      by (simp add: readKind_def Let_def)
    from long_size_inv [OF bs c(2,1) this, of "0x80"] a show ?thesis
      by (auto simp: header_def header_ok_def adv_byteval_left dest: adv_trans)
  next
    case 4
    then have "unat b < unat (0xC0 :: byte) + 56" "\<not> b < 0x80" "\<not> b < 0xB8" "\<not> b < 0xC0"
      by (auto simp: word_less_nat_alt word_le_nat_alt)
    with 4 assms(2) b a short_header [of "0xC0" b] show ?thesis
      by (auto simp: readKind_def Let_def header_def header_ok_def adv_byteval)
  next
    case 5
    then have c: "0xF7 < b" "unat (b - 0xF7) \<le> 8"
        "\<not> b < 0x80" "\<not> b < 0xB8" "\<not> b < 0xC0" "\<not> b < 0xF8"
      using unat_byte_less [of b] by (auto simp: word_less_nat_alt word_le_nat_alt unat_byte_diff)
    with 5 assms(2) b have "long_size List (readUint (unat (b - 0xF7)) ?s) = (s', k, n, None)"
      by (simp add: readKind_def Let_def)
    from long_size_inv [OF bs c(2,1) this, of "0xC0"] a show ?thesis
      by (auto simp: header_def header_ok_def adv_byteval_left dest: adv_trans)
  qed
qed


lemma long_size_ok:
  assumes "base s" and "56 \<le> n" and "inp s = putint n @ r" and "fits s (length (putint n))"
  shows "\<exists>s'. long_size k (readUint (length (putint n)) s) = (s', k, n, None) \<and> adv s s' (putint n)"
proof -
  have "n \<noteq> 0" "\<not> n < 56" using assms(2) by auto
  from readUint_ok [OF assms(1,3,4)] hd_putint [OF this(1)] this(2) show ?thesis
    by (auto simp: long_size_def nat_be_putint)
qed

lemma readKind_long:
  assumes "base s" and "56 \<le> n" and "inp s = b # putint n @ r"
    and "fits s (Suc (length (putint n)))"
  shows "\<exists>s1 s'. readByte s = (s1, Inr b) \<and>
    long_size k (readUint (length (putint n)) (s1\<lparr>byteval := 0\<rparr>)) = (s', k, n, None) \<and>
    adv s s' (b # putint n)"
proof -
  obtain s1 where s1: "readByte s = (s1, Inr b)" "adv s s1 [b]"
    using readByte_ok [OF assms(1,3)] fits_mono [OF assms(4)] by auto
  have "base (s1\<lparr>byteval := 0\<rparr>)" "inp (s1\<lparr>byteval := 0\<rparr>) = putint n @ r"
    using s1(2) assms(3) by (simp_all add: adv_def base_byteval)
  moreover have "fits (s1\<lparr>byteval := 0\<rparr>) (length (putint n))"
    using fits_adv [OF s1(2), of "length (putint n)"] assms(4) by (simp add: fits_def)
  ultimately obtain s' where
      "long_size k (readUint (length (putint n)) (s1\<lparr>byteval := 0\<rparr>)) = (s', k, n, None)"
      "adv (s1\<lparr>byteval := 0\<rparr>) s' (putint n)"
    using long_size_ok [OF _ assms(2)] by blast
  with s1 show ?thesis using adv_trans [OF s1(2), of s' "putint n"]
    by (auto simp: adv_byteval_left)
qed

lemma readKind_ok:
  assumes "base s" and "inp s = header k n b @ r" and "header_ok k n b"
    and "fits s (length (header k n b))"
  shows "\<exists>s'. readKind s = (s', k, n, None) \<and> adv s s' (header k n b) \<and>
    (k = Byte \<longrightarrow> byteval s' = b)"
proof (cases "k = Byte \<or> n < 56")
  case True
  define c where "c = (case k of Byte \<Rightarrow> b | String \<Rightarrow> 0x80 + to_byte n | List \<Rightarrow> 0xC0 + to_byte n)"
  have h: "header k n b = [c]"
    using True by (auto simp: header_def c_def puthead_def split: kind.split)
  obtain s1 where s1: "readByte s = (s1, Inr c)" "adv s s1 [c]"
    using readByte_ok [OF assms(1), of c r] assms(2,4) h by auto
  show ?thesis
  proof (cases k)
    case Byte
    with s1 h assms(3) show ?thesis
      by (auto simp: readKind_def c_def header_ok_def adv_byteval)
  next
    case String
    with True have n: "n < 56" by simp
    note ss = short_size [OF n, of "0x80"]
    have "\<not> c < 0x80" "c < 0xB8"
      using ss(3) n String by (simp_all add: c_def word_less_nat_alt)
    with String s1 h ss(2) show ?thesis
      by (simp add: readKind_def c_def adv_byteval)
  next
    case List
    with True have n: "n < 56" by simp
    note ss = short_size [OF n, of "0xC0"]
    have "\<not> c < 0x80" "\<not> c < 0xB8" "\<not> c < 0xC0" "c < 0xF8"
      using ss(3) n List by (simp_all add: c_def word_less_nat_alt)
    with List s1 h ss(2) show ?thesis
      by (simp add: readKind_def c_def adv_byteval)
  qed
next
  case False
  then have n: "56 \<le> n" by (simp add: not_less)
  show ?thesis
  proof (cases k)
    case Byte
    with False show ?thesis by simp
  next
    case String
    obtain c where c: "puthead 0x80 0xB7 n = c # putint n" "unat (c - 0xB7) = length (putint n)"
        "0xB7 < c" "unat c \<le> 0xBF"
      using long_size_header [OF n, of "0xB7" "0x80"] by auto
    then have "\<not> c < 0x80" "\<not> c < 0xB8" "c < 0xC0" by (auto simp: word_less_nat_alt)
    with String c readKind_long [OF assms(1) n, of c r String] assms(2,4) show ?thesis
      by (auto simp: header_def readKind_def)
  next
    case List
    obtain c where c: "puthead 0xC0 0xF7 n = c # putint n" "unat (c - 0xF7) = length (putint n)"
        "0xF7 < c" "unat c \<le> 0xFF"
      using long_size_header [OF n, of "0xF7" "0xC0"] by auto
    then have "\<not> c < 0x80" "\<not> c < 0xB8" "\<not> c < 0xC0" "\<not> c < 0xF8"
      by (auto simp: word_less_nat_alt)
    with List c readKind_long [OF assms(1) n, of c r List] assms(2,4) show ?thesis
      by (auto simp: header_def readKind_def)
  qed
qed

lemma long_size_err:
  "base s \<Longrightarrow> long_size k (readUint m s) = (s', k', n, Some e) \<Longrightarrow> e \<notin> {EOL, OutOfFuel}"
  using readUint_err [of s m] by (auto simp: long_size_def split: prod.splits sum.splits if_splits)

lemma readKind_err:
  assumes "base s" and "readKind s = (s', k, n, Some e)"
  shows "e \<notin> {EOL, OutOfFuel}"
proof (cases "readByte s")
  case (Pair s1 r)
  show ?thesis
  proof (cases r)
    case (Inl e')
    with Pair assms readByte_err [of s s1 e'] show ?thesis
      by (auto simp: readKind_def split: if_splits)
  next
    case (Inr b)
    with Pair have "base (s1\<lparr>byteval := 0\<rparr>)"
      using readByte_inv [OF assms(1), of s1 b] by (simp add: adv_def base_byteval)
    with Pair Inr assms(2) show ?thesis
      by (simp add: readKind_def Let_def split: if_splits) (drule (1) long_size_err, simp)+
  qed
qed

lemma Kind_cases:
  assumes "skind s = None" and "listLimit s \<noteq> Some 0" and "readKind s = (s1, k, n, err)"
  shows "Kind_op s = (let err' = (case err of Some e \<Rightarrow> Some e
                          | None \<Rightarrow>
                              if (case listLimit s of Some l \<Rightarrow> n > l | None \<Rightarrow> False)
                              then Some ErrElemTooLarge
                              else if limited s1 \<and> n > remaining s1 then Some ErrValueTooLarge
                              else None)
              in (s1\<lparr>skind := Some k, ssize := n, kinderr := err'\<rparr>,
                  case err' of Some e \<Rightarrow> Inl e | None \<Rightarrow> Inr (k, n)))"
  using assms by (simp add: Kind_op_def)

lemma adv_cached: "adv s (s'\<lparr>skind := k, ssize := n, kinderr := e\<rparr>) bs \<longleftrightarrow> adv s s' bs"
  by (simp add: adv_def base_def)

lemma Kind_inv:
  assumes "ready s" and "Kind_op s = (s', Inr (k, n))"
  shows "adv s s' (header k n (byteval s')) \<and> header_ok k n (byteval s') \<and> unat n \<le> length (inp s')"
proof -
  obtain s1 k1 n1 err where r: "readKind s = (s1, k1, n1, err)" by (cases "readKind s")
  have ne: "listLimit s \<noteq> Some 0" and sk: "skind s = None" and b: "base s"
    using assms by (auto simp: Kind_op_def ready_def)
  from assms(2) have err: "err = None" and eqs: "k1 = k" "n1 = n"
    and s': "s' = s1\<lparr>skind := Some k, ssize := n, kinderr := None\<rparr>"
    and lim: "\<not> (limited s1 \<and> n > remaining s1)"
    unfolding Kind_cases [OF sk ne r] by (auto simp: Let_def split: option.splits if_splits)
  from r err eqs have "readKind s = (s1, k, n, None)" by simp
  note a = readKind_inv [OF b this]
  then have "base s1" by (simp add: adv_def)
  then have "unat n \<le> length (inp s1)"
    using lim base_remaining [of s1] by (auto simp: base_def word_less_nat_alt not_less)
  with a s' show ?thesis by (simp add: adv_cached)
qed

lemma Kind_ok:
  assumes "ready s" and "inp s = header k n b @ r" and "header_ok k n b"
    and "unat n \<le> length r" and "fits s (length (header k n b) + unat n)"
  shows "\<exists>s'. Kind_op s = (s', Inr (k, n)) \<and> adv s s' (header k n b) \<and> (k = Byte \<longrightarrow> byteval s' = b)"
proof -
  have b: "base s" and sk: "skind s = None" using assms(1) by (auto simp: ready_def)
  obtain s1 where s1: "readKind s = (s1, k, n, None)" "adv s s1 (header k n b)"
      "k = Byte \<longrightarrow> byteval s1 = b"
    using readKind_ok [OF b assms(2,3)] fits_mono [OF assms(5)] by auto
  have "header k n b \<noteq> []" by (simp add: header_def puthead_def Let_def split: kind.split)
  then have ne: "listLimit s \<noteq> Some 0"
    using assms(5) by (auto simp: listLimit_def fits_def split: list.splits)
  have l: "\<not> (case listLimit s of Some l \<Rightarrow> n > l | None \<Rightarrow> False)"
    using assms(5) by (auto simp: listLimit_def fits_def word_less_nat_alt split: list.splits)
  have "base s1" "inp s1 = r" using s1(2) assms(2) by (auto simp: adv_def)
  then have rem: "\<not> n > remaining s1"
    using base_remaining [of s1] assms(4) by (simp add: word_less_nat_alt)
  show ?thesis using s1 l rem
    unfolding Kind_cases [OF sk ne s1(1)] by (auto simp: adv_cached)
qed

lemma Kind_end: "ready s \<Longrightarrow> listLimit s = Some 0 \<Longrightarrow> Kind_op s = (s, Inl EOL)"
  by (simp add: Kind_op_def ready_def)

lemma Kind_err:
  assumes "ready s" and "Kind_op s = (s', Inl e)"
  shows "e \<noteq> OutOfFuel \<and> (e = EOL \<longrightarrow> s' = s \<and> listLimit s = Some 0)"
proof (cases "listLimit s = Some 0")
  case True
  with Kind_end [OF assms(1)] assms(2) show ?thesis by auto
next
  case False
  obtain s1 k n err where r: "readKind s = (s1, k, n, err)" by (cases "readKind s")
  have b: "base s" and sk: "skind s = None" using assms(1) by (auto simp: ready_def)
  have "e \<notin> {EOL, OutOfFuel}"
    using assms(2) r readKind_err [OF b, of s1 k n e] unfolding Kind_cases [OF sk False r]
    by (auto simp: Let_def split: option.splits if_splits)
  then show ?thesis by simp
qed

section \<open>The contract of a decoder\<close>

text \<open>
  \<open>codec d good\<close>: the decoder \<open>d\<close> accepts exactly the encodings of the values in \<open>good\<close>, consumes
  exactly the bytes of the encoding, reports \<open>EOL\<close> exactly at the end of the enclosing list, and
  never runs out of fuel.
\<close>

locale codec =
  fixes d :: decoder and good :: "rval \<Rightarrow> bool"
  assumes complete: "ready s \<Longrightarrow> inp s = enc v @ r \<Longrightarrow> fits s (length (enc v)) \<Longrightarrow> good v \<Longrightarrow>
      \<exists>s'. d s = (s', Inr v) \<and> adv s s' (enc v) \<and> ready s'"
    and sound: "ready s \<Longrightarrow> d s = (s', Inr v) \<Longrightarrow> good v \<and> adv s s' (enc v) \<and> ready s'"
    and at_end: "ready s \<Longrightarrow> listLimit s = Some 0 \<Longrightarrow> d s = (s, Inl EOL)"
    and errors: "ready s \<Longrightarrow> d s = (s', Inl e) \<Longrightarrow>
      e \<noteq> OutOfFuel \<and> (e = EOL \<longrightarrow> s' = s \<and> listLimit s = Some 0)"

text \<open>Strings: what \<open>Bytes\<close>, \<open>decodeByteArray\<close> and \<open>decodeBigInt\<close> read.\<close>

lemma enc_string_cases:
  "enc_string b = (if length b = 1 \<and> hd b < 0x80 then header Byte 0 (hd b)
     else header String (word_of_nat (length b)) 0 @ b)"
proof -
  have "x \<le> 0x7F \<longleftrightarrow> x < 0x80" for x :: byte by (auto simp: word_less_nat_alt word_le_nat_alt)
  then show ?thesis by (cases b) (auto simp: enc_string_def header_def)
qed

lemma rearm_adv: "adv s s' bs \<Longrightarrow> adv s (rearm s') bs"
  by (simp add: adv_def base_def rearm_def)

lemma ready_rearm: "base s \<Longrightarrow> ready (rearm s)"
  by (simp add: ready_def base_def rearm_def)

lemma string_payload_inv:
  assumes "ready s" and "Kind_op s = (s1, Inr (String, n))" and "readFull (unat n) s1 = (s', Inr b)"
    and "\<not> (n = 1 \<and> hd b < 128)"
  shows "adv s s' (enc_string b) \<and> ready s' \<and> length b = unat n"
proof -
  have k: "adv s s1 (header String n (byteval s1))" using Kind_inv [OF assms(1,2)] by blast
  have f: "adv s1 s' b" "length b = unat n" "skind s' = None"
    using readFull_inv [OF adv_base [OF k] _ assms(3)] unat_u64_less by auto
  then have "word_of_nat (length b) = n" by simp
  moreover have "\<not> (length b = 1 \<and> hd b < 0x80)"
    using assms(4) f(2) by (metis One_nat_def unat_1 word_eqI_unat)
  ultimately have "enc_string b = header String n (byteval s1) @ b"
    unfolding enc_string_cases by (auto simp: header_def)
  with adv_trans [OF k f(1)] f show ?thesis by (simp add: ready_def adv_def)
qed

lemma string_byte_inv:
  assumes "ready s" and "Kind_op s = (s1, Inr (Byte, n))"
  shows "adv s (rearm s1) (enc_string [byteval s1]) \<and> ready (rearm s1) \<and> byteval s1 < 0x80"
  using Kind_inv [OF assms] ready_rearm [of s1] rearm_adv [of s s1]
  by (auto simp: enc_string_cases header_def header_ok_def adv_base)

lemma string_byte_ok:
  assumes "ready s" and "inp s = enc_string [x] @ r" and "fits s (length (enc_string [x]))"
    and "x < 0x80"
  shows "\<exists>s1. Kind_op s = (s1, Inr (Byte, 0)) \<and> byteval s1 = x \<and> adv s (rearm s1) (enc_string [x]) \<and>
    ready (rearm s1)"
proof -
  have e: "enc_string [x] = header Byte 0 x" using assms(4) by (simp add: enc_string_cases)
  from Kind_ok [OF assms(1), of Byte 0 x r] assms(2-4) e show ?thesis
    by (auto simp: header_ok_def intro: rearm_adv ready_rearm dest: adv_base)
qed

lemma string_payload_ok:
  assumes "ready s" and "inp s = enc_string b @ r" and "fits s (length (enc_string b))"
    and "\<not> (length b = 1 \<and> hd b < 0x80)"
  shows "\<exists>s1 s' n. Kind_op s = (s1, Inr (String, n)) \<and> unat n = length b \<and>
    readFull (length b) s1 = (s', Inr b) \<and> adv s s' (enc_string b) \<and> ready s' \<and>
    adv s s1 (header String n 0) \<and> base s1 \<and> inp s1 = b @ r \<and> fits s1 (length b)"
proof -
  let ?n = "word_of_nat (length b) :: u64"
  have e: "enc_string b = header String ?n 0 @ b" using assms(4) by (auto simp: enc_string_cases)
  have len: "length b < 2 ^ 64" using assms(1,2) by (auto simp: ready_def base_def e)
  obtain s1 where s1: "Kind_op s = (s1, Inr (String, ?n))" "adv s s1 (header String ?n 0)"
    using Kind_ok [OF assms(1), of String ?n 0 "b @ r"] assms(2,3) e len
    by (auto simp: header_ok_def unat_of_nat_small)
  have i: "base s1" "inp s1 = b @ r" using s1(2) assms(2) e by (auto simp: adv_def)
  have f: "fits s1 (length b)" using fits_adv [OF s1(2)] assms(3) e by simp
  from readFull_ok [OF i f] obtain s' where "readFull (length b) s1 = (s', Inr b)"
      "adv s1 s' b" "skind s' = None" by blast
  with s1 adv_trans [OF s1(2), of s' b] e i f len show ?thesis
    by (auto simp: ready_def adv_def unat_of_nat_small)
qed

section \<open>The decoders of strings and integers meet the contract\<close>

lemma u64_1: "unat (n :: u64) = 1 \<longleftrightarrow> n = 1"
  by (metis unat_1 word_eqI_unat)

lemma map_sum_iff [simp]:
  "map_sum id f r = Inr v \<longleftrightarrow> (\<exists>b. r = Inr b \<and> v = f b)"
  "map_sum id f r = Inl e \<longleftrightarrow> r = Inl e"
  by (cases r; auto)+

lemma Kind_base: "ready s \<Longrightarrow> Kind_op s = (s', Inr (k, n)) \<Longrightarrow> base s'"
  using Kind_inv adv_base by blast

lemma byte_slice_codec: "codec decodeByteSlice (has_type TBytes)"
proof
  fix s v r
  assume a: "ready s" "inp s = enc v @ r" "fits s (length (enc v))" "has_type TBytes v"
  then obtain b where v: "v = VBytes b" by (cases v) auto
  show "\<exists>s'. decodeByteSlice s = (s', Inr v) \<and> adv s s' (enc v) \<and> ready s'"
  proof (cases "length b = 1 \<and> hd b < 0x80")
    case True
    then obtain x where "b = [x]" "x < 0x80" by (cases b) auto
    with string_byte_ok [of s x r] a v show ?thesis
      by (auto simp: decodeByteSlice_def Bytes_op_def)
  next
    case False
    from string_payload_ok [OF a(1) _ _ False] a v False show ?thesis
      by (fastforce simp: decodeByteSlice_def Bytes_op_def u64_1 [symmetric])
  qed
next
  fix s s' v
  assume a: "ready s" "decodeByteSlice s = (s', Inr v)"
  then obtain b where b: "Bytes_op s = (s', Inr b)" "v = VBytes b"
    by (auto simp: decodeByteSlice_def split: prod.splits sum.splits)
  then show "has_type TBytes v \<and> adv s s' (enc v) \<and> ready s'"
    using string_byte_inv [OF a(1)] string_payload_inv [OF a(1)]
    by (auto simp: Bytes_op_def split: prod.splits sum.splits kind.splits if_splits)
next
  fix s :: stream
  assume "ready s" "listLimit s = Some 0"
  then show "decodeByteSlice s = (s, Inl EOL)"
    by (simp add: decodeByteSlice_def Bytes_op_def Kind_end)
next
  fix s s' e
  assume a: "ready s" "decodeByteSlice s = (s', Inl e)"
  then obtain "Bytes_op s = (s', Inl e)"
    by (auto simp: decodeByteSlice_def split: prod.splits sum.splits)
  then show "e \<noteq> OutOfFuel \<and> (e = EOL \<longrightarrow> s' = s \<and> listLimit s = Some 0)"
    using Kind_err [OF a(1)] readFull_err Kind_base [OF a(1)]
    by (fastforce simp: Bytes_op_def split: prod.splits sum.splits kind.splits if_splits)
qed


lemma byte_array_codec:
  assumes "len < 2 ^ 63"
  shows "codec (decodeByteArray len) (has_type (TArr len))"
proof
  fix s v r
  assume a: "ready s" "inp s = enc v @ r" "fits s (length (enc v))" "has_type (TArr len) v"
  then obtain b where v: "v = VArray b" "length b = len" by (cases v) auto
  show "\<exists>s'. decodeByteArray len s = (s', Inr v) \<and> adv s s' (enc v) \<and> ready s'"
  proof (cases "length b = 1 \<and> hd b < 0x80")
    case True
    then obtain x where "b = [x]" "x < 0x80" by (cases b) auto
    with string_byte_ok [of s x r] a v show ?thesis
      by (auto simp: decodeByteArray_def)
  next
    case False
    obtain s1 s' n where s1: "Kind_op s = (s1, Inr (String, n))" "unat n = length b"
        "readFull (length b) s1 = (s', Inr b)" "adv s s' (enc_string b)" "ready s'"
      using string_payload_ok [OF a(1) _ _ False, of r] a v by auto
    then have "word_of_nat len = n" using v by (metis word_unat_eq_iff unat_of_nat_small
          unat_u64_less)
    with s1 a v False show ?thesis
      by (auto simp: decodeByteArray_def u64_1 [symmetric])
  qed
next
  fix s s' v
  assume a: "ready s" "decodeByteArray len s = (s', Inr v)"
  have w: "unat (word_of_nat len :: u64) = len" using assms by (simp add: unat_of_nat_small)
  show "has_type (TArr len) v \<and> adv s s' (enc v) \<and> ready s'"
  proof (cases "Kind_op s")
    case (Pair s1 k)
    with a(2) obtain n where "k = Inr (Byte, n) \<or> k = Inr (String, n)"
      by (auto simp: decodeByteArray_def split: sum.splits prod.splits kind.splits)
    then show ?thesis
    proof
      assume "k = Inr (Byte, n)"
      with Pair a string_byte_inv [OF a(1), of s1 n] show ?thesis
        by (auto simp: decodeByteArray_def split: if_splits)
    next
      assume k: "k = Inr (String, n)"
      with Pair a(2) have n: "word_of_nat len = n"
        by (auto simp: decodeByteArray_def not_less split: if_splits)
      with k Pair a(2) obtain b where "readFull (unat n) s1 = (s', Inr b)" "v = VArray b"
          "\<not> (n = 1 \<and> hd b < 128)"
        using w by (auto simp: decodeByteArray_def split: sum.splits prod.splits if_splits)
      with string_payload_inv [OF a(1), of s1 n s' b] k Pair w n show ?thesis by auto
    qed
  qed
next
  fix s :: stream
  assume "ready s" "listLimit s = Some 0"
  then show "decodeByteArray len s = (s, Inl EOL)"
    by (simp add: decodeByteArray_def Kind_end)
next
  fix s s' e
  assume a: "ready s" "decodeByteArray len s = (s', Inl e)"
  then show "e \<noteq> OutOfFuel \<and> (e = EOL \<longrightarrow> s' = s \<and> listLimit s = Some 0)"
    using Kind_err [OF a(1)] readFull_err Kind_base [OF a(1)]
    by (fastforce simp: decodeByteArray_def split: prod.splits sum.splits kind.splits if_splits)
qed

text \<open>Integers are encoded as the string of their digits without leading zeros.\<close>

definition canon :: "bytes \<Rightarrow> bool" where
  "canon b \<longleftrightarrow> b = [] \<or> hd b \<noteq> 0"

lemma canon_lower: "canon b \<Longrightarrow> b \<noteq> [] \<Longrightarrow> 256 ^ (length b - 1) \<le> nat_be b"
  using hd_nonzero_iff by (auto simp: canon_def)

lemma canon_length:
  assumes "canon b"
  shows "nat_be b < 256 ^ m \<longleftrightarrow> length b \<le> m"
proof
  assume lt: "nat_be b < 256 ^ m"
  show "length b \<le> m"
  proof (cases "b = []")
    case False
    have "(256 :: nat) ^ (length b - 1) < 256 ^ m"
      using canon_lower [OF assms False] lt by (rule le_less_trans)
    then have "length b - 1 < m" by (subst (asm) power_strict_increasing_iff) auto
    then show ?thesis by simp
  qed simp
next
  assume "length b \<le> m"
  then have "(256 :: nat) ^ length b \<le> 256 ^ m" by (intro power_increasing) auto
  with nat_be_less [of b] show "nat_be b < 256 ^ m" by (rule less_le_trans)
qed

lemma canon_ex: "\<exists>b. canon b \<and> nat_be b = n"
proof (cases "n = 0")
  case True
  then show ?thesis by (intro exI [of _ "[]"]) (simp add: canon_def)
next
  case False
  note l = biglen_bounds [of n, simplified, OF False [simplified neq0_conv]]
  let ?b = "be_nat (biglen n) n"
  have "nat_be ?b = n" using l(2) by (simp add: nat_be_be_nat)
  moreover have "?b \<noteq> []" using l(3) by (metis length_be_nat less_numeral_extra(3) list.size(3))
  ultimately have "hd ?b \<noteq> 0" using l(1) hd_nonzero_iff [of ?b] by simp
  with \<open>nat_be ?b = n\<close> show ?thesis by (intro exI [of _ ?b]) (simp add: canon_def)
qed

lemma biglen_canon: "canon b \<Longrightarrow> b \<noteq> [] \<Longrightarrow> biglen (nat_be b) = length b"
  using biglen_unique [of "length b - 1" "nat_be b"] canon_lower [of b] nat_be_less [of b]
  by simp

lemma small_canon: "canon b \<Longrightarrow> b \<noteq> [] \<Longrightarrow> nat_be b < 128 \<longleftrightarrow> length b = 1 \<and> hd b < 0x80"
proof -
  assume c: "canon b" "b \<noteq> []"
  show ?thesis
  proof (cases "length b = 1")
    case True
    then obtain x where "b = [x]" by (cases b) auto
    then show ?thesis by (simp add: word_less_nat_alt)
  next
    case False
    with c(2) have "1 \<le> length b - 1" by (cases b; cases "tl b"; auto)
    then have "(256 :: nat) ^ 1 \<le> 256 ^ (length b - 1)" by (intro power_increasing) auto
    with canon_lower [OF c] False show ?thesis by simp
  qed
qed

lemma enc_uint_canon:
  assumes "canon b"
  shows "enc_uint (nat_be b) = enc_string b"
proof (cases "b = []")
  case True
  then show ?thesis by (simp add: enc_uint_def enc_string_def puthead_def to_byte_def)
next
  case False
  note s = small_canon [OF assms False]
  have nz: "nat_be b \<noteq> 0" using canon_lower [OF assms False] by (metis power_not_zero le_zero_eq zero_neq_numeral)
  show ?thesis
  proof (cases "nat_be b < 128")
    case True
    with s obtain x where "b = [x]" "x < 0x80" by (cases b) auto
    with nz True show ?thesis by (simp add: enc_uint_def enc_string_cases header_def)
  next
    case False
    have "(bitlen (nat_be b) + 7) div 8 = length b"
      using biglen_canon [OF assms \<open>b \<noteq> []\<close>] by (simp add: biglen_def)
    with False nz s show ?thesis
      by (auto simp: enc_uint_def enc_string_cases header_def be_nat_nat_be Let_def)
  qed
qed

lemma big_codec: "codec decodeBigInt (has_type TBig)"
proof
  fix s v r
  assume a: "ready s" "inp s = enc v @ r" "fits s (length (enc v))" "has_type TBig v"
  then obtain i where v: "v = VBig i" "0 \<le> i" by (cases v) auto
  obtain b where b: "canon b" "nat_be b = nat i" using canon_ex by blast
  then have e: "enc v = enc_string b" and i: "i = int (nat_be b)"
    using v enc_uint_canon [OF b(1)] by auto
  show "\<exists>s'. decodeBigInt s = (s', Inr v) \<and> adv s s' (enc v) \<and> ready s'"
  proof (cases "length b = 1 \<and> hd b < 0x80")
    case True
    then obtain x where "b = [x]" "x < 0x80" by (cases b) auto
    with string_byte_ok [of s x r] a v e b i show ?thesis
      by (auto simp: decodeBigInt_def big_result_def canon_def)
  next
    case False
    obtain s1 s' n where s1: "Kind_op s = (s1, Inr (String, n))" "unat n = length b"
        "readFull (length b) s1 = (s', Inr b)" "adv s s' (enc_string b)" "ready s'"
        "adv s s1 (header String n 0)" "base s1"
      using string_payload_ok [OF a(1) _ _ False, of r] a e by auto
    show ?thesis
    proof (cases "n = 0")
      case True
      with s1 have "b = []" by simp
      moreover from this have "enc_string b = header String n 0"
        using s1(2) True by (simp add: enc_string_cases)
      ultimately show ?thesis using True s1 e v i
        by (auto simp: decodeBigInt_def big_result_def intro: rearm_adv ready_rearm)
    next
      case n0: False
      with s1 False e v i b(1) show ?thesis
        by (auto simp: decodeBigInt_def big_result_def u64_1 [symmetric] canon_def)
    qed
  qed
next
  fix s s' v
  assume a: "ready s" "decodeBigInt s = (s', Inr v)"
  have goal: "has_type TBig v \<and> adv s s' (enc v) \<and> ready s'"
    if "canon b" "v = VBig (int (nat_be b))" "adv s s' (enc_string b)" "ready s'" for b
    using that enc_uint_canon [of b] by simp
  have res: "s' = t \<and> canon b \<and> v = VBig (int (nat_be b))"
    if "big_result t b = (s', Inr v)" for t b
    using that by (auto simp: big_result_def canon_def split: if_splits)
  show "has_type TBig v \<and> adv s s' (enc v) \<and> ready s'"
  proof (cases "Kind_op s")
    case (Pair s1 k)
    with a(2) obtain n where "k = Inr (Byte, n) \<or> k = Inr (String, n)"
      by (cases k; cases "fst (projr k)") (auto simp: decodeBigInt_def)
    then consider "k = Inr (Byte, n)" | "k = Inr (String, n)" "n = 0" | "k = Inr (String, n)" "n \<noteq> 0"
      by blast
    then show ?thesis
    proof cases
      case 1
      with Pair a(2) have "big_result (rearm s1) [byteval s1] = (s', Inr v)"
        by (simp add: decodeBigInt_def)
      from res [OF this] string_byte_inv [OF a(1), of s1 n] 1 Pair
        goal [of "[byteval s1]"] show ?thesis by simp
    next
      case 2
      with Pair have "adv s s1 (header String 0 (byteval s1))" using Kind_inv [OF a(1)] by blast
      then have "adv s (rearm s1) (enc_string [])" "ready (rearm s1)"
        using rearm_adv ready_rearm adv_base by (auto simp: enc_string_cases header_def)
      with 2 Pair a(2) res [of "rearm s1" "[]"] goal show ?thesis
        by (auto simp: decodeBigInt_def)
    next
      case 3
      with Pair a(2) obtain b t where b: "readFull (unat n) s1 = (t, Inr b)"
          "\<not> (n = 1 \<and> hd b < 128)" "big_result t b = (s', Inr v)"
        by (force simp: decodeBigInt_def split: sum.splits prod.splits if_splits)
      from res [OF b(3)] string_payload_inv [OF a(1) _ b(1,2)] 3 Pair goal [of b]
      show ?thesis by simp
    qed
  qed
next
  fix s :: stream
  assume "ready s" "listLimit s = Some 0"
  then show "decodeBigInt s = (s, Inl EOL)"
    by (simp add: decodeBigInt_def Kind_end)
next
  fix s s' e
  assume a: "ready s" "decodeBigInt s = (s', Inl e)"
  then show "e \<noteq> OutOfFuel \<and> (e = EOL \<longrightarrow> s' = s \<and> listLimit s = Some 0)"
    using Kind_err [OF a(1)] readFull_err Kind_base [OF a(1)]
    by (fastforce simp: decodeBigInt_def big_result_def
        split: prod.splits sum.splits kind.splits if_splits)
qed

lemma uint_inv:
  assumes "ready s" and "bits \<le> 64" and "uint_op bits s = (s', Inr v)"
  shows "\<exists>b. canon b \<and> nat_be b = unat v \<and> length b \<le> max 1 (bits div 8) \<and>
    adv s s' (enc_string b) \<and> ready s'"
proof (cases "Kind_op s")
  case (Pair s1 k)
  with assms(3) obtain n where "k = Inr (Byte, n) \<or> k = Inr (String, n)"
    by (cases k; cases "fst (projr k)") (auto simp: uint_op_def)
  then show ?thesis
  proof
    assume k: "k = Inr (Byte, n)"
    with Pair assms(3) have "s' = rearm s1" "v = ucast (byteval s1)" "byteval s1 \<noteq> 0"
      by (auto simp: uint_op_def split: if_splits)
    with k Pair string_byte_inv [OF assms(1), of s1 n] show ?thesis
      by (intro exI [of _ "[byteval s1]"]) (auto simp: canon_def unat_ucast_byte)
  next
    assume k: "k = Inr (String, n)"
    with Pair assms(3) have n: "\<not> n > word_of_nat (bits div 8)"
      and r: "readUint (unat n) s1 = (s', Inr v)" and nv: "\<not> (n > 0 \<and> v < 128)"
      by (auto simp: uint_op_def split: if_splits sum.splits prod.splits)
    have le: "unat n \<le> bits div 8"
      using n assms(2) by (simp add: word_less_nat_alt unat_of_nat_small not_less)
    have h: "adv s s1 (header String n (byteval s1))" using Kind_inv [OF assms(1)] k Pair by blast
    have "unat n \<le> 8" using le assms(2) by simp
    from readUint_inv [OF adv_base [OF h] this r] obtain b where b: "length b = unat n"
        "adv s1 s' b" "skind s' = None" "unat v = nat_be b" "2 \<le> unat n \<longrightarrow> hd b \<noteq> 0" by blast
    have small: "128 \<le> unat (hd b)" if "length b = 1"
    proof -
      have "0 < n" using that b(1) by (metis One_nat_def unat_0 word_gt_0 zero_neq_one)
      with nv have "128 \<le> unat v" by (simp add: word_less_nat_alt)
      with that b(4) show ?thesis by (cases b) auto
    qed
    have "canon b"
    proof (cases "2 \<le> length b")
      case False
      then consider "b = []" | "length b = 1" by (cases b; cases "tl b"; auto)
      then show ?thesis using small by cases (auto simp: canon_def)
    qed (use b in \<open>simp add: canon_def\<close>)
    moreover have "\<not> (length b = 1 \<and> hd b < 0x80)"
      using small by (auto simp: word_less_nat_alt)
    then have "enc_string b = header String n (byteval s1) @ b"
      using b(1) by (auto simp: enc_string_cases header_def)
    ultimately show ?thesis using b le adv_trans [OF h b(2)]
      by (intro exI [of _ b]) (auto simp: ready_def adv_def)
  qed
qed

lemma uint_ok:
  assumes "ready s" and "inp s = enc_string b @ r" and "fits s (length (enc_string b))"
    and "canon b" and "length b \<le> bits div 8" and "bits \<le> 64"
  shows "\<exists>s'. uint_op bits s = (s', Inr (word_of_nat (nat_be b))) \<and> adv s s' (enc_string b) \<and> ready s'"
proof (cases "length b = 1 \<and> hd b < 0x80")
  case True
  then obtain x where x: "b = [x]" "x < 0x80" by (cases b) auto
  then have "ucast x = (word_of_nat (unat x) :: u64)" by simp
  with x string_byte_ok [of s x r] assms show ?thesis
    by (auto simp: uint_op_def canon_def)
next
  case False
  obtain s1 n where s1: "Kind_op s = (s1, Inr (String, n))" "unat n = length b"
      "adv s s1 (header String n 0)" "base s1" "inp s1 = b @ r" "fits s1 (length b)"
    using string_payload_ok [OF assms(1-3) False] by blast
  have "2 \<le> length b \<longrightarrow> hd b \<noteq> 0" using assms(4) by (auto simp: canon_def)
  from readUint_ok [OF s1(4-6) this] obtain s' where s':
      "readUint (length b) s1 = (s', Inr (word_of_nat (nat_be b)))" "adv s1 s' b" "skind s' = None"
    by blast
  have "\<not> n > word_of_nat (bits div 8)"
    using assms(5,6) s1(2) by (simp add: word_less_nat_alt unat_of_nat_small)
  moreover have "\<not> (n > 0 \<and> (word_of_nat (nat_be b) :: u64) < 128)"
  proof
    assume n: "n > 0 \<and> (word_of_nat (nat_be b) :: u64) < 128"
    then have "b \<noteq> []" using s1(2) by (auto simp: word_gt_0 unat_eq_0)
    moreover have "nat_be b < 128"
      using n nat_be_u64 [of b] assms(5,6) by (simp add: word_less_nat_alt unat_of_nat_small)
    ultimately show False using small_canon [OF assms(4)] False by simp
  qed
  moreover have "enc_string b = header String n 0 @ b"
    using False by (auto simp: enc_string_cases simp flip: s1(2))
  ultimately show ?thesis using s1 s' adv_trans [OF s1(3) s'(2)]
    by (auto simp: uint_op_def ready_def adv_def)
qed

lemma uint_end: "ready s \<Longrightarrow> listLimit s = Some 0 \<Longrightarrow> uint_op bits s = (s, Inl EOL)"
  by (simp add: uint_op_def Kind_end)

lemma uint_err:
  assumes "ready s" and "uint_op bits s = (s', Inl e)"
  shows "e \<noteq> OutOfFuel \<and> (e = EOL \<longrightarrow> s' = s \<and> listLimit s = Some 0)"
proof (cases "Kind_op s")
  case (Pair s1 k)
  show ?thesis
  proof (cases k)
    case (Inl e')
    with Pair assms Kind_err [OF assms(1)] show ?thesis by (auto simp: uint_op_def)
  next
    case (Inr kn)
    with Pair obtain kd n where k: "k = Inr (kd, n)" "base s1"
      using Kind_base [OF assms(1)] by (cases kn) auto
    with Pair assms(2) readUint_err [OF k(2), of "unat n"] show ?thesis
      by (cases kd) (auto simp: uint_op_def split: prod.splits sum.splits if_splits)
  qed
qed

lemma uint_codec:
  assumes "bits \<in> {8, 16, 32, 64}"
  shows "codec (decodeUint bits) (has_type (TUint bits))"
proof
  have m: "(2 :: nat) ^ bits = 256 ^ (bits div 8)" and b64: "bits \<le> 64" "1 \<le> bits div 8"
    using assms by auto
  fix s v r
  assume a: "ready s" "inp s = enc v @ r" "fits s (length (enc v))" "has_type (TUint bits) v"
  then obtain i where v: "v = VUint i" "unat i < 256 ^ (bits div 8)" by (cases v) (auto simp: m)
  obtain b where b: "canon b" "nat_be b = unat i" using canon_ex by blast
  with v have "length b \<le> bits div 8" using canon_length [OF b(1), of "bits div 8"] by simp
  moreover have "enc v = enc_string b" using v b enc_uint_canon [OF b(1)] by simp
  moreover have "word_of_nat (nat_be b) = i" using b(2) by simp
  ultimately show "\<exists>s'. decodeUint bits s = (s', Inr v) \<and> adv s s' (enc v) \<and> ready s'"
    using uint_ok [OF a(1) _ _ b(1), of r bits] a(2,3) b64 v by (auto simp: decodeUint_def)
next
  have m: "(2 :: nat) ^ bits = 256 ^ (bits div 8)" and b64: "bits \<le> 64" "1 \<le> bits div 8"
    using assms by auto
  fix s s' v
  assume a: "ready s" "decodeUint bits s = (s', Inr v)"
  then obtain i where i: "uint_op bits s = (s', Inr i)" "v = VUint i"
    by (auto simp: decodeUint_def split: prod.splits)
  obtain b where b: "canon b" "nat_be b = unat i" "length b \<le> bits div 8"
      "adv s s' (enc_string b)" "ready s'"
    using uint_inv [OF a(1) b64(1) i(1)] b64(2) by (auto simp: max_def)
  then show "has_type (TUint bits) v \<and> adv s s' (enc v) \<and> ready s'"
    using i enc_uint_canon [OF b(1)] canon_length [OF b(1), of "bits div 8"] by (simp add: m)
next
  fix s :: stream
  assume "ready s" "listLimit s = Some 0"
  then show "decodeUint bits s = (s, Inl EOL)" by (simp add: decodeUint_def uint_end)
next
  fix s s' e
  assume a: "ready s" "decodeUint bits s = (s', Inl e)"
  then have "uint_op bits s = (s', Inl e)" by (auto simp: decodeUint_def split: prod.splits)
  then show "e \<noteq> OutOfFuel \<and> (e = EOL \<longrightarrow> s' = s \<and> listLimit s = Some 0)"
    by (rule uint_err [OF a(1)])
qed

lemma bool_codec: "codec decodeBool (has_type TBool)"
proof
  fix s v r
  assume a: "ready s" "inp s = enc v @ r" "fits s (length (enc v))" "has_type TBool v"
  then obtain b where v: "v = VBool b" by (cases v) auto
  let ?b = "if b then [1] else [] :: bytes"
  have "canon ?b" "enc v = enc_string ?b" "nat_be ?b = of_bool b" "length ?b \<le> 8 div 8"
    using v by (simp_all add: canon_def enc_string_def puthead_def to_byte_def)
  moreover from this a obtain s' where
      "uint_op 8 s = (s', Inr (word_of_nat (nat_be ?b)))" "adv s s' (enc_string ?b)" "ready s'"
    using uint_ok [of s ?b r 8] by auto
  ultimately show "\<exists>s'. decodeBool s = (s', Inr v) \<and> adv s s' (enc v) \<and> ready s'"
    using v by (intro exI [of _ s']) (simp add: decodeBool_def Bool_op_def del: enc.simps)
next
  fix s s' v
  assume a: "ready s" "decodeBool s = (s', Inr v)"
  then obtain i where i: "uint_op 8 s = (s', Inr i)" "v = VBool (i = 1)" "i = 0 \<or> i = 1"
    by (auto simp: decodeBool_def Bool_op_def split: prod.splits sum.splits if_splits)
  obtain b where b: "canon b" "nat_be b = unat i" "adv s s' (enc_string b)" "ready s'"
    using uint_inv [OF a(1) _ i(1)] by auto
  moreover have "enc v = enc_string b"
    using i enc_uint_canon [OF b(1)] b(2) by (auto simp: enc_uint_def)
  ultimately show "has_type TBool v \<and> adv s s' (enc v) \<and> ready s'" using i by simp
next
  fix s :: stream
  assume "ready s" "listLimit s = Some 0"
  then show "decodeBool s = (s, Inl EOL)"
    using uint_end by (simp add: decodeBool_def Bool_op_def)
next
  fix s s' e
  assume a: "ready s" "decodeBool s = (s', Inl e)"
  then have "uint_op 8 s = (s', Inl e) \<or> e = ErrInvalidBool"
    by (auto simp: decodeBool_def Bool_op_def split: prod.splits sum.splits if_splits)
  then show "e \<noteq> OutOfFuel \<and> (e = EOL \<longrightarrow> s' = s \<and> listLimit s = Some 0)"
    using uint_err [OF a(1)] by auto
qed

section \<open>Lists and structs\<close>

text \<open>Entering and leaving a list.\<close>

definition enter :: "stream \<Rightarrow> stream \<Rightarrow> u64 \<Rightarrow> bool" where
  "enter s s1 n \<longleftrightarrow> ready s1 \<and> inp s = header List n 0 @ inp s1 \<and>
     stk s1 = n # sub_top (length (header List n 0) + unat n) (stk s) \<and> unat n \<le> length (inp s1)"

lemma header_List: "header List n b = puthead 0xC0 0xF7 n"
  by (simp add: header_def)

lemma enter_stack:
  assumes "adv s s1 h" and "s2 = (case listLimit s1 of Some l \<Rightarrow> set_limit (l - n) s1 | None \<Rightarrow> s1)"
  shows "stk s2 = sub_top (length h + unat n) (stk s)" and "inp s2 = inp s1"
    and "base (s2\<lparr>stk := st, skind := None, ssize := 0\<rparr>)"
proof -
  have "stk s2 = sub_top (unat n) (stk s1)"
    unfolding assms(2)
    by (cases "stk s1") (simp_all add: listLimit_def set_limit_def sub_top_def)
  moreover have "stk s1 = sub_top (length h) (stk s)" using assms(1) unfolding adv_def by blast
  ultimately show "stk s2 = sub_top (length h + unat n) (stk s)" by simp
  show "inp s2 = inp s1" unfolding assms(2) by (simp add: set_limit_def split: option.split)
  have "base s2" unfolding assms(2)
    using adv_base [OF assms(1)] by (simp add: set_limit_def base_def split: option.split)
  then show "base (s2\<lparr>stk := st, skind := None, ssize := 0\<rparr>)" unfolding base_def by simp
qed

lemma List_inv:
  assumes "ready s" and "List_op s = (s1, Inr n)"
  shows "enter s s1 n"
proof -
  obtain t where t: "Kind_op s = (t, Inr (List, n))"
    and s1: "s1 = (let u = (case listLimit t of Some l \<Rightarrow> set_limit (l - n) t | None \<Rightarrow> t)
      in u\<lparr>stk := n # stk u, skind := None, ssize := 0\<rparr>)"
    using assms(2) by (auto simp: List_op_def Let_def split: prod.splits sum.splits if_splits)
  have k: "adv s t (header List n 0)" "unat n \<le> length (inp t)"
    using Kind_inv [OF assms(1) t] by (auto simp: header_List)
  note e = enter_stack [OF k(1) refl, where n = n]
  show ?thesis using e k s1 by (simp add: enter_def ready_def Let_def adv_def)
qed

lemma List_ok:
  assumes "ready s" and "inp s = header List n 0 @ r" and "unat n \<le> length r"
    and "fits s (length (header List n 0) + unat n)"
  shows "\<exists>s1. List_op s = (s1, Inr n) \<and> enter s s1 n"
proof -
  obtain t where t: "Kind_op s = (t, Inr (List, n))"
    using Kind_ok [OF assms(1,2) _ assms(3,4)] by (auto simp: header_ok_def)
  then obtain s1 where "List_op s = (s1, Inr n)" by (simp add: List_op_def Let_def)
  with List_inv [OF assms(1)] show ?thesis by blast
qed

lemma List_end: "ready s \<Longrightarrow> listLimit s = Some 0 \<Longrightarrow> List_op s = (s, Inl EOL)"
  by (simp add: List_op_def Kind_end)

lemma List_err:
  assumes "ready s" and "List_op s = (s', Inl e)"
  shows "e \<noteq> OutOfFuel \<and> (e = EOL \<longrightarrow> s' = s \<and> listLimit s = Some 0)"
proof (cases "Kind_op s")
  case (Pair s1 k)
  with assms Kind_err [OF assms(1)] show ?thesis
    by (cases k) (auto simp: List_op_def Let_def split: if_splits)
qed

text \<open>
  Leaving: a list that was entered with size \<open>n\<close> and is at its end after the bytes \<open>bs\<close> has
  exactly \<open>n\<close> bytes. The limits are compared modulo \<open>2 ^ 64\<close>; the input is shorter than that.
\<close>

lemma leave:
  assumes "enter s s1 n" and "adv s1 s2 bs" and "ready s2" and "list_end_with v s2 = (s', Inr v')"
  shows "v' = v \<and> adv s s' (enc_seq bs) \<and> ready s'"
proof -
  have st: "stk s2 = (n - word_of_nat (length bs)) # sub_top (length (header List n 0) + unat n) (stk s)"
    using assms(1,2) by (simp add: enter_def adv_def sub_top_def)
  with assms(4) have z: "n - word_of_nat (length bs) = 0" and "v' = v"
    and s': "s' = s2\<lparr>stk := tl (stk s2), skind := None, ssize := 0\<rparr>"
    by (auto simp: list_end_with_def ListEnd_op_def listLimit_def word_gt_0 split: if_splits)
  have i1: "inp s = header List n 0 @ inp s1" "length (inp s1) < 2 ^ 63"
    using assms(1) unfolding enter_def ready_def base_def by blast+
  have i2: "inp s1 = bs @ inp s2" using assms(2) unfolding adv_def by blast
  then have "length bs \<le> length (inp s1)" by simp
  then have "length bs < 2 ^ 64" using i1(2) by simp
  moreover have nn: "word_of_nat (length bs) = n" using z by simp
  ultimately have n: "unat n = length bs" using unat_of_nat_small by blast
  have e: "enc_seq bs = header List n 0 @ bs" using nn by (simp add: enc_seq_def header_List)
  have "base s'" "skind s' = None" "inp s' = inp s2" using assms(3) unfolding s' ready_def base_def
    by auto
  moreover have "stk s' = sub_top (length (enc_seq bs)) (stk s)"
    unfolding s' e using st n by simp
  ultimately show ?thesis using i1 i2 e \<open>v' = v\<close> by (simp add: adv_def ready_def)
qed

lemma leave_ok:
  assumes "enter s s1 n" and "adv s1 s2 bs" and "ready s2" and "unat n = length bs"
  shows "\<exists>s'. list_end_with v s2 = (s', Inr v)"
proof -
  have "stk s2 = (n - word_of_nat (length bs)) # tl (stk s2)"
    using assms(1,2) by (simp add: enter_def adv_def sub_top_def)
  moreover have "n - word_of_nat (length bs) = 0" by (simp flip: assms(4))
  ultimately have "listLimit s2 = Some 0" by (metis listLimit_def list.simps(5))
  then show ?thesis by (simp add: list_end_with_def ListEnd_op_def)
qed

lemma list_end_err: "list_end_with v s = (s', Inl e) \<Longrightarrow> e \<notin> {EOL, OutOfFuel}"
  by (auto simp: list_end_with_def ListEnd_op_def split: option.splits if_splits)

text \<open>What it takes for the encoding of a list to be entered.\<close>

lemma enter_enc:
  assumes "ready s" and "inp s = enc_seq bs @ r" and "fits s (length (enc_seq bs))"
  shows "\<exists>s1. List_op s = (s1, Inr (word_of_nat (length bs))) \<and>
    enter s s1 (word_of_nat (length bs)) \<and> inp s1 = bs @ r \<and>
    unat (word_of_nat (length bs) :: u64) = length bs"
proof -
  let ?n = "word_of_nat (length bs) :: u64"
  have "length bs < 2 ^ 64" using assms(1,2) by (auto simp: ready_def base_def enc_seq_def)
  then have n: "unat ?n = length bs" by (rule unat_of_nat_small)
  have h: "enc_seq bs = header List ?n 0 @ bs" by (simp add: enc_seq_def header_List)
  obtain s1 where "List_op s = (s1, Inr ?n)" "enter s s1 ?n"
    using List_ok [OF assms(1), of ?n "bs @ r"] assms(2,3) n h by auto
  with h n assms(2) show ?thesis by (auto simp: enter_def)
qed

lemma enc_not_Nil: "enc v \<noteq> []"
  by (cases v) (auto simp: enc_uint_def enc_string_def enc_seq_def puthead_def Let_def)

lemma ready_length:
  assumes "ready s" and "inp s = a @ r"
  shows "length a < 2 ^ 63"
proof -
  have "length (inp s) < 2 ^ 63" using assms(1) unfolding ready_def base_def by blast
  with assms(2) show ?thesis by simp
qed

lemma ready_refl: "ready s \<Longrightarrow> adv s s []"
  by (simp add: ready_def adv_refl)

context codec
begin

lemma elems_sound:
  "ready s \<Longrightarrow> decodeSliceElems fuel d s acc = (s', Inr vs) \<Longrightarrow>
    \<exists>ws. vs = rev acc @ ws \<and> (\<forall>w\<in>set ws. good w) \<and> adv s s' (concat (map enc ws)) \<and> ready s'"
proof (induction fuel arbitrary: s acc)
  case (Suc fuel)
  show ?case
  proof (cases "d s")
    case (Pair s1 r)
    show ?thesis
    proof (cases r)
      case (Inl e)
      with Pair Suc.prems errors [OF Suc.prems(1), of s1 e] show ?thesis
        by (intro exI [of _ "[]"]) (auto simp: ready_refl split: if_splits)
    next
      case (Inr v)
      with Pair have v: "good v" "adv s s1 (enc v)" "ready s1"
        using sound [OF Suc.prems(1)] by auto
      from Suc.IH [OF v(3), of "v # acc"] Suc.prems(2) Pair Inr obtain ws where
          "vs = rev (v # acc) @ ws" "\<forall>w\<in>set ws. good w" "adv s1 s' (concat (map enc ws))" "ready s'"
        by auto
      with v adv_trans [OF v(2)] show ?thesis by (intro exI [of _ "v # ws"]) auto
    qed
  qed
qed simp

lemma elems_complete:
  "ready s \<Longrightarrow> inp s = concat (map enc ws) @ r \<Longrightarrow>
    stk s = word_of_nat (length (concat (map enc ws))) # ls \<Longrightarrow>
    \<forall>w\<in>set ws. good w \<Longrightarrow> length ws < fuel \<Longrightarrow>
    \<exists>s'. decodeSliceElems fuel d s acc = (s', Inr (rev acc @ ws)) \<and> adv s s' (concat (map enc ws)) \<and> ready s'"
proof (induction ws arbitrary: s acc fuel)
  case Nil
  then have "listLimit s = Some 0" by (simp add: listLimit_def)
  with Nil at_end [OF Nil.prems(1)] show ?case
    by (cases fuel) (auto simp: ready_refl)
next
  case (Cons w ws)
  let ?bs = "concat (map enc ws)"
  obtain k where k: "fuel = Suc k" "length ws < k" using Cons.prems(5) by (cases fuel) auto
  have "length (enc w @ ?bs) < 2 ^ 64"
    using ready_length [OF Cons.prems(1), of "enc w @ ?bs" r] Cons.prems(2) by simp
  then have "fits s (length (enc w))"
    using Cons.prems(3) unat_of_nat_small [of "length (enc w @ ?bs)"] by (simp add: fits_def)
  from complete [OF Cons.prems(1) _ this] Cons.prems(2,4) obtain s1 where
      s1: "d s = (s1, Inr w)" "adv s s1 (enc w)" "ready s1" by auto
  have i: "inp s1 = ?bs @ r" "stk s1 = word_of_nat (length ?bs) # ls"
    using s1(2) Cons.prems(2,3) by (simp_all add: adv_def sub_top_def)
  obtain s' where "decodeSliceElems k d s1 (w # acc) = (s', Inr (rev (w # acc) @ ws))"
      "adv s1 s' ?bs" "ready s'"
    using Cons.IH [OF s1(3) i _ k(2), of "w # acc"] Cons.prems(4) by auto
  with s1 k adv_trans [OF s1(2)] show ?case by simp
qed

text \<open>Every element takes at least one byte, so a fuel above the length of the input suffices.\<close>

lemma elems_fuel:
  "ready s \<Longrightarrow> length (inp s) < fuel \<Longrightarrow> decodeSliceElems fuel d s acc = (s', Inl e) \<Longrightarrow>
    e \<notin> {EOL, OutOfFuel}"
proof (induction fuel arbitrary: s acc)
  case (Suc fuel)
  show ?case
  proof (cases "d s")
    case (Pair s1 r)
    show ?thesis
    proof (cases r)
      case (Inl e1)
      with Pair Suc.prems errors [OF Suc.prems(1), of s1 e1] show ?thesis
        by (auto split: if_splits)
    next
      case (Inr v)
      with Pair have v: "adv s s1 (enc v)" "ready s1" using sound [OF Suc.prems(1)] by auto
      have "length (inp s) = length (enc v) + length (inp s1)" using v(1) by (simp add: adv_def)
      then have "length (inp s1) < fuel"
        using Suc.prems(2) enc_not_Nil [of v] by (cases "enc v") auto
      from Suc.IH [OF v(2) this, of "v # acc"] Suc.prems(3) Pair Inr show ?thesis by simp
    qed
  qed
qed simp

end

lemma fields_sound:
  "list_all2 codec fs gs \<Longrightarrow> ready s \<Longrightarrow> decodeFields fs s acc = (s', Inr vs) \<Longrightarrow>
    \<exists>ws. vs = rev acc @ ws \<and> list_all2 (\<lambda>g. g) gs ws \<and> adv s s' (concat (map enc ws)) \<and> ready s'"
proof (induction fs arbitrary: gs s acc)
  case Nil
  then show ?case by (auto simp: ready_refl)
next
  case (Cons f fs)
  obtain g gs' where g: "gs = g # gs'" "codec f g" "list_all2 codec fs gs'"
    using Cons.prems(1) by (auto simp: list_all2_Cons1)
  obtain s1 v where d: "f s = (s1, Inr v)"
    using Cons.prems(3) by (auto split: prod.splits sum.splits if_splits)
  have v: "g v" "adv s s1 (enc v)" "ready s1"
    using codec.sound [OF g(2) Cons.prems(2) d] by auto
  from Cons.IH [OF g(3) v(3), of "v # acc"] Cons.prems(3) d obtain ws where
      "vs = rev (v # acc) @ ws" "list_all2 (\<lambda>g. g) gs' ws"
      "adv s1 s' (concat (map enc ws))" "ready s'"
    by auto
  with g v adv_trans [OF v(2)] show ?case by (intro exI [of _ "v # ws"]) auto
qed

lemma fields_complete:
  "list_all2 codec fs gs \<Longrightarrow> list_all2 (\<lambda>g. g) gs ws \<Longrightarrow> ready s \<Longrightarrow>
    inp s = concat (map enc ws) @ r \<Longrightarrow> fits s (length (concat (map enc ws))) \<Longrightarrow>
    \<exists>s'. decodeFields fs s acc = (s', Inr (rev acc @ ws)) \<and> adv s s' (concat (map enc ws)) \<and> ready s'"
proof (induction fs arbitrary: gs ws s acc)
  case Nil
  then show ?case by (auto simp: ready_refl)
next
  case (Cons f fs)
  obtain g gs' where g: "gs = g # gs'" "codec f g" "list_all2 codec fs gs'"
    using Cons.prems(1) by (auto simp: list_all2_Cons1)
  obtain w ws' where w: "ws = w # ws'" "g w" "list_all2 (\<lambda>g. g) gs' ws'"
    using Cons.prems(2) g(1) by (auto simp: list_all2_Cons1)
  obtain s1 where s1: "f s = (s1, Inr w)" "adv s s1 (enc w)" "ready s1"
    using codec.complete [OF g(2) Cons.prems(3), of w "concat (map enc ws') @ r"] w(1,2)
      Cons.prems(4) fits_mono [OF Cons.prems(5)] by auto
  have "inp s1 = concat (map enc ws') @ r" using s1(2) Cons.prems(4) w(1) by (simp add: adv_def)
  moreover have "fits s1 (length (concat (map enc ws')))"
    using fits_adv [OF s1(2)] Cons.prems(5) w(1) by simp
  ultimately obtain s' where "decodeFields fs s1 (w # acc) = (s', Inr (rev (w # acc) @ ws'))"
      "adv s1 s' (concat (map enc ws'))" "ready s'"
    using Cons.IH [OF g(3) w(3) s1(3)] by blast
  with s1 w(1) adv_trans [OF s1(2)] show ?case by auto
qed

lemma fields_err:
  "list_all2 codec fs gs \<Longrightarrow> ready s \<Longrightarrow> decodeFields fs s acc = (s', Inl e) \<Longrightarrow> e \<notin> {EOL, OutOfFuel}"
proof (induction fs arbitrary: gs s acc)
  case (Cons f fs)
  obtain g gs' where g: "gs = g # gs'" "codec f g" "list_all2 codec fs gs'"
    using Cons.prems(1) by (auto simp: list_all2_Cons1)
  show ?case
  proof (cases "f s")
    case (Pair s1 r)
    show ?thesis
    proof (cases r)
      case (Inl e1)
      with Pair Cons.prems codec.errors [OF g(2) Cons.prems(2), of s1 e1] show ?thesis
        by (auto split: if_splits)
    next
      case (Inr v)
      with Pair have "ready s1" using codec.sound [OF g(2) Cons.prems(2), of s1 v] by auto
      with Cons.IH [OF g(3), of s1 "v # acc"] Cons.prems(3) Pair Inr show ?thesis by simp
    qed
  qed
qed simp

text \<open>
  A list decoder: enter, decode the elements with \<open>body\<close>, leave. The three list decoders share
  this shape, and the contract of \<open>body\<close> gives the contract of the whole.
\<close>

definition list_decoder ::
    "(u64 \<Rightarrow> stream \<Rightarrow> stream \<times> (rlp_err + rval list)) \<Rightarrow> (rval list \<Rightarrow> rval) \<Rightarrow> decoder" where
  "list_decoder body wrap s0 =
    (case List_op s0 of
       (s, Inl e) \<Rightarrow> (s, Inl e)
     | (s, Inr n) \<Rightarrow>
         (case body n s of
            (s1, Inl e) \<Rightarrow> (s1, Inl e)
          | (s1, Inr vs) \<Rightarrow> list_end_with (wrap vs) s1))"

lemma list_decoder_codec:
  assumes wrap: "\<And>vs. enc (wrap vs) = enc_seq (concat (map enc vs))"
    and good: "\<And>v. good v \<longleftrightarrow> (\<exists>vs. v = wrap vs \<and> ok vs)"
    and sound: "\<And>s s' n vs. ready s \<Longrightarrow> body n s = (s', Inr vs) \<Longrightarrow>
        (\<exists>ls. stk s = n # ls) \<Longrightarrow> ok vs \<and> adv s s' (concat (map enc vs)) \<and> ready s'"
    and complete: "\<And>s n vs r ls. ready s \<Longrightarrow> inp s = concat (map enc vs) @ r \<Longrightarrow> ok vs \<Longrightarrow>
        stk s = n # ls \<Longrightarrow> unat n = length (concat (map enc vs)) \<Longrightarrow>
        \<exists>s'. body n s = (s', Inr vs) \<and> adv s s' (concat (map enc vs)) \<and> ready s'"
    and errors: "\<And>s s' n e. ready s \<Longrightarrow> body n s = (s', Inl e) \<Longrightarrow> e \<notin> {EOL, OutOfFuel}"
  shows "codec (list_decoder body wrap) good"
proof
  fix s v r
  assume a: "ready s" "inp s = enc v @ r" "fits s (length (enc v))" "good v"
  then obtain vs where v: "v = wrap vs" "ok vs" using good by blast
  let ?bs = "concat (map enc vs)"
  obtain s1 where s1: "List_op s = (s1, Inr (word_of_nat (length ?bs)))"
      "enter s s1 (word_of_nat (length ?bs))" "inp s1 = ?bs @ r"
      "unat (word_of_nat (length ?bs) :: u64) = length ?bs"
    using enter_enc [OF a(1), of ?bs r] a(2,3) v(1) wrap by auto
  then obtain s2 where s2: "body (word_of_nat (length ?bs)) s1 = (s2, Inr vs)" "adv s1 s2 ?bs" "ready s2"
    using complete [OF _ s1(3) v(2) _ s1(4)] unfolding enter_def by blast
  obtain s' where s': "list_end_with v s2 = (s', Inr v)"
    using leave_ok [OF s1(2) s2(2,3) s1(4)] by blast
  with leave [OF s1(2) s2(2,3) s'] s1 s2 v wrap
  show "\<exists>s'. list_decoder body wrap s = (s', Inr v) \<and> adv s s' (enc v) \<and> ready s'"
    by (simp add: list_decoder_def)
next
  fix s s' v
  assume a: "ready s" "list_decoder body wrap s = (s', Inr v)"
  then obtain s1 n s2 vs where l: "List_op s = (s1, Inr n)" "body n s1 = (s2, Inr vs)"
      "list_end_with (wrap vs) s2 = (s', Inr v)"
    by (auto simp: list_decoder_def split: prod.splits sum.splits)
  have e: "enter s s1 n" by (rule List_inv [OF a(1) l(1)])
  have "ok vs \<and> adv s1 s2 (concat (map enc vs)) \<and> ready s2"
    using sound [OF _ l(2)] e unfolding enter_def by blast
  with leave [OF e _ _ l(3)] wrap good show "good v \<and> adv s s' (enc v) \<and> ready s'" by auto
next
  fix s :: stream
  assume "ready s" "listLimit s = Some 0"
  then show "list_decoder body wrap s = (s, Inl EOL)" by (simp add: list_decoder_def List_end)
next
  fix s s' e
  assume a: "ready s" "list_decoder body wrap s = (s', Inl e)"
  then consider "List_op s = (s', Inl e)" | s1 n where "List_op s = (s1, Inr n)" "body n s1 = (s', Inl e)"
    | v s1 where "list_end_with v s1 = (s', Inl e)"
    by (auto simp: list_decoder_def split: prod.splits sum.splits)
  then show "e \<noteq> OutOfFuel \<and> (e = EOL \<longrightarrow> s' = s \<and> listLimit s = Some 0)"
  proof cases
    case 1
    with List_err [OF a(1)] show ?thesis .
  next
    case 2
    with List_inv [OF a(1)] have "ready s1" unfolding enter_def by blast
    with errors 2(2) show ?thesis by blast
  next
    case 3
    with list_end_err show ?thesis by blast
  qed
qed

lemma struct_codec:
  assumes "list_all2 codec fs gs" and "\<And>v. good v \<longleftrightarrow> (\<exists>vs. v = VStruct vs \<and> list_all2 (\<lambda>g. g) gs vs)"
  shows "codec (decodeStruct fs) good"
proof -
  have "decodeStruct fs = list_decoder (\<lambda>n s. decodeFields fs s []) VStruct"
    by (simp add: decodeStruct_def list_decoder_def fun_eq_iff)
  moreover have "codec (list_decoder (\<lambda>n s. decodeFields fs s []) VStruct) good"
  proof (rule list_decoder_codec)
    fix s n vs r ls
    assume a: "ready s" "inp s = concat (map enc vs) @ r" "list_all2 (\<lambda>g. g) gs vs"
      "stk s = n # ls" "unat n = length (concat (map enc vs))"
    then have "fits s (length (concat (map enc vs)))" by (simp add: fits_def)
    from fields_complete [OF assms(1) a(3,1,2) this, of "[]"]
    show "\<exists>s'. decodeFields fs s [] = (s', Inr vs) \<and> adv s s' (concat (map enc vs)) \<and> ready s'" by simp
  qed (use assms(2) fields_sound [OF assms(1), where acc = "[]"] fields_err [OF assms(1)] in auto)
  ultimately show ?thesis by simp
qed

lemma arrayElems_fields: "decodeArrayElems k d s acc = decodeFields (replicate k d) s acc"
  by (induction k arbitrary: s acc) (simp_all cong: if_cong sum.case_cong)

lemma all_replicate: "list_all2 (\<lambda>g. g) (replicate k g) vs \<longleftrightarrow> length vs = k \<and> (\<forall>v\<in>set vs. g v)"
  by (induction k arbitrary: vs) (auto simp: list_all2_Cons1 length_Suc_conv)

lemma array_codec:
  assumes "codec d g" and "\<And>v. good v \<longleftrightarrow> (\<exists>vs. v = VSlice vs \<and> length vs = k \<and> (\<forall>v\<in>set vs. g v))"
  shows "codec (decodeListArray k d) good"
proof -
  have c: "list_all2 codec (replicate k d) (replicate k g)"
    using assms(1) by (simp add: list_all2_conv_all_nth)
  have "decodeListArray k d = list_decoder (\<lambda>n s. decodeFields (replicate k d) s []) VSlice"
    by (rule ext) (simp only: decodeListArray_def list_decoder_def arrayElems_fields)
  moreover have "codec (list_decoder (\<lambda>n s. decodeFields (replicate k d) s []) VSlice) good"
  proof (rule list_decoder_codec [where ok = "list_all2 (\<lambda>g. g) (replicate k g)"])
    fix s n vs r ls
    assume a: "ready s" "inp s = concat (map enc vs) @ r" "list_all2 (\<lambda>g. g) (replicate k g) vs"
      "stk s = n # ls" "unat n = length (concat (map enc vs))"
    then have "fits s (length (concat (map enc vs)))" by (simp add: fits_def)
    from fields_complete [OF c a(3,1,2) this, of "[]"]
    show "\<exists>s'. decodeFields (replicate k d) s [] = (s', Inr vs) \<and>
        adv s s' (concat (map enc vs)) \<and> ready s'" by simp
  qed (use assms(2) fields_sound [OF c, where acc = "[]"] fields_err [OF c] in
      \<open>auto simp: all_replicate\<close>)
  ultimately show ?thesis by simp
qed

lemma length_elems: "length vs \<le> length (concat (map enc vs))"
proof (induction vs)
  case (Cons v vs)
  then show ?case using enc_not_Nil [of v] by (cases "enc v") auto
qed simp

lemma slice_codec:
  assumes "codec d g" and "\<And>v. good v \<longleftrightarrow> (\<exists>vs. v = VSlice vs \<and> (\<forall>v\<in>set vs. g v))"
  shows "codec (decodeListSlice d) good"
proof -
  define body where "body = (\<lambda>(n :: u64) s. if n = 0 then (s, Inr [])
      else decodeSliceElems (Suc (length (inp s))) d s [])"
  have "decodeListSlice d = list_decoder body VSlice"
    by (auto simp: decodeListSlice_def list_decoder_def body_def fun_eq_iff
        split: prod.splits sum.splits)
  moreover have "codec (list_decoder body VSlice) good"
  proof (rule list_decoder_codec [where ok = "\<lambda>vs. \<forall>v\<in>set vs. g v"])
    fix s s' n vs
    assume "ready s" "body n s = (s', Inr vs)"
    then show "(\<forall>v\<in>set vs. g v) \<and> adv s s' (concat (map enc vs)) \<and> ready s'"
      using codec.elems_sound [OF assms(1), of s "Suc (length (inp s))" "[]" s' vs]
      by (auto simp: body_def ready_refl split: if_splits)
  next
    fix s n vs r ls
    assume a: "ready s" "inp s = concat (map enc vs) @ r" "\<forall>v\<in>set vs. g v"
      "stk s = n # ls" "unat n = length (concat (map enc vs))"
    have f: "length vs < Suc (length (inp s))" using a(2) length_elems [of vs] by simp
    have n: "n = word_of_nat (length (concat (map enc vs)))" by (simp flip: a(5))
    show "\<exists>s'. body n s = (s', Inr vs) \<and> adv s s' (concat (map enc vs)) \<and> ready s'"
    proof (cases "n = 0")
      case True
      with length_elems [of vs, folded a(5)] have "vs = []" by simp
      with True a(1) show ?thesis by (simp add: body_def ready_refl)
    next
      case False
      with codec.elems_complete [OF assms(1) a(1,2) a(4) [unfolded n] a(3) f, of "[]"]
      show ?thesis by (simp add: body_def)
    qed
  next
    fix s s' n e
    assume "ready s" "body n s = (s', Inl e)"
    then show "e \<notin> {EOL, OutOfFuel}"
      using codec.elems_fuel [OF assms(1), of s "Suc (length (inp s))" "[]" s' e]
      by (auto simp: body_def split: if_splits)
  qed (use assms(2) in auto)
  ultimately show ?thesis by simp
qed

lemma decode_codec: "go_type t \<Longrightarrow> codec (decode t) (has_type t)"
proof (induction t)
  case (TSlice t)
  have "has_type (TSlice t) v \<longleftrightarrow> (\<exists>vs. v = VSlice vs \<and> (\<forall>v\<in>set vs. has_type t v))" for v
    by (cases v) auto
  with TSlice show ?case by (simp add: slice_codec)
next
  case (TArray n t)
  have "has_type (TArray n t) v \<longleftrightarrow>
      (\<exists>vs. v = VSlice vs \<and> length vs = n \<and> (\<forall>v\<in>set vs. has_type t v))" for v
    by (cases v) auto
  with TArray show ?case by (simp add: array_codec)
next
  case (TStruct ts)
  have "has_type (TStruct ts) v \<longleftrightarrow>
      (\<exists>vs. v = VStruct vs \<and> list_all2 (\<lambda>g. g) (map has_type ts) vs)" for v
    by (cases v) (auto simp: list_all2_map1)
  moreover have "list_all2 codec (map decode ts) (map has_type ts)"
    using TStruct by (auto simp: list_all2_conv_all_nth)
  ultimately show ?case by (simp add: struct_codec)
qed (use uint_codec bool_codec big_codec byte_slice_codec byte_array_codec in auto)

interpretation uint64: codec "decodeUint 64" "has_type (TUint 64)"
  by (rule uint_codec) simp

interpretation hash32: codec "decodeByteArray 32" "has_type (TArr 32)"
  by (rule byte_array_codec) simp

interpretation payload: codec decodeByteSlice "has_type TBytes"
  by (rule byte_slice_codec)

section \<open>Whole inputs\<close>

lemma Reset_ready: "length b < 2 ^ 63 \<Longrightarrow> ready (stream_Reset b (word_of_nat (length b)))"
  by (auto simp: ready_def base_def stream_Reset_def word_gt_0)

lemma Reset_simps [simp]: "inp (stream_Reset b n) = b" "stk (stream_Reset b n) = []"
  by (simp_all add: stream_Reset_def)

lemma DecodeBytes_enc:
  assumes "go_type t" and "has_type t v" and "length (enc v) < 2 ^ 63"
  shows "DecodeBytes t (enc v) = Inr v"
proof -
  let ?s = "stream_Reset (enc v) (word_of_nat (length (enc v)))"
  obtain s' where "decode t ?s = (s', Inr v)" "adv ?s s' (enc v)"
    using codec.complete [OF decode_codec [OF assms(1)] Reset_ready [OF assms(3)], of v "[]"] assms(2)
    by (auto simp: fits_def)
  then show ?thesis by (simp add: DecodeBytes_def adv_def)
qed

lemma DecodeBytes_canonical:
  assumes "go_type t" and "length b < 2 ^ 63" and "DecodeBytes t b = Inr v"
  shows "has_type t v \<and> b = enc v"
proof -
  let ?s = "stream_Reset b (word_of_nat (length b))"
  obtain s' where "decode t ?s = (s', Inr v)" "inp s' = []"
    using assms(3) by (auto simp: DecodeBytes_def split: prod.splits sum.splits if_splits)
  with codec.sound [OF decode_codec [OF assms(1)] Reset_ready [OF assms(2)]] show ?thesis
    by (auto simp: adv_def)
qed

lemma DecodeBytes_fuel:
  assumes "go_type t" and "length b < 2 ^ 63"
  shows "DecodeBytes t b \<noteq> Inl OutOfFuel"
  using codec.errors [OF decode_codec [OF assms(1)] Reset_ready [OF assms(2)]]
  by (auto simp: DecodeBytes_def split: prod.splits sum.splits if_splits)

text \<open>\<open>Raw\<close> rebuilds the header it has read: its result is exactly the input it consumed.\<close>

lemma Raw_consumed:
  assumes "ready s" and "Raw_op s = (s', Inr b)"
  shows "adv s s' b \<and> ready s'"
proof -
  obtain s1 k n where k: "Kind_op s = (s1, Inr (k, n))"
    using assms(2) by (auto simp: Raw_op_def split: prod.splits sum.splits)
  have h: "adv s s1 (header k n (byteval s1))" using Kind_inv [OF assms(1) k] by blast
  show ?thesis
  proof (cases "k = Byte")
    case True
    with assms(2) k h show ?thesis
      by (auto simp: Raw_op_def header_def intro: rearm_adv ready_rearm adv_base)
  next
    case False
    with assms(2) k obtain c where c: "readFull (unat n) s1 = (s', Inr c)"
        "b = (if k = String then puthead 0x80 0xB7 n else puthead 0xC0 0xF7 n) @ c"
      by (auto simp: Raw_op_def split: prod.splits sum.splits)
    have f: "adv s1 s' c" "skind s' = None"
      using readFull_inv [OF adv_base [OF h] _ c(1)] unat_u64_less by auto
    moreover have "b = header k n (byteval s1) @ c" using c(2) False by (cases k) (auto simp: header_def)
    ultimately show ?thesis using adv_trans [OF h f(1)] adv_base [OF f(1)] by (simp add: ready_def)
  qed
qed

end
