(* ===== verification/Pos_Types.thy ===== *)
theory Pos_Types
  imports Common_Bytes Rlp_Codec
begin

text \<open>
  Data of the proof-of-stake consensus (\<open>consensus/proofofstake\<close>): constants, errors, the
  packets on the wire and what is decoded from them, the hashes the votes are about, the clock
  functions, and the environment of the handlers.

  Environment. What the code takes from outside the repository, or from the node it runs in, is
  a field of \<open>penv\<close>: the Keccak permutation, the signature scheme, the ChaCha20 key stream, the
  functions the engine installs (validator lists, consensus context, finalized transactions),
  the answers of the network handler and of the file system. Time is the argument \<open>now\<close> in milliseconds since the
  epoch; one handler call reads it once.

  A run-time panic is the error \<open>Panic\<close>, a loop that never ends the error \<open>Diverges\<close>.
\<close>

unbundle bit_operations_syntax

section \<open>Errors and the environment\<close>

datatype perr = OutOfOrderPackerErr | UnknownParentHashErr | InvalidPacketErr
  | ErrText string | RlpErr rlp_err | Panic string | Diverges

text \<open>The fields of \<open>ValidatorDetailsV2\<close> (\<open>validator.go\<close>) that the consensus reads.\<close>

record valdetails =
  IsValidationPaused :: bool
  LastNiLBlock :: int
  NilBlockCount :: int

text \<open>\<open>ConsensusPacket\<close> of \<open>eth/protocols/eth/protocol.go\<close>.\<close>

record packet =
  ParentHash :: hash
  Signature :: bytes
  ConsensusData :: bytes

record penv =
  keccak :: "bytes \<Rightarrow> bytes"
  keystream :: "bytes \<Rightarrow> bytes \<Rightarrow> nat \<Rightarrow> byte"
  pubKeyFromSig :: "bytes \<Rightarrow> bytes \<Rightarrow> bytes option"
  sigVerify :: "bytes \<Rightarrow> bytes \<Rightarrow> bytes \<Rightarrow> bool"
  pubKeyFromSigCtx :: "bytes \<Rightarrow> bytes \<Rightarrow> bytes \<Rightarrow> bytes option"
  sigVerifyCtx :: "bytes \<Rightarrow> bytes \<Rightarrow> bytes \<Rightarrow> bytes \<Rightarrow> bool"
  pubKeyToAddress :: "bytes \<Rightarrow> address option"
  sigWithPubKeyLength :: nat
  signFn :: "(bytes \<Rightarrow> perr + bytes) option"
  signFnWithContext :: "bytes \<Rightarrow> bytes \<Rightarrow> perr + bytes"
  getValidatorsFn :: "hash \<Rightarrow> perr + (address, int) gomap"
  listValidatorsFn :: "hash \<Rightarrow> perr + (address, valdetails) gomap"
  getBlockConsensusContext :: "string \<Rightarrow> hash \<Rightarrow> perr + bytes"
  doesFinalizedTransactionExistFn :: "hash \<Rightarrow> perr + bool"
  requestTransactions :: "hash list \<Rightarrow> perr option"
  sendConsensusPacket :: "string list \<Rightarrow> packet \<Rightarrow> perr option"
  breakglassFile :: "u64 \<Rightarrow> bool"
  skipHashCheck :: bool
  readHashErr :: "perr option"
  saveHashErr :: "perr option"
  writeHashErr :: "perr option"
  floatOverflow :: "nat \<Rightarrow> u64"
  MIN_VALIDATORS :: nat

section \<open>Constants\<close>

abbreviation Ether :: int where "Ether \<equiv> 1000000000000000000"

definition EtherToWei :: "int \<Rightarrow> int" where
  "EtherToWei val = val * Ether"

definition MIN_VALIDATOR_DEPOSIT :: int where
  "MIN_VALIDATOR_DEPOSIT = EtherToWei 5000000"

definition MIN_BLOCK_DEPOSIT :: int where
  "MIN_BLOCK_DEPOSIT = EtherToWei 500000000000"

definition MIN_PERCENTAGE :: int where
  "MIN_PERCENTAGE = 70"

definition MIN_PERCENTAGE_V2 :: int where
  "MIN_PERCENTAGE_V2 = 60"

definition ZERO_HASH :: hash where
  "ZERO_HASH = replicate 32 0"

definition ZERO_ADDRESS :: address where
  "ZERO_ADDRESS = replicate 32 0"

abbreviation BLOCK_TIMEOUT_MS :: int where "BLOCK_TIMEOUT_MS \<equiv> 60000"
abbreviation FULL_BLOCK_TIMEOUT_MS :: int where "FULL_BLOCK_TIMEOUT_MS \<equiv> 90000"
abbreviation ACK_BLOCK_TIMEOUT_MS :: int where "ACK_BLOCK_TIMEOUT_MS \<equiv> 300000"
abbreviation BLOCK_CLEANUP_TIME_MS :: int where "BLOCK_CLEANUP_TIME_MS \<equiv> 900000"
abbreviation MAX_ROUND :: byte where "MAX_ROUND \<equiv> 2"
abbreviation BROADCAST_RESEND_DELAY :: int where "BROADCAST_RESEND_DELAY \<equiv> 10000"
abbreviation BROADCAST_CLEANUP_DELAY :: int where "BROADCAST_CLEANUP_DELAY \<equiv> 1800000"
abbreviation CONSENSUS_DATA_REQUEST_RESEND_DELAY :: int where
  "CONSENSUS_DATA_REQUEST_RESEND_DELAY \<equiv> 30000"
abbreviation STARTUP_DELAY_MS :: int where "STARTUP_DELAY_MS \<equiv> 120000"
abbreviation BLOCK_PERIOD_TIME_CHANGE :: u64 where "BLOCK_PERIOD_TIME_CHANGE \<equiv> 64"
abbreviation MAX_VALIDATORS :: nat where "MAX_VALIDATORS \<equiv> 128"

abbreviation FULL_SIGN_PROPOSAL_CUTOFF_BLOCK :: u64 where
  "FULL_SIGN_PROPOSAL_CUTOFF_BLOCK \<equiv> 421888"
abbreviation FULL_SIGN_PROPOSAL_FREQUENCY_BLOCKS :: u64 where
  "FULL_SIGN_PROPOSAL_FREQUENCY_BLOCKS \<equiv> 4096"
abbreviation CONSENSUS_CONTEXT_START_BLOCK :: u64 where
  "CONSENSUS_CONTEXT_START_BLOCK \<equiv> 421888"
abbreviation CONSENSUS_CONTEXT_MAX_BLOCK_COUNT :: u64 where
  "CONSENSUS_CONTEXT_MAX_BLOCK_COUNT \<equiv> 512000"
abbreviation VALIDATOR_NIL_BLOCK_START_BLOCK :: u64 where
  "VALIDATOR_NIL_BLOCK_START_BLOCK \<equiv> 421889"
abbreviation BLOCK_PROPOSER_NIL_BLOCK_START_BLOCK :: u64 where
  "BLOCK_PROPOSER_NIL_BLOCK_START_BLOCK \<equiv> 421905"
abbreviation CONTEXT_BASED_START_BLOCK :: u64 where "CONTEXT_BASED_START_BLOCK \<equiv> 536000"
abbreviation CONTEXT_BASED_BLOCK_THRESHOLD :: u64 where "CONTEXT_BASED_BLOCK_THRESHOLD \<equiv> 64000"
abbreviation BLOCK_TIME_ORIG_START_BLOCK :: u64 where "BLOCK_TIME_ORIG_START_BLOCK \<equiv> 536001"
abbreviation PACKET_PROTOCOL_START_BLOCK :: u64 where "PACKET_PROTOCOL_START_BLOCK \<equiv> 536033"
abbreviation PROPOSAL_TIME_HASH_START_BLOCK :: u64 where
  "PROPOSAL_TIME_HASH_START_BLOCK \<equiv> 1507600"
abbreviation BLOCK_PROPOSER_OFFLINE_V2_START_BLOCK :: u64 where
  "BLOCK_PROPOSER_OFFLINE_V2_START_BLOCK \<equiv> 1597600"
abbreviation SixtyVoteStartBlock :: u64 where "SixtyVoteStartBlock \<equiv> 1386825"

abbreviation VOTE_TYPE_OK :: byte where "VOTE_TYPE_OK \<equiv> 1"
abbreviation VOTE_TYPE_NIL :: byte where "VOTE_TYPE_NIL \<equiv> 2"

abbreviation CONSENSUS_PACKET_TYPE_PROPOSE_BLOCK :: byte where
  "CONSENSUS_PACKET_TYPE_PROPOSE_BLOCK \<equiv> 0"
abbreviation CONSENSUS_PACKET_TYPE_ACK_BLOCK_PROPOSAL :: byte where
  "CONSENSUS_PACKET_TYPE_ACK_BLOCK_PROPOSAL \<equiv> 1"
abbreviation CONSENSUS_PACKET_TYPE_PRECOMMIT_BLOCK :: byte where
  "CONSENSUS_PACKET_TYPE_PRECOMMIT_BLOCK \<equiv> 2"
abbreviation CONSENSUS_PACKET_TYPE_COMMIT_BLOCK :: byte where
  "CONSENSUS_PACKET_TYPE_COMMIT_BLOCK \<equiv> 3"
abbreviation CONSENSUS_PACKET_TYPE_CAPABILITY :: byte where "CONSENSUS_PACKET_TYPE_CAPABILITY \<equiv> 6"
abbreviation CONSENSUS_PACKET_TYPE_SYNC :: byte where "CONSENSUS_PACKET_TYPE_SYNC \<equiv> 7"

abbreviation MinConsensusNetworkProtocolVersion :: byte where
  "MinConsensusNetworkProtocolVersion \<equiv> 5"
abbreviation ConsensusNetworkProtocolVersion :: byte where "ConsensusNetworkProtocolVersion \<equiv> 5"

abbreviation CRYPTO_SIGNATURE_BYTES :: nat where "CRYPTO_SIGNATURE_BYTES \<equiv> 2558"

section \<open>Percentages and contexts\<close>

definition SafeRelativePercentageBigInt :: "int \<Rightarrow> int \<Rightarrow> int" where
  "SafeRelativePercentageBigInt tot percentage = tot * percentage div 100"

text \<open>
  \<open>Hex2Bytes\<close> drops the error of the decoder and returns the bytes before the first malformed pair.
\<close>

definition GENESIS_BLOCK_HASH :: string where
  "GENESIS_BLOCK_HASH = ''0x2c8127f13d50434052128a88c9c9f79a27d44a1145e51f6fd250b6e247369e99''"

definition FULL_SIGN_CONTEXT :: bytes where
  "FULL_SIGN_CONTEXT = Hex2Bytes GENESIS_BLOCK_HASH @ [2]"

definition str_bytes :: "string \<Rightarrow> bytes" where
  "str_bytes s = map (\<lambda>c. word_of_nat (of_char c)) s"

text \<open>Decimal digits, as \<open>strconv.Itoa\<close> and \<open>strconv.FormatUint(_, 10)\<close> write them.\<close>

fun itoa :: "nat \<Rightarrow> string" where
  "itoa n = (if n < 10 then [char_of (48 + n)] else itoa (n div 10) @ [char_of (48 + n mod 10)])"

declare itoa.simps [simp del]

section \<open>The states of a round\<close>

datatype BlockRoundState = UNKNOWN | WAITING_FOR_PROPOSAL | WAITING_FOR_PROPOSAL_ACKS
  | WAITING_FOR_PRECOMMITS | WAITING_FOR_COMMITS | RECEIVED_COMMITS

text \<open>The constants are the bytes 0 to 5; the code compares them with \<open>>=\<close>.\<close>

fun state_rank :: "BlockRoundState \<Rightarrow> nat" where
  "state_rank UNKNOWN = 0"
| "state_rank WAITING_FOR_PROPOSAL = 1"
| "state_rank WAITING_FOR_PROPOSAL_ACKS = 2"
| "state_rank WAITING_FOR_PRECOMMITS = 3"
| "state_rank WAITING_FOR_COMMITS = 4"
| "state_rank RECEIVED_COMMITS = 5"

lemma state_rank_inj: "state_rank a = state_rank b \<Longrightarrow> a = b"
  by (cases a; cases b; simp)

instantiation BlockRoundState :: linorder
begin

definition less_eq_BlockRoundState :: "BlockRoundState \<Rightarrow> BlockRoundState \<Rightarrow> bool" where
  "less_eq_BlockRoundState a b \<longleftrightarrow> state_rank a \<le> state_rank b"

definition less_BlockRoundState :: "BlockRoundState \<Rightarrow> BlockRoundState \<Rightarrow> bool" where
  "less_BlockRoundState a b \<longleftrightarrow> state_rank a < state_rank b"

instance
  by standard (auto simp: less_eq_BlockRoundState_def less_BlockRoundState_def dest: state_rank_inj)

end

lemmas state_order = less_eq_BlockRoundState_def less_BlockRoundState_def

section \<open>Packets\<close>

text \<open>\<open>eth.NewConsensusPacket\<close> makes a deep copy.\<close>

definition NewConsensusPacket :: "packet \<Rightarrow> packet" where
  "NewConsensusPacket other =
    \<lparr>ParentHash = ParentHash other, Signature = Signature other,
     ConsensusData = ConsensusData other\<rparr>"

definition Keccak256Hash :: "penv \<Rightarrow> bytes \<Rightarrow> hash" where
  "Keccak256Hash env data = keccak env data"

definition packet_Hash :: "penv \<Rightarrow> packet \<Rightarrow> hash" where
  "packet_Hash env c = Keccak256Hash env (ConsensusData c @ ParentHash c @ Signature c)"

text \<open>
  The header of \<open>ConsensusData\<close>: a protocol version from 5 on is followed by the packet type,
  otherwise the first byte is the type. Indexing past the end panics.
\<close>

definition startIndex :: "bytes \<Rightarrow> nat" where
  "startIndex data = (if hd data \<ge> MinConsensusNetworkProtocolVersion then 2 else 1)"

definition getPacketType :: "packet \<Rightarrow> perr + byte" where
  "getPacketType packet =
    (if length (ConsensusData packet) < startIndex (ConsensusData packet)
     then Inl (Panic ''index out of range'')
     else Inr (ConsensusData packet ! (startIndex (ConsensusData packet) - 1)))"

definition packetBody :: "packet \<Rightarrow> bytes" where
  "packetBody packet = drop (startIndex (ConsensusData packet)) (ConsensusData packet)"

record proposalDetails =
  Txns :: "hash list"
  PRound :: byte
  BlockTime :: u64

record proposalAckDetails =
  ProposalHash :: hash
  ProposalAckVoteType :: byte
  ARound :: byte

record preCommitDetails =
  PrecommitHash :: hash
  PCRound :: byte

record commitDetails =
  CommitHash :: hash
  CRound :: byte

record requestDetails =
  RequestProposal :: bool
  ReqProposalAcks :: "address list"
  ReqPrecommits :: "address list"
  ReqCommits :: "address list"
  RRound :: byte

text \<open>The RLP types and values of the details (the exported fields, in the order of the struct).\<close>

definition T_Proposal :: rtyp where
  "T_Proposal = TStruct [TSlice (TArr 32), TUint 8, TUint 64]"

definition T_Ack :: rtyp where
  "T_Ack = TStruct [TArr 32, TUint 8, TUint 8]"

definition T_HashRound :: rtyp where
  "T_HashRound = TStruct [TArr 32, TUint 8]"

definition T_Request :: rtyp where
  "T_Request = TStruct [TBool, TSlice (TArr 32), TSlice (TArr 32), TSlice (TArr 32), TUint 8]"

definition V_Proposal :: "proposalDetails \<Rightarrow> rval" where
  "V_Proposal d = VStruct [VSlice (map VArray (Txns d)), VUint (ucast (PRound d)), VUint (BlockTime d)]"

definition V_Ack :: "proposalAckDetails \<Rightarrow> rval" where
  "V_Ack d = VStruct [VArray (ProposalHash d), VUint (ucast (ProposalAckVoteType d)),
     VUint (ucast (ARound d))]"

definition V_Precommit :: "preCommitDetails \<Rightarrow> rval" where
  "V_Precommit d = VStruct [VArray (PrecommitHash d), VUint (ucast (PCRound d))]"

definition V_Commit :: "commitDetails \<Rightarrow> rval" where
  "V_Commit d = VStruct [VArray (CommitHash d), VUint (ucast (CRound d))]"

definition V_Request :: "requestDetails \<Rightarrow> rval" where
  "V_Request d = VStruct [VBool (RequestProposal d), VSlice (map VArray (ReqProposalAcks d)),
     VSlice (map VArray (ReqPrecommits d)), VSlice (map VArray (ReqCommits d)),
     VUint (ucast (RRound d))]"

fun array_bytes :: "rval \<Rightarrow> bytes" where
  "array_bytes (VArray b) = b"
| "array_bytes _ = []"

fun proposal_of :: "rval \<Rightarrow> proposalDetails option" where
  "proposal_of (VStruct [VSlice hs, VUint r, VUint t]) =
    Some \<lparr>Txns = map array_bytes hs, PRound = ucast r, BlockTime = t\<rparr>"
| "proposal_of _ = None"

fun ack_of :: "rval \<Rightarrow> proposalAckDetails option" where
  "ack_of (VStruct [VArray h, VUint v, VUint r]) =
    Some \<lparr>ProposalHash = h, ProposalAckVoteType = ucast v, ARound = ucast r\<rparr>"
| "ack_of _ = None"

fun precommit_of :: "rval \<Rightarrow> preCommitDetails option" where
  "precommit_of (VStruct [VArray h, VUint r]) = Some \<lparr>PrecommitHash = h, PCRound = ucast r\<rparr>"
| "precommit_of _ = None"

fun commit_of :: "rval \<Rightarrow> commitDetails option" where
  "commit_of (VStruct [VArray h, VUint r]) = Some \<lparr>CommitHash = h, CRound = ucast r\<rparr>"
| "commit_of _ = None"

fun request_of :: "rval \<Rightarrow> requestDetails option" where
  "request_of (VStruct [VBool p, VSlice a, VSlice b, VSlice c, VUint r]) =
    Some \<lparr>RequestProposal = p, ReqProposalAcks = map array_bytes a,
      ReqPrecommits = map array_bytes b, ReqCommits = map array_bytes c, RRound = ucast r\<rparr>"
| "request_of _ = None"

text \<open>\<open>rlp.DecodeBytes(data, &details)\<close> and \<open>rlp.EncodeToBytes(details)\<close>.\<close>

definition decodeDetails :: "rtyp \<Rightarrow> (rval \<Rightarrow> 'a option) \<Rightarrow> bytes \<Rightarrow> perr + 'a" where
  "decodeDetails t conv b =
    (case DecodeBytes t b of
       Inl e \<Rightarrow> Inl (RlpErr e)
     | Inr v \<Rightarrow> (case conv v of Some d \<Rightarrow> Inr d | None \<Rightarrow> Inl (Panic ''reflect'')))"

abbreviation decodeProposal :: "bytes \<Rightarrow> perr + proposalDetails" where
  "decodeProposal \<equiv> decodeDetails T_Proposal proposal_of"
abbreviation decodeAck :: "bytes \<Rightarrow> perr + proposalAckDetails" where
  "decodeAck \<equiv> decodeDetails T_Ack ack_of"
abbreviation decodePrecommit :: "bytes \<Rightarrow> perr + preCommitDetails" where
  "decodePrecommit \<equiv> decodeDetails T_HashRound precommit_of"
abbreviation decodeCommit :: "bytes \<Rightarrow> perr + commitDetails" where
  "decodeCommit \<equiv> decodeDetails T_HashRound commit_of"
abbreviation decodeRequest :: "bytes \<Rightarrow> perr + requestDetails" where
  "decodeRequest \<equiv> decodeDetails T_Request request_of"

definition encodeDetails :: "rval \<Rightarrow> perr + bytes" where
  "encodeDetails v = (case EncodeToBytes v of Inl e \<Rightarrow> Inl (RlpErr e) | Inr b \<Rightarrow> Inr b)"

section \<open>The hashes that are voted on\<close>

definition combinedTxns :: "hash list \<Rightarrow> bytes" where
  "combinedTxns txns = concat (sort_key (\<lambda>h. h) txns)"

definition GetCombinedTxnHash :: "penv \<Rightarrow> hash \<Rightarrow> byte \<Rightarrow> hash list \<Rightarrow> hash" where
  "GetCombinedTxnHash env parentHash round txns =
    Keccak256Hash env (combinedTxns txns @ parentHash @ [round])"

definition GetCombinedTxnHashWithTime :: "penv \<Rightarrow> hash \<Rightarrow> byte \<Rightarrow> hash list \<Rightarrow> u64 \<Rightarrow> hash" where
  "GetCombinedTxnHashWithTime env parentHash round txns proposedBlockTime =
    Keccak256Hash env (combinedTxns txns @ parentHash @ [round] @ Uint64ToBytes proposedBlockTime)"

definition getNilVoteProposalHash :: "penv \<Rightarrow> hash \<Rightarrow> byte \<Rightarrow> hash" where
  "getNilVoteProposalHash env parentHash round =
    Keccak256Hash env (parentHash @ str_bytes ''proposal'' @ ZERO_HASH @ [round] @ [VOTE_TYPE_NIL])"

definition getCommitHash :: "penv \<Rightarrow> hash \<Rightarrow> hash" where
  "getCommitHash env precommitHash = Keccak256Hash env precommitHash"

definition getOkVotePreCommitHash :: "penv \<Rightarrow> hash \<Rightarrow> hash \<Rightarrow> byte \<Rightarrow> hash" where
  "getOkVotePreCommitHash env parentHash proposalHash round =
    Keccak256Hash env (parentHash @ proposalHash @ [round] @ [VOTE_TYPE_OK])"

definition getNilVotePreCommitHash :: "penv \<Rightarrow> hash \<Rightarrow> byte \<Rightarrow> hash" where
  "getNilVotePreCommitHash env parentHash round =
    Keccak256Hash env (parentHash @ str_bytes ''precommit'' @ ZERO_HASH @ [round] @ [VOTE_TYPE_NIL])"

section \<open>Clocks and block times\<close>

definition HasExceededTimeThreshold :: "int \<Rightarrow> int \<Rightarrow> int \<Rightarrow> bool" where
  "HasExceededTimeThreshold now startTime thresholdMs \<longleftrightarrow> now - startTime \<ge> thresholdMs"

definition Elapsed :: "int \<Rightarrow> int \<Rightarrow> int" where
  "Elapsed now startTime = now - startTime"

text \<open>The blocks that carry a time.\<close>

definition timedBlock :: "u64 \<Rightarrow> bool" where
  "timedBlock blockNumber \<longleftrightarrow> blockNumber = 1 \<or> blockNumber mod BLOCK_PERIOD_TIME_CHANGE = 0 \<or>
     blockNumber \<ge> BLOCK_TIME_ORIG_START_BLOCK"

definition unixTime :: "int \<Rightarrow> int" where
  "unixTime now = now div 1000"

definition GetProposalTime :: "int \<Rightarrow> u64 \<Rightarrow> u64" where
  "GetProposalTime now blockNumber =
    (if timedBlock blockNumber then
       let blockTime = word_of_int (unixTime now) in
       if blockTime mod 60 \<noteq> 0 then blockTime - blockTime mod 60 else blockTime
     else 0)"

text \<open>
  \<open>time.Unix(int64(t), 0).Second()\<close> is the second within the minute, counted from the epoch for
  every time zone with an offset of whole minutes. The difference of two whole minutes is at
  most the allowed skew of 3 minutes.
\<close>

definition ValidateBlockProposalTimeConsensus :: "int \<Rightarrow> u64 \<Rightarrow> u64 \<Rightarrow> bool" where
  "ValidateBlockProposalTimeConsensus now blockNumber proposedTime =
    (if timedBlock blockNumber then
       if proposedTime = 0 then False
       else
         let tm = sint proposedTime in
         if tm mod 60 \<noteq> 0 then False
         else
           let curr = unixTime now - unixTime now mod 60 in
           \<bar>tm - curr\<bar> \<le> 3 * 60
     else proposedTime = 0)"

definition ValidateBlockProposalTime :: "u64 \<Rightarrow> u64 \<Rightarrow> bool" where
  "ValidateBlockProposalTime blockNumber proposedTime =
    (if timedBlock blockNumber then
       proposedTime = 0 \<or> sint proposedTime mod 60 = 0
     else proposedTime = 0)"

definition shouldSignFull :: "u64 \<Rightarrow> bool" where
  "shouldSignFull blockNumber \<longleftrightarrow> blockNumber \<ge> FULL_SIGN_PROPOSAL_CUTOFF_BLOCK \<and>
     blockNumber mod FULL_SIGN_PROPOSAL_FREQUENCY_BLOCKS = 0"

definition GetTimeStatBucket :: "string \<Rightarrow> int \<Rightarrow> string" where
  "GetTimeStatBucket state ms =
    (let key = state @ ''-'' in
     if ms < 1000 then key @ ''-0s-to-1s''
     else if ms > 1000 \<and> ms < 5000 then key @ ''-1s-to-5s''
     else if ms > 1000 \<and> ms < 10000 then key @ ''-5s-to-10s''
     else if ms > 10000 \<and> ms < 30000 then key @ ''-10s-to-30s''
     else key @ ''-30s+'')"

section \<open>Consensus context keys\<close>

definition GetConsensusContextKey :: "u64 \<Rightarrow> perr + string" where
  "GetConsensusContextKey blockNumber =
    (if blockNumber \<le> CONSENSUS_CONTEXT_START_BLOCK
     then Inl (ErrText ''GetBlockConsensusContextFn blockNumber below CONSENSUS_CONTEXT_START_BLOCK'')
     else Inr (''bc-'' @ itoa (unat blockNumber)))"

definition GetBlockConsensusContextKeyForBlock :: "u64 \<Rightarrow> perr + string" where
  "GetBlockConsensusContextKeyForBlock currentBlockNumber =
    (if currentBlockNumber < CONTEXT_BASED_START_BLOCK
     then Inl (ErrText ''GetBlockConsensusContextFn blockNumber below CONTEXT_BASED_START_BLOCK'')
     else if currentBlockNumber > CONSENSUS_CONTEXT_START_BLOCK + CONSENSUS_CONTEXT_MAX_BLOCK_COUNT
     then GetConsensusContextKey (currentBlockNumber - CONSENSUS_CONTEXT_MAX_BLOCK_COUNT)
     else GetConsensusContextKey (currentBlockNumber - CONTEXT_BASED_BLOCK_THRESHOLD))"

section \<open>The wire format of the details\<close>

text \<open>
  A message type: its RLP type, the value of a message and the message of a value. The contract
  gives the round trip and that no two byte strings decode to the same message.
\<close>

locale message =
  fixes t :: rtyp and val :: "'d \<Rightarrow> rval" and conv :: "rval \<Rightarrow> 'd option" and ok :: "'d \<Rightarrow> bool"
  assumes go: "go_type t"
    and val_typed: "ok d \<Longrightarrow> has_type t (val d)"
    and val_encodable: "encodable (val d)"
    and conv_val: "conv (val d) = Some d"
    and val_conv: "has_type t v \<Longrightarrow> \<exists>d. conv v = Some d \<and> val d = v \<and> ok d"
begin

lemma message_roundtrip:
  assumes "ok d" and "length (enc (val d)) < 2 ^ 63" and "encodeDetails (val d) = Inr b"
  shows "decodeDetails t conv b = Inr d"
proof -
  have "b = enc (val d)"
    using assms(2,3) EncodeToBytes_eq [OF val_encodable] by (simp add: encodeDetails_def)
  then show ?thesis
    using DecodeBytes_enc [OF go val_typed [OF assms(1)] assms(2)]
    by (simp add: decodeDetails_def conv_val)
qed

lemma message_canonical:
  assumes "length b < 2 ^ 63" and "decodeDetails t conv b = Inr d"
  shows "ok d \<and> b = enc (val d)"
proof -
  obtain v where v: "DecodeBytes t b = Inr v" "conv v = Some d"
    using assms(2) by (auto simp: decodeDetails_def split: sum.splits option.splits)
  have "has_type t v" "b = enc v" using DecodeBytes_canonical [OF go assms(1) v(1)] by auto
  with val_conv [of v] v(2) show ?thesis by auto
qed

lemma message_no_panic: "length b < 2 ^ 63 \<Longrightarrow> decodeDetails t conv b \<noteq> Inl (Panic p)"
  using DecodeBytes_canonical [OF go] val_conv
  by (fastforce simp: decodeDetails_def split: sum.splits option.splits)

end

lemma unat_ucast_less: "unat (ucast (b :: byte) :: u64) < 2 ^ 8"
  using unat_byte_less [of b] by (simp add: unat_ucast_byte)

lemma ucast_down: "ucast (ucast (b :: byte) :: u64) = b"
proof (rule word_eqI_unat)
  show "unat (ucast (ucast b :: u64) :: byte) = unat b"
    using unat_byte_less [of b] unat_to_byte [of "ucast b"]
    by (simp only: to_byte_def unat_ucast_byte mod_less)
qed

lemma ucast_up: "unat (i :: u64) < 256 \<Longrightarrow> ucast (ucast i :: byte) = i"
proof (rule word_eqI_unat)
  assume "unat i < 256"
  then show "unat (ucast (ucast i :: byte) :: u64) = unat i"
    using unat_to_byte [of i] by (simp only: to_byte_def unat_ucast_byte mod_less)
qed

lemma has_type_array: "has_type (TArr n) v \<longleftrightarrow> (\<exists>b. v = VArray b \<and> length b = n)"
  by (cases v) auto

lemma has_type_uint: "has_type (TUint n) v \<longleftrightarrow> (\<exists>i. v = VUint i \<and> unat i < 2 ^ n)"
  by (cases v) auto

lemma has_type_bool: "has_type TBool v \<longleftrightarrow> (\<exists>b. v = VBool b)"
  by (cases v) auto

lemma has_type_hashes:
  "has_type (TSlice (TArr n)) v \<longleftrightarrow> (\<exists>hs. v = VSlice (map VArray hs) \<and> (\<forall>h\<in>set hs. length h = n))"
proof
  assume "has_type (TSlice (TArr n)) v"
  then obtain vs where vs: "v = VSlice vs" "\<forall>w\<in>set vs. \<exists>b. w = VArray b \<and> length b = n"
    by (cases v) (auto simp: has_type_array)
  then have "map VArray (map array_bytes vs) = vs"
    by (auto intro!: map_idI)
  with vs show "\<exists>hs. v = VSlice (map VArray hs) \<and> (\<forall>h\<in>set hs. length h = n)"
    by (intro exI [of _ "map array_bytes vs"]) auto
qed auto

lemma has_type_struct: "has_type (TStruct ts) v \<longleftrightarrow> (\<exists>vs. v = VStruct vs \<and> list_all2 has_type ts vs)"
  by (cases v) auto

lemmas has_type_iffs = has_type_array has_type_uint has_type_bool has_type_hashes has_type_struct
  list_all2_Cons1

lemma map_array_bytes [simp]: "map (array_bytes \<circ> VArray) hs = hs"
  by (simp add: comp_def)

interpretation proposal_msg: message T_Proposal V_Proposal proposal_of "\<lambda>d. \<forall>h\<in>set (Txns d). length h = 32"
proof
  show "go_type T_Proposal" by (simp add: T_Proposal_def)
  fix d :: proposalDetails
  show "encodable (V_Proposal d)" by (auto simp: V_Proposal_def)
  show "proposal_of (V_Proposal d) = Some d" by (simp add: V_Proposal_def ucast_down)
  show "\<forall>h\<in>set (Txns d). length h = 32 \<Longrightarrow> has_type T_Proposal (V_Proposal d)"
    using unat_u64_less [of "BlockTime d"]
    by (auto simp: T_Proposal_def V_Proposal_def unat_ucast_less [simplified])
next
  fix v
  assume "has_type T_Proposal v"
  then obtain hs r t where "v = VStruct [VSlice (map VArray hs), VUint r, VUint t]"
      "\<forall>h\<in>set hs. length h = 32" "unat r < 256"
    by (auto simp: T_Proposal_def has_type_iffs)
  then show "\<exists>d. proposal_of v = Some d \<and> V_Proposal d = v \<and> (\<forall>h\<in>set (Txns d). length h = 32)"
    by (auto simp: V_Proposal_def ucast_up)
qed

interpretation ack_msg: message T_Ack V_Ack ack_of "\<lambda>d. length (ProposalHash d) = 32"
proof
  show "go_type T_Ack" by (simp add: T_Ack_def)
  fix d :: proposalAckDetails
  show "encodable (V_Ack d)" by (auto simp: V_Ack_def)
  show "ack_of (V_Ack d) = Some d" by (simp add: V_Ack_def ucast_down)
  show "length (ProposalHash d) = 32 \<Longrightarrow> has_type T_Ack (V_Ack d)"
    by (auto simp: T_Ack_def V_Ack_def unat_ucast_less [simplified])
next
  fix v
  assume "has_type T_Ack v"
  then obtain h i r where "v = VStruct [VArray h, VUint i, VUint r]" "length h = 32"
      "unat i < 256" "unat r < 256"
    by (auto simp: T_Ack_def has_type_iffs)
  then show "\<exists>d. ack_of v = Some d \<and> V_Ack d = v \<and> length (ProposalHash d) = 32"
    by (auto simp: V_Ack_def ucast_up)
qed

interpretation precommit_msg: message T_HashRound V_Precommit precommit_of "\<lambda>d. length (PrecommitHash d) = 32"
proof
  show "go_type T_HashRound" by (simp add: T_HashRound_def)
  fix d :: preCommitDetails
  show "encodable (V_Precommit d)" by (auto simp: V_Precommit_def)
  show "precommit_of (V_Precommit d) = Some d" by (simp add: V_Precommit_def ucast_down)
  show "length (PrecommitHash d) = 32 \<Longrightarrow> has_type T_HashRound (V_Precommit d)"
    by (auto simp: T_HashRound_def V_Precommit_def unat_ucast_less [simplified])
next
  fix v
  assume "has_type T_HashRound v"
  then obtain h r where "v = VStruct [VArray h, VUint r]" "length h = 32" "unat r < 256"
    by (auto simp: T_HashRound_def has_type_iffs)
  then show "\<exists>d. precommit_of v = Some d \<and> V_Precommit d = v \<and> length (PrecommitHash d) = 32"
    by (auto simp: V_Precommit_def ucast_up)
qed

interpretation commit_msg: message T_HashRound V_Commit commit_of "\<lambda>d. length (CommitHash d) = 32"
proof
  show "go_type T_HashRound" by (simp add: T_HashRound_def)
  fix d :: commitDetails
  show "encodable (V_Commit d)" by (auto simp: V_Commit_def)
  show "commit_of (V_Commit d) = Some d" by (simp add: V_Commit_def ucast_down)
  show "length (CommitHash d) = 32 \<Longrightarrow> has_type T_HashRound (V_Commit d)"
    by (auto simp: T_HashRound_def V_Commit_def unat_ucast_less [simplified])
next
  fix v
  assume "has_type T_HashRound v"
  then obtain h r where "v = VStruct [VArray h, VUint r]" "length h = 32" "unat r < 256"
    by (auto simp: T_HashRound_def has_type_iffs)
  then show "\<exists>d. commit_of v = Some d \<and> V_Commit d = v \<and> length (CommitHash d) = 32"
    by (auto simp: V_Commit_def ucast_up)
qed

interpretation request_msg: message T_Request V_Request request_of
  "\<lambda>d. \<forall>h\<in>set (ReqProposalAcks d) \<union> set (ReqPrecommits d) \<union> set (ReqCommits d). length h = 32"
proof
  show "go_type T_Request" by (simp add: T_Request_def)
  fix d :: requestDetails
  show "encodable (V_Request d)" by (auto simp: V_Request_def)
  show "request_of (V_Request d) = Some d" by (simp add: V_Request_def ucast_down)
  show "\<forall>h\<in>set (ReqProposalAcks d) \<union> set (ReqPrecommits d) \<union> set (ReqCommits d). length h = 32 \<Longrightarrow>
      has_type T_Request (V_Request d)"
    by (auto simp: T_Request_def V_Request_def unat_ucast_less [simplified])
next
  fix v
  assume "has_type T_Request v"
  then obtain p a b c r where "v = VStruct [VBool p, VSlice (map VArray a), VSlice (map VArray b),
        VSlice (map VArray c), VUint r]"
      "\<forall>h\<in>set a. length h = 32" "\<forall>h\<in>set b. length h = 32" "\<forall>h\<in>set c. length h = 32" "unat r < 256"
    by (auto simp: T_Request_def has_type_iffs)
  then show "\<exists>d. request_of v = Some d \<and> V_Request d = v \<and>
      (\<forall>h\<in>set (ReqProposalAcks d) \<union> set (ReqPrecommits d) \<union> set (ReqCommits d). length h = 32)"
    by (auto simp: V_Request_def ucast_up)
qed

section \<open>Facts about constants, times and keys\<close>

text \<open>The \<open>0x\<close> prefix stops the decoder at once: the genesis hash is not part of the context.\<close>

lemma full_sign_context: "FULL_SIGN_CONTEXT = [2]"
proof -
  have "hex_digit (CHR ''x'') = None" by code_simp
  then show ?thesis
    by (simp add: FULL_SIGN_CONTEXT_def GENESIS_BLOCK_HASH_def Hex2Bytes_def split: option.split)
qed

text \<open>From the block on that uses it, the key of the context of a block is always defined.\<close>

lemma context_key_defined:
  assumes "CONTEXT_BASED_START_BLOCK \<le> n"
  shows "\<exists>m. GetBlockConsensusContextKeyForBlock n = Inr (''bc-'' @ itoa (unat m)) \<and>
    CONSENSUS_CONTEXT_START_BLOCK < m \<and> m < n"
proof (cases "n > 933888")
  case True
  have "unat (n - 512000) = unat n - 512000"
    using True by (subst unat_sub) (auto simp: word_less_nat_alt word_le_nat_alt)
  then have "421888 < n - 512000" "n - 512000 < n"
    using True by (simp_all add: word_less_nat_alt)
  with True assms show ?thesis
    by (auto simp: GetBlockConsensusContextKeyForBlock_def GetConsensusContextKey_def not_le)
next
  case False
  have "unat (n - 64000) = unat n - 64000"
    using assms by (subst unat_sub) (auto simp: word_le_nat_alt)
  then have "421888 < n - 64000" "n - 64000 < n"
    using assms by (simp_all add: word_less_nat_alt word_le_nat_alt)
  with False assms show ?thesis
    by (auto simp: GetBlockConsensusContextKeyForBlock_def GetConsensusContextKey_def not_le)
qed

end
