(* ===== verification/Pos_Validators.thy ===== *)
theory Pos_Validators
  imports Pos_Types
begin

text \<open>
  Validator selection (\<open>PacketHandler.go\<close>): which validators of the staking contract take part in
  a block (\<open>filterValidators\<close>), how long an offline proposer is skipped (\<open>canPropose\<close>) and who
  proposes in a round (\<open>getBlockProposer\<close>, \<open>getBlockProposerV2\<close>).

  Every node must compute the same answers although Go iterates maps in an arbitrary order.
  The results below show this: under the hypothesis that the sort keys (Keccak hashes) of the
  validators are distinct, the answers depend only on the contents of the maps. Further: the
  proposer is one of the validators, the deposits and the quorum are computed from exactly the
  selected validators, and the two internal checks of the selection (the range of the normalized
  deposit and the deposit of the selected validators) never fail.
\<close>

section \<open>Random bytes\<close>

text \<open>
  \<open>crypto/drng/ChaCha20\<close>: the generator keyed with the seed; \<open>NextByte\<close> is the next byte of the
  key stream.
\<close>

record drng =
  dkey :: bytes
  dnonce :: bytes
  dpos :: nat

definition InitializeWithSeed :: "hash \<Rightarrow> drng" where
  "InitializeWithSeed seed = \<lparr>dkey = seed, dnonce = str_bytes ''DogeProtocol'', dpos = 0\<rparr>"

definition NextByte :: "penv \<Rightarrow> drng \<Rightarrow> drng \<times> byte" where
  "NextByte env g = (g\<lparr>dpos := dpos g + 1\<rparr>, keystream env (dkey g) (dnonce g) (dpos g))"

section \<open>Proposers\<close>

text \<open>\<open>big.Int.Uint64\<close>: the low 64 bits of the absolute value.\<close>

definition Uint64 :: "int \<Rightarrow> u64" where
  "Uint64 x = word_of_int \<bar>x\<bar>"

text \<open>
  \<open>uint64(math.Pow(2.0, slotsMissed))\<close> is exact below \<open>2 ^ 64\<close>; from there on the conversion of the
  float is left open by Go and is the parameter \<open>floatOverflow\<close>.
\<close>

definition blockDelay :: "penv \<Rightarrow> int \<Rightarrow> u64 \<Rightarrow> u64" where
  "blockDelay env nilBlockCount maxBlockdelay =
    (let slotsMissed = unat (Uint64 nilBlockCount div 2);
         d = (if slotsMissed < 64 then word_of_nat (2 ^ slotsMissed) else floatOverflow env slotsMissed)
     in if d > maxBlockdelay then maxBlockdelay else d)"

definition maxDelay :: "u64 \<Rightarrow> u64" where
  "maxDelay currentBlockNumber =
    (if currentBlockNumber \<ge> BLOCK_PROPOSER_OFFLINE_V2_START_BLOCK then 16384 else 1024)"

definition canPropose :: "penv \<Rightarrow> valdetails \<Rightarrow> u64 \<Rightarrow> bool" where
  "canPropose env v currentBlockNumber =
    (if LastNiLBlock v = 0 then True
     else currentBlockNumber \<ge>
       Uint64 (LastNiLBlock v) + blockDelay env (NilBlockCount v) (maxDelay currentBlockNumber))"

definition proposerKey :: "penv \<Rightarrow> hash \<Rightarrow> byte \<Rightarrow> address \<Rightarrow> bytes" where
  "proposerKey env contextHash round v = Keccak256Hash env (contextHash @ v @ [round])"

definition firstByKey :: "(address \<Rightarrow> bytes) \<Rightarrow> address list \<Rightarrow> perr + address" where
  "firstByKey key validators =
    (case sort_key key validators of
       [] \<Rightarrow> Inl (Panic ''index out of range'')
     | v # _ \<Rightarrow> Inr v)"

definition getBlockProposerV2 ::
    "penv \<Rightarrow> hash \<Rightarrow> (address, valdetails) gomap \<Rightarrow> byte \<Rightarrow> u64 \<Rightarrow> perr + address" where
  "getBlockProposerV2 env contextHash validatorMap round blockNumber =
    (if length validatorMap < MIN_VALIDATORS env
     then Inl (ErrText ''getBlockProposerV2 min validators not found'')
     else
       let selected = filter (\<lambda>(a, d). canPropose env d blockNumber) validatorMap;
           selectedValMap =
             (if length selected < MIN_VALIDATORS env
              then fold (\<lambda>(a, d) m. mput a d m) validatorMap selected else selected)
       in firstByKey (proposerKey env contextHash round) (mkeys selectedValMap))"

text \<open>A nil \<open>validatorDetailsMap\<close> is \<open>None\<close>; dereferencing it panics.\<close>

definition getBlockProposer ::
    "penv \<Rightarrow> hash \<Rightarrow> (address, int) gomap \<Rightarrow> byte \<Rightarrow> (address, valdetails) gomap option \<Rightarrow> u64 \<Rightarrow> hash
      \<Rightarrow> perr + address" where
  "getBlockProposer env parentHash filteredMap round detailsMap blockNumber contextHash =
    (if blockNumber \<ge> BLOCK_PROPOSER_NIL_BLOCK_START_BLOCK then
       (case detailsMap of
          None \<Rightarrow> Inl (Panic ''nil pointer dereference'')
        | Some m \<Rightarrow>
            getBlockProposerV2 env
              (if blockNumber \<ge> CONTEXT_BASED_START_BLOCK then contextHash else parentHash)
              m round blockNumber)
     else if length filteredMap < MIN_VALIDATORS env then Inl (ErrText ''min validators not found'')
     else firstByKey (proposerKey env parentHash round) (mkeys filteredMap))"

section \<open>The validators of a block\<close>

definition validatorKey :: "penv \<Rightarrow> hash \<Rightarrow> address \<Rightarrow> bytes" where
  "validatorKey env parentHash v = Keccak256Hash env (parentHash @ v)"

text \<open>First pass: each validator is drawn with a chance that grows with its share.\<close>

fun drawValidators ::
    "penv \<Rightarrow> (address, int) gomap \<Rightarrow> int \<Rightarrow> address list \<Rightarrow> drng \<Rightarrow> (address, bool) gomap \<Rightarrow> int
      \<Rightarrow> perr + (address, bool) gomap \<times> int" where
  "drawValidators env m tot [] rng filtered soFar = Inr (filtered, soFar)"
| "drawValidators env m tot (v # vs) rng filtered soFar =
    (let depositValue = dep m v;
         (rng', r) = NextByte env rng;
         randByte = int (unat r);
         normalized = 255 * depositValue div tot
     in if normalized < 0 \<or> normalized > 255 then Inl (ErrText ''invalid normalizedDepositValue'')
        else if normalized \<ge> randByte
        then drawValidators env m tot vs rng' (mput v True filtered) (soFar + depositValue)
        else drawValidators env m tot vs rng' filtered soFar)"

text \<open>Second pass: fill up in the order of the list until the count and the deposit suffice.\<close>

fun fillValidators ::
    "(address, int) gomap \<Rightarrow> address list \<Rightarrow> (address, bool) gomap \<Rightarrow> int \<Rightarrow> (address, bool) gomap" where
  "fillValidators m [] filtered soFar = filtered"
| "fillValidators m (v # vs) filtered soFar =
    (if mhas filtered v then fillValidators m vs filtered soFar
     else
       let filtered' = mput v True filtered;
           soFar' = soFar + dep m v
       in if length filtered' = MAX_VALIDATORS \<and> MIN_BLOCK_DEPOSIT \<le> soFar' then filtered'
          else fillValidators m vs filtered' soFar')"

definition selectValidators ::
    "penv \<Rightarrow> hash \<Rightarrow> (address, int) gomap \<Rightarrow> perr + (address, bool) gomap" where
  "selectValidators env parentHash m =
    (if length m \<le> MAX_VALIDATORS then Inr (map (\<lambda>(v, d). (v, True)) m)
     else
       let validatorList = sort_key (validatorKey env parentHash) (mkeys m)
       in case drawValidators env m (total_dep m) validatorList (InitializeWithSeed parentHash) [] 0 of
            Inl e \<Rightarrow> Inl e
          | Inr (filtered, soFar) \<Rightarrow>
              Inr (if length filtered < MAX_VALIDATORS \<or> MIN_BLOCK_DEPOSIT > soFar
                   then fillValidators m validatorList filtered soFar else filtered))"

definition minPercentage :: "u64 \<Rightarrow> int" where
  "minPercentage blockNumber =
    (if blockNumber \<ge> SixtyVoteStartBlock then MIN_PERCENTAGE_V2 else MIN_PERCENTAGE)"

text \<open>
  \<open>filterValidators\<close> deletes the validators with a low deposit from the caller's map; the model
  returns that map as the first component.
\<close>

definition lowDepositRemoved :: "(address, int) gomap \<Rightarrow> (address, int) gomap" where
  "lowDepositRemoved m = filter (\<lambda>(v, d). \<not> d < MIN_VALIDATOR_DEPOSIT) m"

definition filterValidators ::
    "penv \<Rightarrow> hash \<Rightarrow> (address, int) gomap \<Rightarrow> u64
      \<Rightarrow> (address, int) gomap \<times> (perr + (address, bool) gomap \<times> int \<times> int)" where
  "filterValidators env parentHash valDepMap blockNumber =
    (let m = lowDepositRemoved valDepMap in
     (m,
      if length m < MIN_VALIDATORS env then Inl (ErrText ''number of validators less than minimum'')
      else if total_dep m < MIN_BLOCK_DEPOSIT then Inl (ErrText ''min block deposit not met'')
      else
        case selectValidators env parentHash m of
          Inl e \<Rightarrow> Inl e
        | Inr filtered \<Rightarrow>
            let filteredDepositValue = sum_list (map (dep m) (mkeys filtered)) in
            if filteredDepositValue < MIN_BLOCK_DEPOSIT
            then Inl (ErrText ''min block deposit not met for filteredDepositValue'')
            else Inr (filtered, filteredDepositValue,
                      SafeRelativePercentageBigInt filteredDepositValue (minPercentage blockNumber))))"

section \<open>Proposers: membership, existence, independence of the map order\<close>

lemma firstByKey_Inr:
  assumes "firstByKey key vs = Inr p"
  shows "p \<in> set vs" and "v \<in> set vs \<Longrightarrow> key p \<le> key v"
proof -
  have ne: "vs \<noteq> []" and p: "p = hd (sort_key key vs)"
    using assms by (auto simp: firstByKey_def split: list.splits)
  show "p \<in> set vs" "v \<in> set vs \<Longrightarrow> key p \<le> key v"
    using hd_sort_key_min [OF ne] p by auto
qed

lemma firstByKey_total: "vs \<noteq> [] \<Longrightarrow> \<exists>p. firstByKey key vs = Inr p"
  by (auto simp: firstByKey_def split: list.split) (metis set_empty2 set_sort)

lemma firstByKey_cong:
  assumes "set vs = set ws" and "inj_on key (set vs)"
  shows "firstByKey key vs = firstByKey key ws"
proof (cases "vs = []")
  case True
  with assms show ?thesis by simp
next
  case False
  with assms(1) have "ws \<noteq> []" by auto
  with False obtain p q where pq: "firstByKey key vs = Inr p" "firstByKey key ws = Inr q"
    using firstByKey_total by metis
  have "key p = key q" using firstByKey_Inr [OF pq(1)] firstByKey_Inr [OF pq(2)] assms(1)
    by (metis order_antisym)
  then have "p = q"
    using assms firstByKey_Inr(1) [OF pq(1)] firstByKey_Inr(1) [OF pq(2)] by (auto dest: inj_onD)
  with pq show ?thesis by simp
qed

lemma set_mkeys_filter: "set (mkeys (filter P m)) \<subseteq> set (mkeys m)"
  by (auto simp: mkeys_def)

lemma keys_fold_mput:
  "fst ` set (fold (\<lambda>(a, d) m. mput a d m) xs m) = fst ` set xs \<union> fst ` set m"
proof (induction xs arbitrary: m)
  case (Cons x xs)
  obtain a d where "x = (a, d)" by (cases x)
  with Cons [of "mput a d m"] show ?case by (simp add: fst_set_mput)
qed simp

definition selectedKeys :: "penv \<Rightarrow> (address, valdetails) gomap \<Rightarrow> u64 \<Rightarrow> address set" where
  "selectedKeys env m n =
    (let sel = filter (\<lambda>(a, d). canPropose env d n) m
     in if length sel < MIN_VALIDATORS env then fst ` set m else fst ` set sel)"

definition selectedMap :: "penv \<Rightarrow> (address, valdetails) gomap \<Rightarrow> u64 \<Rightarrow> (address, valdetails) gomap" where
  "selectedMap env m n =
    (let sel = filter (\<lambda>(a, d). canPropose env d n) m
     in if length sel < MIN_VALIDATORS env then fold (\<lambda>(a, d) m. mput a d m) m sel else sel)"

lemma getBlockProposerV2_eq:
  "getBlockProposerV2 env c m r n =
    (if length m < MIN_VALIDATORS env then Inl (ErrText ''getBlockProposerV2 min validators not found'')
     else firstByKey (proposerKey env c r) (mkeys (selectedMap env m n)))"
  by (simp add: getBlockProposerV2_def selectedMap_def Let_def)

lemma selected_set: "set (mkeys (selectedMap env m n)) = selectedKeys env m n"
  by (auto simp: selectedKeys_def selectedMap_def Let_def set_mkeys keys_fold_mput)

lemma selectedKeys_subset: "selectedKeys env m n \<subseteq> fst ` set m"
  by (auto simp: selectedKeys_def Let_def)

lemma selectedKeys_mset: "mset m = mset m' \<Longrightarrow> selectedKeys env m n = selectedKeys env m' n"
proof -
  assume a: "mset m = mset m'"
  then have "set m = set m'" by (rule mset_eq_setD)
  moreover have "mset (filter P m) = mset (filter P m')" for P using a by simp
  then have "length (filter P m) = length (filter P m')" for P by (metis size_mset)
  ultimately show ?thesis by (simp add: selectedKeys_def Let_def)
qed

lemma proposerV2_member:
  "getBlockProposerV2 env c m r n = Inr p \<Longrightarrow> p \<in> selectedKeys env m n"
  using firstByKey_Inr(1) by (force simp: getBlockProposerV2_eq selected_set split: if_splits)

lemma selectedKeys_not_empty:
  assumes "1 \<le> MIN_VALIDATORS env" and "MIN_VALIDATORS env \<le> length m"
  shows "selectedKeys env m n \<noteq> {}"
proof -
  let ?sel = "filter (\<lambda>(a, d). canPropose env d n) m"
  have "m \<noteq> []" and "\<not> length ?sel < MIN_VALIDATORS env \<Longrightarrow> ?sel \<noteq> []"
    using assms by (force simp del: filter_empty_conv)+
  then have ne: "fst ` set m \<noteq> {}" and ne': "\<not> length ?sel < MIN_VALIDATORS env \<Longrightarrow> fst ` set ?sel \<noteq> {}"
    by (simp_all only: image_is_empty set_empty not_False_eq_True)
  show ?thesis
  proof (cases "length ?sel < MIN_VALIDATORS env")
    case True
    with ne show ?thesis unfolding selectedKeys_def Let_def by (simp only: if_True not_False_eq_True)
  next
    case False
    with ne' [OF False] show ?thesis unfolding selectedKeys_def Let_def by (simp only: if_False not_False_eq_True)
  qed
qed

lemma proposerV2_total:
  assumes "1 \<le> MIN_VALIDATORS env" and "MIN_VALIDATORS env \<le> length m"
  shows "\<exists>p. getBlockProposerV2 env c m r n = Inr p"
proof -
  have "mkeys (selectedMap env m n) \<noteq> []"
    using selectedKeys_not_empty [OF assms, of n] selected_set [of env m n] by auto
  with assms(2) firstByKey_total show ?thesis by (simp add: getBlockProposerV2_eq)
qed

lemma proposerV2_cong:
  assumes "mset m = mset m'" and "inj_on (proposerKey env c r) (fst ` set m)"
  shows "getBlockProposerV2 env c m r n = getBlockProposerV2 env c m' r n"
proof -
  have "length m = length m'" using assms(1) by (metis size_mset)
  moreover have "inj_on (proposerKey env c r) (selectedKeys env m n)"
    using assms(2) selectedKeys_subset by (rule inj_on_subset)
  then have "firstByKey (proposerKey env c r) (mkeys (selectedMap env m n)) =
      firstByKey (proposerKey env c r) (mkeys (selectedMap env m' n))"
    using selectedKeys_mset [OF assms(1)] by (intro firstByKey_cong) (simp_all add: selected_set)
  ultimately show ?thesis by (simp add: getBlockProposerV2_eq)
qed

lemma proposer_cong:
  assumes "mset fm = mset fm'" and "rel_option (\<lambda>m m'. mset m = mset m') dm dm'"
    and "inj_on (proposerKey env p r) (fst ` set fm)"
    and "\<And>h m. dm = Some m \<Longrightarrow> inj_on (proposerKey env h r) (fst ` set m)"
  shows "getBlockProposer env p fm r dm n c = getBlockProposer env p fm' r dm' n c"
proof -
  have "length fm = length fm'" "set (mkeys fm) = set (mkeys fm')"
    using assms(1) by (metis size_mset, metis mset_eq_setD set_mkeys)
  then have "length fm = length fm'"
      "firstByKey (proposerKey env p r) (mkeys fm) = firstByKey (proposerKey env p r) (mkeys fm')"
    using assms(3) by (auto intro!: firstByKey_cong simp: set_mkeys)
  then show ?thesis
    using assms(2,4) proposerV2_cong
    by (cases dm; cases dm') (auto simp: getBlockProposer_def)
qed

lemma proposer_member:
  assumes "getBlockProposer env p fm r dm n c = Inr v"
  shows "if n \<ge> BLOCK_PROPOSER_NIL_BLOCK_START_BLOCK
     then \<exists>m. dm = Some m \<and> v \<in> selectedKeys env m n else v \<in> fst ` set fm"
  using assms firstByKey_Inr(1) [of "proposerKey env p r" "mkeys fm" v]
  by (auto simp: getBlockProposer_def set_mkeys dest: proposerV2_member split: if_splits option.splits)

section \<open>Selection: what is selected\<close>

lemma draw_step:
  assumes "drawValidators env m tot (v # vs) rng f s = Inr res"
  shows "\<exists>rng'. drawValidators env m tot vs rng' (mput v True f) (s + dep m v) = Inr res \<or>
    drawValidators env m tot vs rng' f s = Inr res"
  using assms by (auto simp: Let_def split: prod.splits if_splits)

lemma mput_new: "k \<notin> fst ` set m \<Longrightarrow> mput k v m = m @ [(k, v)]"
  by (induction m) auto

lemma draw_invariant:
  "drawValidators env m tot vs rng f s = Inr (f', s') \<Longrightarrow> wfm f \<Longrightarrow> distinct vs \<Longrightarrow>
    fst ` set f \<inter> set vs = {} \<Longrightarrow> s = sum_list (map (dep m) (mkeys f)) \<Longrightarrow>
    wfm f' \<and> fst ` set f \<subseteq> fst ` set f' \<and> fst ` set f' \<subseteq> fst ` set f \<union> set vs \<and>
    s' = sum_list (map (dep m) (mkeys f'))"
proof (induction vs arbitrary: rng f s)
  case (Cons v vs)
  have new: "v \<notin> fst ` set f" and d: "v \<notin> set vs" "distinct vs" "fst ` set f \<inter> set vs = {}"
    using Cons.prems(3,4) by auto
  note put = mput_new [OF new]
  from draw_step [OF Cons.prems(1)] obtain rng' where
    "drawValidators env m tot vs rng' (mput v True f) (s + dep m v) = Inr (f', s') \<or>
     drawValidators env m tot vs rng' f s = Inr (f', s')" by blast
  then show ?case
  proof
    assume a: "drawValidators env m tot vs rng' (mput v True f) (s + dep m v) = Inr (f', s')"
    have "fst ` set (mput v True f) \<inter> set vs = {}" using d by (auto simp: put)
    moreover have "s + dep m v = sum_list (map (dep m) (mkeys (mput v True f)))"
      using Cons.prems(5) by (simp add: put mkeys_def)
    ultimately have "wfm f' \<and> fst ` set (mput v True f) \<subseteq> fst ` set f' \<and>
        fst ` set f' \<subseteq> fst ` set (mput v True f) \<union> set vs \<and> s' = sum_list (map (dep m) (mkeys f'))"
      using Cons.IH [OF a wfm_mput [OF Cons.prems(2)] d(2)] by blast
    then show ?thesis unfolding fst_set_mput by (simp add: subset_insertI2)
  next
    assume "drawValidators env m tot vs rng' f s = Inr (f', s')"
    from Cons.IH [OF this Cons.prems(2) d(2,3) Cons.prems(5)] show ?thesis by (simp add: subset_insertI2)
  qed
qed simp

lemma fill_invariant:
  "wfm f \<Longrightarrow> distinct vs \<Longrightarrow>
    wfm (fillValidators m vs f s) \<and> fst ` set f \<subseteq> fst ` set (fillValidators m vs f s) \<and>
    fst ` set (fillValidators m vs f s) \<subseteq> fst ` set f \<union> set vs"
proof (induction m vs f s rule: fillValidators.induct)
  case (2 m v vs f s)
  then show ?case
    by (auto simp: Let_def wfm_mput fst_set_mput)
qed auto

text \<open>The second pass stops only with a full and sufficient selection; otherwise it takes everyone.\<close>

lemma fill_all:
  "length (fillValidators m vs f s) = MAX_VALIDATORS \<or>
    fst ` set (fillValidators m vs f s) = fst ` set f \<union> set vs"
proof (induction m vs f s rule: fillValidators.induct)
  case (2 m v vs f s)
  then show ?case
    by (auto simp: Let_def fst_set_mput mhas_iff)
qed auto

lemma selectValidators_keys:
  assumes "wfm m" and "selectValidators env p m = Inr f"
  shows "wfm f \<and> fst ` set f \<subseteq> fst ` set m"
proof (cases "length m \<le> MAX_VALIDATORS")
  case True
  then have "f = map (\<lambda>(v, d). (v, True)) m" using assms(2) by (simp add: selectValidators_def)
  then have "map fst f = map fst m" by (auto simp: comp_def split: prod.splits)
  then show ?thesis using assms(1) by (metis wfm_def set_map subset_refl)
next
  case False
  let ?vs = "sort_key (validatorKey env p) (mkeys m)"
  obtain g s where g: "drawValidators env m (total_dep m) ?vs (InitializeWithSeed p) [] 0 = Inr (g, s)"
    and f: "f = (if length g < MAX_VALIDATORS \<or> MIN_BLOCK_DEPOSIT > s then fillValidators m ?vs g s else g)"
    using assms(2) False by (auto simp: selectValidators_def Let_def split: sum.splits)
  have d: "distinct ?vs" "set ?vs = fst ` set m"
    using assms(1) by (simp_all add: distinct_mkeys set_mkeys)
  have "wfm g" "fst ` set g \<subseteq> fst ` set m"
    using draw_invariant [OF g] d by auto
  then show ?thesis
    using f fill_invariant [of g ?vs m s] d
    by (cases "length g < MAX_VALIDATORS \<or> MIN_BLOCK_DEPOSIT > s") (simp_all, blast?)
qed

lemma selectValidators_count:
  assumes "wfm m" and "selectValidators env p m = Inr f"
  shows "min (length m) MAX_VALIDATORS \<le> length f"
proof (cases "length m \<le> MAX_VALIDATORS")
  case True
  with assms(2) show ?thesis by (auto simp: selectValidators_def)
next
  case False
  let ?vs = "sort_key (validatorKey env p) (mkeys m)"
  obtain g s where g: "drawValidators env m (total_dep m) ?vs (InitializeWithSeed p) [] 0 = Inr (g, s)"
    and f: "f = (if length g < MAX_VALIDATORS \<or> MIN_BLOCK_DEPOSIT > s then fillValidators m ?vs g s else g)"
    using assms(2) False by (auto simp: selectValidators_def Let_def split: sum.splits)
  have d: "distinct ?vs" "set ?vs = fst ` set m"
    using assms(1) by (simp_all add: distinct_mkeys set_mkeys)
  have len: "length h = card (fst ` set h)" if "wfm h" for h :: "(address, 'a) gomap"
    using that by (metis distinct_card length_map set_map wfm_def)
  have g': "wfm g" "fst ` set g \<subseteq> fst ` set m" using draw_invariant [OF g] d by auto
  show ?thesis
  proof (cases "length g < MAX_VALIDATORS \<or> MIN_BLOCK_DEPOSIT > s")
    case True
    with f have "f = fillValidators m ?vs g s" by simp
    with fill_all [of m ?vs g s] have "length f = MAX_VALIDATORS \<or> fst ` set f = fst ` set m"
      using g'(2) d(2) by (simp add: Un_absorb1)
    moreover have "wfm f" using selectValidators_keys [OF assms] by blast
    ultimately show ?thesis using len [of f] len [OF assms(1)] by auto
  qed (use f in auto)
qed

section \<open>Selection: the check on the normalized deposit never fails\<close>

lemma dep_le_total: "deposits_ok m \<Longrightarrow> dep m v \<le> total_dep m"
  using st.wt_mono [of m "{v}" "insert v (fst ` set m)"] weight_keys [of m]
    st.wt_Un_Int [of "{v}" "fst ` set m" m]
proof (cases "v \<in> fst ` set m")
  case True
  assume ok: "deposits_ok m"
  then have "weight m {v} \<le> weight m (fst ` set m)"
    using True by (intro st.wt_mono) auto
  with ok weight_keys [of m] show ?thesis by (simp add: weight_def deposits_ok_def)
next
  case False
  assume ok: "deposits_ok m"
  have "dep m v = 0" using False by (simp add: dep_def mget_None_iff [symmetric] split: option.split)
  with ok total_nonneg [of m] show ?thesis by (simp add: deposits_ok_def)
qed

lemma normalized_range:
  assumes "deposits_ok m" and "0 < total_dep m"
  shows "0 \<le> 255 * dep m v div total_dep m \<and> 255 * dep m v div total_dep m \<le> 255"
proof -
  have "0 \<le> dep m v" using assms(1) by (simp add: deposits_ok_def dep_nonneg)
  moreover have "255 * dep m v \<le> 255 * total_dep m" using dep_le_total [OF assms(1)] by simp
  then have "255 * dep m v div total_dep m \<le> 255 * total_dep m div total_dep m"
    using assms(2) by (intro zdiv_mono1) auto
  ultimately show ?thesis using assms(2) by (simp add: pos_imp_zdiv_nonneg_iff)
qed

lemma draw_total:
  assumes "deposits_ok m" and "0 < total_dep m"
  shows "\<exists>res. drawValidators env m (total_dep m) vs rng f s = Inr res"
proof (induction vs arbitrary: rng f s)
  case (Cons v vs)
  then show ?case using normalized_range [OF assms, of v]
    by (auto simp: Let_def not_less [symmetric] split: prod.split)
qed simp

lemma selectValidators_total:
  assumes "deposits_ok m" and "0 < total_dep m"
  shows "\<exists>f. selectValidators env p m = Inr f"
  using draw_total [OF assms, of env "sort_key (validatorKey env p) (mkeys m)" "InitializeWithSeed p" "[]" 0]
  by (auto simp: selectValidators_def Let_def)

section \<open>Selection: independence of the map order\<close>

lemma dep_mset_cong:
  assumes "wfm m" and "mset m = mset m'"
  shows "dep m = dep m'"
proof
  fix v
  have "wfm m'" using assms by (metis mset_map mset_eq_imp_distinct_iff wfm_def)
  moreover have "set m = set m'" using assms(2) by (rule mset_eq_setD)
  ultimately have "mget m v = mget m' v"
    using assms(1) by (metis mget_eq_iff not_None_eq)
  then show "dep m v = dep m' v" by (simp add: dep_def)
qed

lemma draw_cong:
  "dep m = dep m' \<Longrightarrow> drawValidators env m tot vs rng f s = drawValidators env m' tot vs rng f s"
  by (induction vs arbitrary: rng f s) (simp_all add: Let_def split: prod.split)

lemma fill_cong: "dep m = dep m' \<Longrightarrow> fillValidators m vs f s = fillValidators m' vs f s"
  by (induction vs arbitrary: f s) (simp_all add: Let_def)

lemma selectValidators_mset:
  assumes "wfm m" and "mset m = mset m'" and "inj_on (validatorKey env p) (fst ` set m)"
  shows "rel_sum (=) (\<lambda>f f'. mset f = mset f') (selectValidators env p m) (selectValidators env p m')"
proof -
  have len: "length m = length m'" using assms(2) by (metis size_mset)
  have "mset (mkeys m) = mset (mkeys m')" using assms(2) by (simp add: mkeys_def)
  then have sorted: "sort_key (validatorKey env p) (mkeys m) = sort_key (validatorKey env p) (mkeys m')"
    using assms(3) by (intro sort_key_mset_cong) (simp_all add: set_mkeys)
  note d = dep_mset_cong [OF assms(1,2)] and t = total_mset [OF assms(2)]
  show ?thesis
  proof (cases "length m \<le> MAX_VALIDATORS")
    case True
    with len assms(2) show ?thesis by (simp add: selectValidators_def)
  next
    case False
    with len have "selectValidators env p m = selectValidators env p m'"
      by (simp add: selectValidators_def sorted t draw_cong [OF d] fill_cong [OF d] Let_def split: sum.split)
    then show ?thesis by (cases "selectValidators env p m'") simp_all
  qed
qed

lemma lowDepositRemoved_mset: "mset m = mset m' \<Longrightarrow> mset (lowDepositRemoved m) = mset (lowDepositRemoved m')"
  by (simp add: lowDepositRemoved_def)

lemma sum_list_mset_cong: "mset (xs :: int list) = mset ys \<Longrightarrow> sum_list xs = sum_list ys"
  by (metis sum_mset_sum_list)

lemma filterValidators_mset:
  assumes "wfm m" and "mset m = mset m'" and "inj_on (validatorKey env p) (fst ` set m)"
  shows "rel_sum (=) (\<lambda>(f, d, q) (f', d', q'). mset f = mset f' \<and> d = d' \<and> q = q')
    (snd (filterValidators env p m n)) (snd (filterValidators env p m' n))"
proof -
  let ?l = "lowDepositRemoved m" and ?l' = "lowDepositRemoved m'"
  have ms: "mset ?l = mset ?l'" by (rule lowDepositRemoved_mset [OF assms(2)])
  have wf: "wfm ?l" using assms(1) by (simp add: lowDepositRemoved_def wfm_filter)
  have inj: "inj_on (validatorKey env p) (fst ` set ?l)"
    using assms(3) by (rule inj_on_subset) (auto simp: lowDepositRemoved_def)
  have len: "length ?l = length ?l'" using ms by (metis size_mset)
  note d = dep_mset_cong [OF wf ms] and t = total_mset [OF ms]
  note sel = selectValidators_mset [OF wf ms inj]
  show ?thesis
  proof (cases "selectValidators env p ?l")
    case (Inl e)
    with sel have "selectValidators env p ?l' = Inl e" by (auto elim: rel_sum.cases)
    with Inl len t show ?thesis by (simp add: filterValidators_def Let_def)
  next
    case (Inr f)
    with sel obtain f' where f': "selectValidators env p ?l' = Inr f'" "mset f = mset f'"
      by (auto elim: rel_sum.cases)
    then have "sum_list (map (dep ?l) (mkeys f)) = sum_list (map (dep ?l') (mkeys f'))"
      unfolding d by (intro sum_list_mset_cong) (simp add: mkeys_def)
    with Inr f' len t show ?thesis by (simp add: filterValidators_def Let_def)
  qed
qed

section \<open>Selection: what the caller gets\<close>

lemma sum_list_keys: "wfm f \<Longrightarrow> sum_list (map (dep m) (mkeys f)) = weight m (fst ` set f)"
  by (simp add: weight_def set_mkeys [symmetric] distinct_mkeys sum_list_distinct_conv_sum_set)

text \<open>
  The result of a successful \<open>filterValidators\<close>: the validators are among those with a sufficient
  deposit, the two amounts are the weight of exactly these validators and its percentage, and
  the minimum number of validators is respected.
\<close>

lemma filterValidators_result:
  assumes "wfm vm" and "filterValidators env p vm n = (m, Inr (f, d, q))"
  shows "m = lowDepositRemoved vm" and "wfm f" and "fst ` set f \<subseteq> fst ` set m"
    and "d = weight m (fst ` set f)" and "MIN_BLOCK_DEPOSIT \<le> d"
    and "q = SafeRelativePercentageBigInt d (minPercentage n)"
    and "min (MIN_VALIDATORS env) MAX_VALIDATORS \<le> length f"
proof -
  have wf: "wfm (lowDepositRemoved vm)" using assms(1) by (simp add: lowDepositRemoved_def wfm_filter)
  show m: "m = lowDepositRemoved vm" using assms(2) by (simp add: filterValidators_def Let_def)
  have sel: "selectValidators env p (lowDepositRemoved vm) = Inr f"
    and d: "d = sum_list (map (dep (lowDepositRemoved vm)) (mkeys f))"
    and minv: "MIN_VALIDATORS env \<le> length (lowDepositRemoved vm)"
    and rest: "MIN_BLOCK_DEPOSIT \<le> d" "q = SafeRelativePercentageBigInt d (minPercentage n)"
    using assms(2) by (auto simp: filterValidators_def Let_def split: if_splits sum.splits)
  show "wfm f" "fst ` set f \<subseteq> fst ` set m" using selectValidators_keys [OF wf sel] m by simp_all
  then show "d = weight m (fst ` set f)" using d m sum_list_keys by metis
  show "MIN_BLOCK_DEPOSIT \<le> d" "q = SafeRelativePercentageBigInt d (minPercentage n)" using rest by simp_all
  show "min (MIN_VALIDATORS env) MAX_VALIDATORS \<le> length f"
    using selectValidators_count [OF wf sel] minv by linarith
qed

lemma lowDepositRemoved_idem: "lowDepositRemoved (lowDepositRemoved m) = lowDepositRemoved m"
  by (simp add: lowDepositRemoved_def filter_filter)

lemma low_deposits_ok: "deposits_ok vm \<Longrightarrow> deposits_ok (lowDepositRemoved vm)"
  by (simp add: lowDepositRemoved_def deposits_ok_filter)

lemma MIN_BLOCK_DEPOSIT_pos: "0 < MIN_BLOCK_DEPOSIT"
  by (simp add: MIN_BLOCK_DEPOSIT_def EtherToWei_def)

text \<open>
  The check on the deposit of the selected validators never fails: whenever the total deposit
  suffices, so does the selected one.
\<close>

lemma fill_deposit:
  "wfm f \<Longrightarrow> distinct vs \<Longrightarrow> s = weight m (fst ` set f) \<Longrightarrow>
    fst ` set (fillValidators m vs f s) = fst ` set f \<union> set vs \<or>
    MIN_BLOCK_DEPOSIT \<le> weight m (fst ` set (fillValidators m vs f s))"
proof (induction m vs f s rule: fillValidators.induct)
  case (2 m v vs f s)
  show ?case
  proof (cases "mhas f v")
    case True
    then show ?thesis using "2.IH"(1) [OF True] "2.prems" by (auto simp: mhas_iff)
  next
    case False
    have w: "weight m (fst ` set (mput v True f)) = s + dep m v"
      using False "2.prems"(3) by (simp add: weight_def fst_set_mput mhas_iff)
    then show ?thesis
      using "2.IH"(2) [OF False refl refl] "2.prems" False wfm_mput [of f v True]
      by (auto simp: Let_def fst_set_mput)
  qed
qed auto

lemma selectValidators_deposit:
  assumes "wfm m" and "selectValidators env p m = Inr f" and "MIN_BLOCK_DEPOSIT \<le> total_dep m"
  shows "MIN_BLOCK_DEPOSIT \<le> weight m (fst ` set f)"
proof (cases "length m \<le> MAX_VALIDATORS")
  case True
  then have "f = map (\<lambda>(v, d). (v, True)) m" using assms(2) by (simp add: selectValidators_def)
  then have "fst ` set f = fst ` set m" by force
  then show ?thesis using assms(1,3) weight_keys by metis
next
  case False
  let ?vs = "sort_key (validatorKey env p) (mkeys m)"
  obtain g s where g: "drawValidators env m (total_dep m) ?vs (InitializeWithSeed p) [] 0 = Inr (g, s)"
    and f: "f = (if length g < MAX_VALIDATORS \<or> MIN_BLOCK_DEPOSIT > s then fillValidators m ?vs g s else g)"
    using assms(2) False by (auto simp: selectValidators_def Let_def split: sum.splits)
  have d: "distinct ?vs" "set ?vs = fst ` set m"
    using assms(1) by (simp_all add: distinct_mkeys set_mkeys)
  have g': "wfm g" "fst ` set g \<subseteq> fst ` set m" "s = weight m (fst ` set g)"
    using draw_invariant [OF g] d sum_list_keys [of g m] by auto
  show ?thesis
  proof (cases "length g < MAX_VALIDATORS \<or> MIN_BLOCK_DEPOSIT > s")
    case True
    then show ?thesis
      using f fill_deposit [OF g'(1) d(1) g'(3)] g'(2) d(2) weight_keys [OF assms(1)] assms(3)
      by (auto simp: Un_absorb1)
  qed (use f g' in auto)
qed

lemma filterValidators_complete:
  assumes "deposits_ok vm" and "m = lowDepositRemoved vm"
    and "MIN_VALIDATORS env \<le> length m" and "MIN_BLOCK_DEPOSIT \<le> total_dep m"
  shows "\<exists>f d q. filterValidators env p vm n = (m, Inr (f, d, q))"
proof -
  have ok: "deposits_ok m" using assms(1,2) low_deposits_ok by simp
  obtain f where f: "selectValidators env p m = Inr f"
    using selectValidators_total [OF ok] assms(4) MIN_BLOCK_DEPOSIT_pos by fastforce
  have wf: "wfm m" using ok by (simp add: deposits_ok_def)
  have "wfm f" using selectValidators_keys [OF wf f] by simp
  then have "\<not> sum_list (map (dep m) (mkeys f)) < MIN_BLOCK_DEPOSIT"
    using selectValidators_deposit [OF wf f assms(4)] sum_list_keys [of f m] by simp
  with f assms(2-4) show ?thesis by (simp add: filterValidators_def Let_def)
qed

text \<open>
  With many validators of small deposits more than \<open>MAX_VALIDATORS\<close> are selected: the second pass
  stops only at exactly that many, so passing it with too little deposit takes everyone.
\<close>

lemma weight_bound:
  "finite A \<Longrightarrow> (\<And>v. v \<in> A \<Longrightarrow> dep m v \<le> b) \<Longrightarrow> weight m A \<le> int (card A) * b"
  unfolding weight_def using sum_bounded_above [of A "dep m" b] by simp

lemma selectValidators_too_many:
  assumes "wfm m" and "selectValidators env p m = Inr f" and "MIN_BLOCK_DEPOSIT \<le> total_dep m"
    and "\<And>v. dep m v \<le> b" and "int MAX_VALIDATORS * b < MIN_BLOCK_DEPOSIT"
  shows "MAX_VALIDATORS < length f"
proof (rule ccontr)
  assume few: "\<not> MAX_VALIDATORS < length f"
  have f: "wfm f" using selectValidators_keys [OF assms(1,2)] by simp
  then have card: "card (fst ` set f) = length f"
    by (metis distinct_card length_map set_map wfm_def)
  have "MIN_BLOCK_DEPOSIT \<le> weight m (fst ` set f)" by (rule selectValidators_deposit [OF assms(1-3)])
  also have "\<dots> \<le> int (length f) * b" using weight_bound [of "fst ` set f" m b] assms(4) card by simp
  finally have le: "MIN_BLOCK_DEPOSIT \<le> int (length f) * b" .
  then have "0 \<le> b" using MIN_BLOCK_DEPOSIT_pos by (smt (verit) mult_nonneg_nonpos of_nat_0_le_iff)
  with few have "int (length f) * b \<le> int MAX_VALIDATORS * b" by (intro mult_right_mono) auto
  with le assms(5) show False by linarith
qed

end
