(* ===== verification/Pos_Peers.thy ===== *)
theory Pos_Peers
  imports Pos_Validators
begin

text \<open>
  The relay network of the consensus (\<open>PeerHandler.go\<close>): which peers are relays, which peers
  asked to be sent packets, and the forwarding of every packet at most once to each of them.

  Concurrency. A function that holds \<open>peerLock\<close> is one step on the record \<open>peerHandler\<close>. A
  \<open>go\<close> statement does not run its body: it appends a \<open>task\<close> to \<open>spawned\<close>, and \<open>run_task\<close> runs
  one later, so every interleaving of the goroutines is a sequence of steps. What is handed to
  \<open>SendConsensusPacket\<close> of the network handler is recorded in \<open>sentLog\<close>; its result is the
  parameter \<open>sendConsensusPacket\<close>. \<open>getLatestBlockNumberFn\<close> is the argument \<open>latest\<close>. The signing
  function is installed in both handlers at once (\<open>Authorize\<close>) and is the field \<open>signFn\<close> of the
  environment.
\<close>

section \<open>Messages\<close>

text \<open>\<open>CapabilityDetails\<close> and \<open>RequestConsensusSyncDetails\<close> have the same fields.\<close>

record relayDetails =
  IsConsensusRelay :: bool
  PeerId :: string

definition bytes_str :: "bytes \<Rightarrow> string" where
  "bytes_str b = map (\<lambda>x. char_of (unat x)) b"

definition T_Relay :: rtyp where
  "T_Relay = TStruct [TBool, TBytes]"

definition V_Relay :: "relayDetails \<Rightarrow> rval" where
  "V_Relay d = VStruct [VBool (IsConsensusRelay d), VBytes (str_bytes (PeerId d))]"

fun relay_of :: "rval \<Rightarrow> relayDetails option" where
  "relay_of (VStruct [VBool r, VBytes p]) = Some \<lparr>IsConsensusRelay = r, PeerId = bytes_str p\<rparr>"
| "relay_of _ = None"

abbreviation decodeRelay :: "bytes \<Rightarrow> perr + relayDetails" where
  "decodeRelay \<equiv> decodeDetails T_Relay relay_of"

section \<open>State\<close>

record peerDetails =
  capabilityDetails :: "relayDetails option"
  pd_peerId :: string

record packetSyncDetails =
  incomingPeerMap :: "(string, bool) gomap"
  sd_packet :: packet
  sendPeerMap :: "(string, bool) gomap"

datatype task = GoSendCapability "string list" | GoConnectRelay
  | GoHandleCapability relayDetails string | GoHandleSync relayDetails string
  | GoBroadcastSync packet string | GoBroadcastRelays packet string | GoSendSync string
  | GoSend "string list" packet | GoCapabilityAll | GoCapabilityDelta

record peerHandler =
  peerMap :: "(string, peerDetails) gomap"
  hasP2P :: bool
  isConsensusRelay :: bool
  localPeerId :: string
  consensusRelayMap :: "(string, bool) gomap"
  syncPeerMap :: "(string, bool) gomap"
  packetSyncMap :: "(hash, packetSyncDetails) gomap"
  peerParentHash :: hash
  peerBlockNumber :: u64
  totalBlocks :: int
  packetsReceivedTotal :: int
  packetsReceivedFromRelayTotal :: int
  packetsSent :: int
  packetsSentToRelays :: int
  localPacketsSentToRelays :: int
  packetsReceivedTotalCurrentParentHash :: int
  packetsReceivedFromRelayTotalCurrentParentHash :: int
  packetsSentCurrentParentHash :: int
  packetsSentToRelaysCurrentParentHash :: int
  localPacketsSentToRelaysCurrentParentHash :: int
  spawned :: "task list"
  sentLog :: "(string list \<times> packet) list"

definition go :: "task \<Rightarrow> peerHandler \<Rightarrow> peerHandler" where
  "go t p = p\<lparr>spawned := spawned p @ [t]\<rparr>"

text \<open>\<open>m[k] == true\<close> on a \<open>map[string]bool\<close>.\<close>

definition flag :: "(string, bool) gomap \<Rightarrow> string \<Rightarrow> bool" where
  "flag m k \<longleftrightarrow> mget m k = Some True"

definition NewPeerHandler :: "bool \<Rightarrow> peerHandler" where
  "NewPeerHandler relay =
    \<lparr>peerMap = [], hasP2P = False, isConsensusRelay = relay, localPeerId = [],
     consensusRelayMap = [], syncPeerMap = [], packetSyncMap = [],
     peerParentHash = ZERO_HASH, peerBlockNumber = 0, totalBlocks = 0,
     packetsReceivedTotal = 0, packetsReceivedFromRelayTotal = 0, packetsSent = 0,
     packetsSentToRelays = 0, localPacketsSentToRelays = 0,
     packetsReceivedTotalCurrentParentHash = 0,
     packetsReceivedFromRelayTotalCurrentParentHash = 0, packetsSentCurrentParentHash = 0,
     packetsSentToRelaysCurrentParentHash = 0, localPacketsSentToRelaysCurrentParentHash = 0,
     spawned = [], sentLog = []\<rparr>"

definition peer_SetP2PHandler :: "string \<Rightarrow> peerHandler \<Rightarrow> peerHandler" where
  "peer_SetP2PHandler lid p = p\<lparr>hasP2P := True, localPeerId := lid\<rparr>"

section \<open>Connections\<close>

definition peer_OnPeerConnected :: "string \<Rightarrow> peerHandler \<Rightarrow> peerHandler" where
  "peer_OnPeerConnected peerId p =
    (let p1 = p\<lparr>peerMap := mput peerId \<lparr>capabilityDetails = None, pd_peerId = peerId\<rparr> (peerMap p)\<rparr>
     in if isConsensusRelay p1 then go (GoSendCapability [peerId]) p1 else p1)"

definition peer_OnPeerDisconnected :: "string \<Rightarrow> peerHandler \<Rightarrow> peerHandler" where
  "peer_OnPeerDisconnected peerId p =
    (let p1 = p\<lparr>peerMap := mdel peerId (peerMap p),
                 consensusRelayMap := mdel peerId (consensusRelayMap p),
                 syncPeerMap := mdel peerId (syncPeerMap p)\<rparr>
     in if consensusRelayMap p1 = [] then go GoConnectRelay p1 else p1)"

definition HandleCapabilityPacket :: "relayDetails \<Rightarrow> string \<Rightarrow> peerHandler \<Rightarrow> peerHandler" where
  "HandleCapabilityPacket d fromPeerId p =
    (if \<not> IsConsensusRelay d \<or> fromPeerId \<noteq> PeerId d then p
     else
       let p1 = p\<lparr>peerMap := mput (PeerId d)
                   \<lparr>capabilityDetails = Some d, pd_peerId = PeerId d\<rparr> (peerMap p)\<rparr>
       in if isConsensusRelay p1 \<or> consensusRelayMap p1 = [] then go (GoSendSync (PeerId d)) p1 else p1)"

definition HandleRequestConsensusSync :: "relayDetails \<Rightarrow> string \<Rightarrow> peerHandler \<Rightarrow> peerHandler" where
  "HandleRequestConsensusSync d fromPeerId p =
    (if fromPeerId \<noteq> PeerId d then p
     else p\<lparr>syncPeerMap := mput (PeerId d) True (syncPeerMap p)\<rparr>)"

text \<open>The first peer with relay capability in the order of the map; a peer without details panics.\<close>

fun firstRelay :: "(string, peerDetails) gomap \<Rightarrow> perr + string option" where
  "firstRelay [] = Inr None"
| "firstRelay ((k, v) # rest) =
    (case capabilityDetails v of
       None \<Rightarrow> Inl (Panic ''nil pointer dereference'')
     | Some d \<Rightarrow> if IsConsensusRelay d then Inr (Some k) else firstRelay rest)"

definition ConnectAvailableConsensusRelay :: "peerHandler \<Rightarrow> peerHandler \<times> perr option" where
  "ConnectAvailableConsensusRelay p =
    (case firstRelay (peerMap p) of
       Inl e \<Rightarrow> (p, Some e)
     | Inr None \<Rightarrow> (p, None)
     | Inr (Some k) \<Rightarrow> (go (GoSendSync k) p, None))"

section \<open>Sending capabilities and requests\<close>

definition peer_CreateConsensusPacket :: "penv \<Rightarrow> bytes \<Rightarrow> perr + packet" where
  "peer_CreateConsensusPacket env data =
    (case signFn env of
       None \<Rightarrow> Inl (ErrText ''signFn is not set'')
     | Some sign \<Rightarrow>
         (case sign (ZERO_HASH @ data) of
            Inl e \<Rightarrow> Inl e
          | Inr signature \<Rightarrow>
              Inr \<lparr>ParentHash = ZERO_HASH, Signature = signature, ConsensusData = data\<rparr>))"

definition createRelayPacket :: "penv \<Rightarrow> byte \<Rightarrow> relayDetails \<Rightarrow> perr + packet" where
  "createRelayPacket env packetType d =
    (case encodeDetails (V_Relay d) of
       Inl e \<Rightarrow> Inl e
     | Inr data \<Rightarrow> peer_CreateConsensusPacket env ([ConsensusNetworkProtocolVersion] @ [packetType] @ data))"

definition SendCapabilityPacket ::
    "penv \<Rightarrow> u64 \<Rightarrow> string list \<Rightarrow> peerHandler \<Rightarrow> peerHandler \<times> perr option" where
  "SendCapabilityPacket env latest peerList p =
    (if \<not> hasP2P p \<or> \<not> isConsensusRelay p \<or> latest < PACKET_PROTOCOL_START_BLOCK then (p, None)
     else
       case createRelayPacket env CONSENSUS_PACKET_TYPE_CAPABILITY
              \<lparr>IsConsensusRelay = True, PeerId = localPeerId p\<rparr> of
         Inl e \<Rightarrow> (p, Some e)
       | Inr packet \<Rightarrow>
           (p\<lparr>sentLog := sentLog p @ [(peerList, packet)]\<rparr>, sendConsensusPacket env peerList packet))"

definition SendRequestConsensusSyncPacket ::
    "penv \<Rightarrow> u64 \<Rightarrow> string \<Rightarrow> peerHandler \<Rightarrow> peerHandler \<times> perr option" where
  "SendRequestConsensusSyncPacket env latest peerId p =
    (if \<not> hasP2P p \<or> latest < PACKET_PROTOCOL_START_BLOCK then (p, None)
     else
       case createRelayPacket env CONSENSUS_PACKET_TYPE_SYNC
              \<lparr>IsConsensusRelay = isConsensusRelay p, PeerId = localPeerId p\<rparr> of
         Inl e \<Rightarrow> (p, Some e)
       | Inr packet \<Rightarrow>
           let p1 = p\<lparr>sentLog := sentLog p @ [([peerId], packet)]\<rparr> in
           (case sendConsensusPacket env [peerId] packet of
              Some e \<Rightarrow> (p1, Some e)
            | None \<Rightarrow> (p1\<lparr>consensusRelayMap := mput peerId True (consensusRelayMap p1)\<rparr>, None)))"

definition SendCapabilityToDeltaPeers :: "penv \<Rightarrow> u64 \<Rightarrow> peerHandler \<Rightarrow> peerHandler \<times> perr option" where
  "SendCapabilityToDeltaPeers env latest p =
    SendCapabilityPacket env latest (filter (\<lambda>k. \<not> flag (syncPeerMap p) k) (mkeys (peerMap p))) p"

definition SendCapabilityToAllPeers :: "penv \<Rightarrow> u64 \<Rightarrow> peerHandler \<Rightarrow> peerHandler \<times> perr option" where
  "SendCapabilityToAllPeers env latest p = SendCapabilityPacket env latest (mkeys (peerMap p)) p"

section \<open>Forwarding packets\<close>

definition syncEntry :: "penv \<Rightarrow> packet \<Rightarrow> peerHandler \<Rightarrow> packetSyncDetails" where
  "syncEntry env packet p =
    (case mget (packetSyncMap p) (packet_Hash env packet) of
       Some d \<Rightarrow> d
     | None \<Rightarrow> \<lparr>incomingPeerMap = [], sd_packet = packet, sendPeerMap = []\<rparr>)"

text \<open>The loop over the relays: who gets the packet, and the map of those who did.\<close>

fun selectRelays ::
    "(string, bool) gomap \<Rightarrow> (string, bool) gomap \<Rightarrow> string list \<Rightarrow> string list \<times> (string, bool) gomap" where
  "selectRelays incoming sent [] = ([], sent)"
| "selectRelays incoming sent (k # ks) =
    (if mhas sent k \<or> mhas incoming k then selectRelays incoming sent ks
     else
       let (l, sent') = selectRelays incoming (mput k True sent) ks
       in (k # l, sent'))"

definition BroadcastToConsensusRelays :: "penv \<Rightarrow> packet \<Rightarrow> string \<Rightarrow> peerHandler \<Rightarrow> peerHandler \<times> nat" where
  "BroadcastToConsensusRelays env packet fromPeerId p =
    (let d = syncEntry env packet p;
         incoming = mput fromPeerId True (incomingPeerMap d);
         (sendList, sent) = selectRelays incoming (sendPeerMap d) (mkeys (consensusRelayMap p));
         p1 = p\<lparr>packetSyncMap := mput (packet_Hash env packet)
                  (d\<lparr>sendPeerMap := sent, incomingPeerMap := incoming\<rparr>) (packetSyncMap p),
                packetsSentToRelaysCurrentParentHash :=
                  packetsSentToRelaysCurrentParentHash p + int (length sendList)\<rparr>;
         p2 = (if fromPeerId = localPeerId p1
               then p1\<lparr>localPacketsSentToRelaysCurrentParentHash :=
                        localPacketsSentToRelaysCurrentParentHash p1 + int (length sendList)\<rparr>
               else p1)
     in (go (GoSend sendList packet) p2, length sendList))"

text \<open>The loop over the peers that asked for packets; the sender is skipped first.\<close>

fun selectSyncPeers ::
    "string \<Rightarrow> (string, bool) gomap \<Rightarrow> (string, bool) gomap \<Rightarrow> string list
      \<Rightarrow> string list \<times> (string, bool) gomap" where
  "selectSyncPeers from incoming sent [] = ([], sent)"
| "selectSyncPeers from incoming sent (k # ks) =
    (if k = from \<or> mhas sent k \<or> mhas incoming k then selectSyncPeers from incoming sent ks
     else
       let (l, sent') = selectSyncPeers from incoming (mput k True sent) ks
       in (k # l, sent'))"

definition BroadcastToSyncPeers :: "penv \<Rightarrow> packet \<Rightarrow> string \<Rightarrow> peerHandler \<Rightarrow> peerHandler \<times> nat" where
  "BroadcastToSyncPeers env packet fromPeerId p =
    (if ParentHash packet \<noteq> peerParentHash p then (p, 0)
     else
       let d = syncEntry env packet p;
           incoming = mput fromPeerId True (incomingPeerMap d);
           (sendPeerList, sent) = selectSyncPeers fromPeerId incoming (sendPeerMap d) (mkeys (syncPeerMap p));
           p1 = p\<lparr>packetSyncMap := mput (packet_Hash env packet)
                    (d\<lparr>incomingPeerMap := incoming, sendPeerMap := sent\<rparr>) (packetSyncMap p),
                  packetsSentCurrentParentHash := packetsSentCurrentParentHash p + int (length sendPeerList)\<rparr>
       in (go (GoSend sendPeerList packet) p1, length sendPeerList))"

definition BroadcastLocalPacket :: "penv \<Rightarrow> packet \<Rightarrow> peerHandler \<Rightarrow> peerHandler \<times> nat" where
  "BroadcastLocalPacket env packet p =
    (if isConsensusRelay p then
       let (p1, syncPeerCount) = BroadcastToSyncPeers env packet (localPeerId p) p;
           (p2, consensusRelayCount) = BroadcastToConsensusRelays env packet (localPeerId p1) p1
       in (p2, syncPeerCount + consensusRelayCount)
     else BroadcastToConsensusRelays env packet (localPeerId p) p)"

section \<open>Incoming packets\<close>

definition peer_HandleConsensusPacket :: "packet \<Rightarrow> string \<Rightarrow> peerHandler \<Rightarrow> peerHandler \<times> perr option" where
  "peer_HandleConsensusPacket packet fromPeerId p =
    (if Signature packet = [] \<or> ConsensusData packet = [] then (p, Some InvalidPacketErr)
     else
       case getPacketType packet of
         Inl e \<Rightarrow> (p, Some e)
       | Inr packetType \<Rightarrow>
           if packetType = CONSENSUS_PACKET_TYPE_CAPABILITY then
             (case decodeRelay (packetBody packet) of
                Inl e \<Rightarrow> (p, Some e)
              | Inr d \<Rightarrow> (go (GoHandleCapability d fromPeerId) p, None))
           else if packetType = CONSENSUS_PACKET_TYPE_SYNC then
             (case decodeRelay (packetBody packet) of
                Inl e \<Rightarrow> (p, Some e)
              | Inr d \<Rightarrow> (go (GoHandleSync d fromPeerId) p, None))
           else if packetType \<ge> CONSENSUS_PACKET_TYPE_PROPOSE_BLOCK \<and>
                   packetType \<le> CONSENSUS_PACKET_TYPE_COMMIT_BLOCK then
             let p1 = p\<lparr>packetsReceivedTotalCurrentParentHash := packetsReceivedTotalCurrentParentHash p + 1\<rparr>;
                 p2 = (if flag (consensusRelayMap p1) fromPeerId
                       then p1\<lparr>packetsReceivedFromRelayTotalCurrentParentHash :=
                                packetsReceivedFromRelayTotalCurrentParentHash p1 + 1\<rparr>
                       else p1);
                 p3 = (if isConsensusRelay p2 then
                         let p3 = go (GoBroadcastSync packet fromPeerId) p2 in
                         if flag (syncPeerMap p3) fromPeerId
                         then go (GoBroadcastRelays packet fromPeerId) p3 else p3
                       else p2)
             in (p3, None)
           else (p, None))"

section \<open>A new parent block\<close>

definition peer_SetCurrentParentHash :: "hash \<Rightarrow> u64 \<Rightarrow> peerHandler \<Rightarrow> peerHandler" where
  "peer_SetCurrentParentHash parentHash blockNumber p =
    (let p1 = p\<lparr>totalBlocks := totalBlocks p + 1,
                packetsReceivedTotal := packetsReceivedTotal p + packetsReceivedTotalCurrentParentHash p,
                packetsReceivedFromRelayTotal :=
                  packetsReceivedFromRelayTotal p + packetsReceivedFromRelayTotalCurrentParentHash p,
                packetsSent := packetsSent p + packetsSentCurrentParentHash p,
                packetsSentToRelays := packetsSentToRelays p + packetsSentToRelaysCurrentParentHash p,
                localPacketsSentToRelays :=
                  localPacketsSentToRelays p + localPacketsSentToRelaysCurrentParentHash p\<rparr>;
         p2 = p1\<lparr>peerParentHash := parentHash, peerBlockNumber := blockNumber,
                 packetsReceivedTotalCurrentParentHash := 0,
                 packetsReceivedFromRelayTotalCurrentParentHash := 0,
                 packetsSentCurrentParentHash := 0,
                 packetsSentToRelaysCurrentParentHash := 0,
                 localPacketsSentToRelaysCurrentParentHash := 0\<rparr>;
         p3 = p2\<lparr>packetSyncMap :=
                   filter (\<lambda>(k, v). ParentHash (sd_packet v) = peerParentHash p2) (packetSyncMap p2)\<rparr>
     in if isConsensusRelay p3 then
          if blockNumber = PACKET_PROTOCOL_START_BLOCK then go GoCapabilityAll p3
          else if blockNumber > PACKET_PROTOCOL_START_BLOCK \<and>
                  length (peerMap p3) > length (syncPeerMap p3) \<and> blockNumber mod 128 = 0
          then go GoCapabilityDelta p3 else p3
        else p3)"

section \<open>Goroutines\<close>

text \<open>A panic in a goroutine ends the process.\<close>

fun run_task :: "penv \<Rightarrow> u64 \<Rightarrow> task \<Rightarrow> peerHandler \<Rightarrow> peerHandler \<times> perr option" where
  "run_task env latest (GoSendCapability l) p = SendCapabilityPacket env latest l p"
| "run_task env latest GoConnectRelay p = ConnectAvailableConsensusRelay p"
| "run_task env latest (GoHandleCapability d from) p = (HandleCapabilityPacket d from p, None)"
| "run_task env latest (GoHandleSync d from) p = (HandleRequestConsensusSync d from p, None)"
| "run_task env latest (GoBroadcastSync packet from) p = (fst (BroadcastToSyncPeers env packet from p), None)"
| "run_task env latest (GoBroadcastRelays packet from) p =
    (fst (BroadcastToConsensusRelays env packet from p), None)"
| "run_task env latest (GoSendSync k) p = SendRequestConsensusSyncPacket env latest k p"
| "run_task env latest (GoSend l packet) p =
    (if hasP2P p then (p\<lparr>sentLog := sentLog p @ [(l, packet)]\<rparr>, sendConsensusPacket env l packet)
     else (p, Some (Panic ''nil pointer dereference'')))"
| "run_task env latest GoCapabilityAll p = SendCapabilityToAllPeers env latest p"
| "run_task env latest GoCapabilityDelta p = SendCapabilityToDeltaPeers env latest p"

section \<open>Wire format\<close>

lemma bytes_str_str_bytes [simp]: "bytes_str (str_bytes s) = s"
  by (simp add: bytes_str_def str_bytes_def comp_def unat_byte_of_nat)

lemma str_bytes_bytes_str [simp]: "str_bytes (bytes_str b) = b"
proof -
  have "word_of_nat (of_char (char_of (unat x) :: char)) = x" for x :: byte
    using unat_byte_less [of x] by (intro word_eqI_unat) (simp add: of_char_of unat_byte_of_nat)
  then show ?thesis by (simp add: bytes_str_def str_bytes_def comp_def)
qed

interpretation relay_msg: message T_Relay V_Relay relay_of "\<lambda>d. True"
proof
  show "go_type T_Relay" by (simp add: T_Relay_def)
  fix d :: relayDetails
  show "encodable (V_Relay d)" by (auto simp: V_Relay_def)
  show "relay_of (V_Relay d) = Some d" by (simp add: V_Relay_def)
  show "has_type T_Relay (V_Relay d)" by (simp add: T_Relay_def V_Relay_def)
next
  fix v
  assume "has_type T_Relay v"
  then obtain r w where v: "v = VStruct [VBool r, w]" "has_type TBytes w"
    by (auto simp: T_Relay_def has_type_iffs)
  then obtain b where "w = VBytes b" by (cases w) auto
  with v show "\<exists>d. relay_of v = Some d \<and> V_Relay d = v \<and> True" by (simp add: V_Relay_def)
qed

section \<open>Traces of the relay\<close>

text \<open>
  The operations of the handler as steps. \<open>OpTask i\<close> runs the \<open>i\<close>-th waiting goroutine. A step
  returns the sends it starts, as pairs of a peer and a packet hash.
\<close>

datatype peer_op = OpConnected string | OpDisconnected string | OpPacket packet string
  | OpLocal packet | OpNewParent hash u64 | OpTask nat

definition spawnedSends :: "penv \<Rightarrow> task list \<Rightarrow> (string \<times> hash) list" where
  "spawnedSends env ts =
    concat (map (\<lambda>t. case t of GoSend l pk \<Rightarrow> map (\<lambda>k. (k, packet_Hash env pk)) l | _ \<Rightarrow> []) ts)"

definition removeTask :: "nat \<Rightarrow> peerHandler \<Rightarrow> peerHandler" where
  "removeTask i p = p\<lparr>spawned := take i (spawned p) @ drop (Suc i) (spawned p)\<rparr>"

fun op_start :: "peer_op \<Rightarrow> peerHandler \<Rightarrow> peerHandler" where
  "op_start (OpTask i) p = removeTask i p"
| "op_start _ p = p"

fun op_run :: "penv \<Rightarrow> u64 \<Rightarrow> peer_op \<Rightarrow> peerHandler \<Rightarrow> peerHandler" where
  "op_run env latest (OpConnected k) p = peer_OnPeerConnected k p"
| "op_run env latest (OpDisconnected k) p = peer_OnPeerDisconnected k p"
| "op_run env latest (OpPacket packet from) p = fst (peer_HandleConsensusPacket packet from p)"
| "op_run env latest (OpLocal packet) p = fst (BroadcastLocalPacket env packet p)"
| "op_run env latest (OpNewParent h n) p = peer_SetCurrentParentHash h n p"
| "op_run env latest (OpTask i) p =
    (if i < length (spawned p) then fst (run_task env latest (spawned p ! i) (removeTask i p)) else p)"

definition op_sends :: "penv \<Rightarrow> u64 \<Rightarrow> peer_op \<Rightarrow> peerHandler \<Rightarrow> (string \<times> hash) list" where
  "op_sends env latest op p =
    spawnedSends env (drop (length (spawned (op_start op p))) (spawned (op_run env latest op p)))"

fun run_ops :: "penv \<Rightarrow> u64 \<Rightarrow> peer_op list \<Rightarrow> peerHandler \<Rightarrow> peerHandler \<times> (string \<times> hash) list" where
  "run_ops env latest [] p = (p, [])"
| "run_ops env latest (op # ops) p =
    (let (p', sends) = run_ops env latest ops (op_run env latest op p)
     in (p', op_sends env latest op p @ sends))"

fun isNewParent :: "peer_op \<Rightarrow> bool" where
  "isNewParent (OpNewParent h n) = True"
| "isNewParent _ = False"

section \<open>Each packet goes to a peer at most once\<close>

lemma selectRelays_spec:
  "selectRelays inc sent ks = (l, sent') \<Longrightarrow>
    distinct l \<and> set l \<inter> fst ` set sent = {} \<and> set l \<inter> fst ` set inc = {} \<and> set l \<subseteq> set ks \<and>
    fst ` set sent' = fst ` set sent \<union> set l"
proof (induction inc sent ks arbitrary: l rule: selectRelays.induct)
  case (2 inc sent k ks)
  show ?case
  proof (cases "mhas sent k \<or> mhas inc k")
    case True
    with "2.IH"(1) [OF True] "2.prems" show ?thesis by auto
  next
    case False
    obtain l1 where l1: "selectRelays inc (mput k True sent) ks = (l1, sent')" "l = k # l1"
      using "2.prems" False by (auto split: prod.splits)
    note IH = "2.IH"(2) [OF False l1(1)]
    have "k \<notin> set l1" using IH by (auto simp: fst_set_mput)
    moreover have "k \<notin> fst ` set sent" "k \<notin> fst ` set inc" using False by (simp_all add: mhas_iff)
    ultimately show ?thesis using IH l1(2) by (auto simp: fst_set_mput)
  qed
qed auto

lemma selectSyncPeers_relays:
  "selectSyncPeers k0 inc sent ks = selectRelays inc sent (filter (\<lambda>k. k \<noteq> k0) ks)"
  by (induction k0 inc sent ks rule: selectSyncPeers.induct) auto

text \<open>The pairs of peers and packets that are already recorded as sent.\<close>

definition recorded :: "peerHandler \<Rightarrow> (string \<times> hash) set" where
  "recorded p = {(k, h). \<exists>d. mget (packetSyncMap p) h = Some d \<and> k \<in> fst ` set (sendPeerMap d)}"

text \<open>
  A step \<open>forwards\<close> the list of sends \<open>l\<close>: they are new, distinct, recorded afterwards, and
  counted by the statistics.
\<close>

definition sentCount :: "peerHandler \<Rightarrow> int" where
  "sentCount p = packetsSent p + packetsSentCurrentParentHash p +
     packetsSentToRelays p + packetsSentToRelaysCurrentParentHash p"

definition forwards :: "(string \<times> hash) list \<Rightarrow> peerHandler \<Rightarrow> peerHandler \<Rightarrow> bool" where
  "forwards l p p' \<longleftrightarrow> distinct l \<and> set l \<inter> recorded p = {} \<and> recorded p' = recorded p \<union> set l \<and>
     sentCount p' = sentCount p + int (length l)"

lemma forwards_trans: "forwards l p p' \<Longrightarrow> forwards l' p' p'' \<Longrightarrow> forwards (l @ l') p p''"
  by (auto simp: forwards_def)

text \<open>A step that leaves the sync map and the statistics of sends alone and starts no send.\<close>

definition quiet :: "peerHandler \<Rightarrow> peerHandler \<Rightarrow> bool" where
  "quiet p p' \<longleftrightarrow> packetSyncMap p' = packetSyncMap p \<and> sentCount p' = sentCount p \<and>
     (\<exists>ts. spawned p' = spawned p @ ts \<and> (\<forall>l pk. GoSend l pk \<notin> set ts))"

lemma quiet_sends:
  assumes "quiet p p'"
  shows "forwards [] p p'" and "spawnedSends env (drop (length (spawned p)) (spawned p')) = []"
proof -
  show "forwards [] p p'" using assms by (simp add: quiet_def forwards_def recorded_def)
  obtain ts where ts: "spawned p' = spawned p @ ts" "\<forall>l pk. GoSend l pk \<notin> set ts"
    using assms by (auto simp: quiet_def)
  then have "\<forall>t\<in>set ts. (case t of GoSend l pk \<Rightarrow> map (\<lambda>k. (k, packet_Hash env pk)) l | _ \<Rightarrow> []) = []"
    by (auto split: task.split)
  with ts(1) show "spawnedSends env (drop (length (spawned p)) (spawned p')) = []"
    by (simp add: spawnedSends_def)
qed

lemma quiet_refl [simp]: "quiet p p"
  by (simp add: quiet_def)

lemma quiet_send: "quiet p (p\<lparr>sentLog := x\<rparr>)"
  by (simp add: quiet_def sentCount_def)

lemmas quiet_simps = quiet_def sentCount_def go_def

lemma quiet_ops:
  "quiet p (peer_OnPeerConnected k p)" "quiet p (peer_OnPeerDisconnected k p)"
  "quiet p (HandleCapabilityPacket d k p)" "quiet p (HandleRequestConsensusSync d k p)"
  "quiet p (fst (ConnectAvailableConsensusRelay p))"
  "quiet p (fst (SendCapabilityPacket env n l p))"
  "quiet p (fst (SendRequestConsensusSyncPacket env n k p))"
  "quiet p (fst (SendCapabilityToDeltaPeers env n p))" "quiet p (fst (SendCapabilityToAllPeers env n p))"
  by (auto simp: quiet_simps peer_OnPeerConnected_def peer_OnPeerDisconnected_def
      HandleCapabilityPacket_def HandleRequestConsensusSync_def ConnectAvailableConsensusRelay_def
      SendCapabilityPacket_def SendRequestConsensusSyncPacket_def SendCapabilityToDeltaPeers_def
      SendCapabilityToAllPeers_def Let_def split: sum.split option.split)

lemma quiet_packet: "quiet p (fst (peer_HandleConsensusPacket pk k p))"
  by (auto simp: quiet_simps peer_HandleConsensusPacket_def Let_def split: sum.split)

lemma recorded_put:
  assumes "fst ` set (sendPeerMap d') = fst ` set (sendPeerMap (syncEntry env pk p)) \<union> A"
    and "packetSyncMap p' = mput (packet_Hash env pk) d' (packetSyncMap p)"
  shows "recorded p' = recorded p \<union> {(k, packet_Hash env pk) |k. k \<in> A}"
  using assms by (auto simp: recorded_def mget_mput syncEntry_def split: option.splits if_splits)

lemma recorded_entry:
  "(k, packet_Hash env pk) \<in> recorded p \<longleftrightarrow> k \<in> fst ` set (sendPeerMap (syncEntry env pk p))"
  by (auto simp: recorded_def syncEntry_def split: option.split)

text \<open>Both broadcasts are one update: the selected peers \<open>l\<close> are new and recorded.\<close>

definition sendsOf :: "penv \<Rightarrow> packet \<Rightarrow> string list \<Rightarrow> (string \<times> hash) list" where
  "sendsOf env pk l = map (\<lambda>k. (k, packet_Hash env pk)) l"

lemma broadcast_forwards:
  assumes "selectRelays inc (sendPeerMap (syncEntry env pk p)) ks = (l, sent)"
    and "packetSyncMap p' = mput (packet_Hash env pk) d (packetSyncMap p)" and "sendPeerMap d = sent"
    and "sentCount p' = sentCount p + int (length l)"
  shows "forwards (sendsOf env pk l) p p'"
proof -
  note sel = selectRelays_spec [OF assms(1)]
  have "recorded p' = recorded p \<union> {(k, packet_Hash env pk) |k. k \<in> set l}"
    by (rule recorded_put [OF _ assms(2)]) (use sel assms(3) in simp)
  moreover have "set (sendsOf env pk l) = {(k, packet_Hash env pk) |k. k \<in> set l}"
    by (auto simp: sendsOf_def)
  moreover have "set (sendsOf env pk l) \<inter> recorded p = {}"
    using sel by (auto simp: sendsOf_def recorded_entry)
  moreover have "distinct (sendsOf env pk l)"
    using sel by (auto simp: sendsOf_def distinct_map inj_on_def)
  ultimately show ?thesis using assms(4) by (simp add: forwards_def sendsOf_def)
qed

lemma relays_step:
  "\<exists>l. forwards (sendsOf env pk l) p (fst (BroadcastToConsensusRelays env pk k p)) \<and>
     spawned (fst (BroadcastToConsensusRelays env pk k p)) = spawned p @ [GoSend l pk] \<and>
     length l = snd (BroadcastToConsensusRelays env pk k p) \<and> k \<notin> set l \<and>
     set l \<subseteq> fst ` set (consensusRelayMap p)"
proof -
  let ?inc = "mput k True (incomingPeerMap (syncEntry env pk p))"
  obtain l sent where sel: "selectRelays ?inc (sendPeerMap (syncEntry env pk p)) (mkeys (consensusRelayMap p)) = (l, sent)"
    by fastforce
  have "forwards (sendsOf env pk l) p (fst (BroadcastToConsensusRelays env pk k p))"
    by (rule broadcast_forwards [OF sel, where d = "syncEntry env pk p\<lparr>sendPeerMap := sent, incomingPeerMap := ?inc\<rparr>"])
      (simp_all add: BroadcastToConsensusRelays_def sel Let_def go_def sentCount_def)
  moreover have "k \<notin> set l" "set l \<subseteq> fst ` set (consensusRelayMap p)"
    using selectRelays_spec [OF sel] by (auto simp: fst_set_mput set_mkeys)
  ultimately show ?thesis
    by (intro exI [of _ l]) (simp add: BroadcastToConsensusRelays_def sel Let_def go_def)
qed

lemma sync_step:
  assumes "ParentHash pk = peerParentHash p"
  shows "\<exists>l. forwards (sendsOf env pk l) p (fst (BroadcastToSyncPeers env pk k p)) \<and>
     spawned (fst (BroadcastToSyncPeers env pk k p)) = spawned p @ [GoSend l pk] \<and>
     length l = snd (BroadcastToSyncPeers env pk k p) \<and> k \<notin> set l \<and>
     set l \<subseteq> fst ` set (syncPeerMap p)"
proof -
  let ?inc = "mput k True (incomingPeerMap (syncEntry env pk p))"
  obtain l sent where sel: "selectRelays ?inc (sendPeerMap (syncEntry env pk p))
      (filter (\<lambda>x. x \<noteq> k) (mkeys (syncPeerMap p))) = (l, sent)"
    by fastforce
  have "forwards (sendsOf env pk l) p (fst (BroadcastToSyncPeers env pk k p))"
    by (rule broadcast_forwards [OF sel, where d = "syncEntry env pk p\<lparr>incomingPeerMap := ?inc, sendPeerMap := sent\<rparr>"])
      (use assms in \<open>simp_all add: BroadcastToSyncPeers_def selectSyncPeers_relays sel Let_def go_def sentCount_def\<close>)
  moreover have "k \<notin> set l" "set l \<subseteq> fst ` set (syncPeerMap p)"
    using selectRelays_spec [OF sel] by (auto simp: fst_set_mput set_mkeys)
  ultimately show ?thesis using assms
    by (intro exI [of _ l]) (simp add: BroadcastToSyncPeers_def selectSyncPeers_relays sel Let_def go_def)
qed

lemma spawnedSends_append [simp]: "spawnedSends env (a @ b) = spawnedSends env a @ spawnedSends env b"
  by (simp add: spawnedSends_def)

lemma spawnedSends_GoSend [simp]: "spawnedSends env [GoSend l pk] = sendsOf env pk l"
  by (simp add: spawnedSends_def sendsOf_def)

text \<open>A step forwards what it spawns: the common form of all steps.\<close>

definition steps_to :: "penv \<Rightarrow> peerHandler \<Rightarrow> peerHandler \<Rightarrow> bool" where
  "steps_to env p p' \<longleftrightarrow> (\<exists>ts. spawned p' = spawned p @ ts \<and> forwards (spawnedSends env ts) p p')"

lemma steps_to_quiet: "quiet p p' \<Longrightarrow> steps_to env p p'"
  using quiet_sends(1) [of p p'] quiet_sends(2) [of p p' env]
  by (auto simp: steps_to_def quiet_def)

lemma steps_to_trans: "steps_to env p p' \<Longrightarrow> steps_to env p' p'' \<Longrightarrow> steps_to env p p''"
  by (auto simp: steps_to_def intro: forwards_trans)

lemma steps_to_relays: "steps_to env p (fst (BroadcastToConsensusRelays env pk k p))"
  using relays_step [of env pk p k] by (auto simp: steps_to_def)

lemma steps_to_sync: "steps_to env p (fst (BroadcastToSyncPeers env pk k p))"
proof (cases "ParentHash pk = peerParentHash p")
  case True
  with sync_step [OF True, of env k] show ?thesis by (auto simp: steps_to_def)
qed (simp add: BroadcastToSyncPeers_def steps_to_quiet)

lemma steps_to_local: "steps_to env p (fst (BroadcastLocalPacket env pk p))"
proof (cases "isConsensusRelay p")
  case True
  let ?q = "fst (BroadcastToSyncPeers env pk (localPeerId p) p)"
  have "fst (BroadcastLocalPacket env pk p) = fst (BroadcastToConsensusRelays env pk (localPeerId ?q) ?q)"
    using True by (simp add: BroadcastLocalPacket_def case_prod_beta Let_def)
  then show ?thesis using steps_to_trans [OF steps_to_sync steps_to_relays] by metis
qed (simp add: BroadcastLocalPacket_def steps_to_relays)

lemma steps_to_task: "steps_to env p (fst (run_task env n t p))"
  by (cases t) (auto simp: steps_to_relays steps_to_sync intro!: steps_to_quiet quiet_ops quiet_send)

lemma removeTask_forwards: "recorded (removeTask i p) = recorded p" "sentCount (removeTask i p) = sentCount p"
  by (simp_all add: removeTask_def recorded_def sentCount_def)

lemma steps_to_sends:
  "steps_to env q p' \<Longrightarrow> forwards (spawnedSends env (drop (length (spawned q)) (spawned p'))) q p'"
  by (auto simp: steps_to_def)

lemma forwards_start:
  "recorded q = recorded p \<Longrightarrow> sentCount q = sentCount p \<Longrightarrow> forwards l q p' \<Longrightarrow> forwards l p p'"
  by (simp add: forwards_def)

lemma op_forwards:
  assumes "\<not> isNewParent op"
  shows "forwards (op_sends env n op p) p (op_run env n op p)"
proof (cases op)
  case (OpTask i)
  show ?thesis
  proof (cases "i < length (spawned p)")
    case True
    let ?p' = "fst (run_task env n (spawned p ! i) (removeTask i p))"
    have "forwards (spawnedSends env (drop (length (spawned (removeTask i p))) (spawned ?p'))) (removeTask i p) ?p'"
      by (rule steps_to_sends [OF steps_to_task])
    from forwards_start [OF removeTask_forwards this] show ?thesis
      using OpTask True by (simp only: op_sends_def op_run.simps op_start.simps if_True)
  next
    case False
    have "length (spawned p) \<le> length (spawned (removeTask i p))" using False by (simp add: removeTask_def)
    then show ?thesis using OpTask False by (simp add: op_sends_def spawnedSends_def forwards_def)
  qed
qed (use assms steps_to_sends in \<open>simp_all add: op_sends_def steps_to_local steps_to_quiet quiet_ops quiet_packet\<close>)

lemma run_ops_forwards:
  "run_ops env n ops p = (p', sends) \<Longrightarrow> \<forall>op\<in>set ops. \<not> isNewParent op \<Longrightarrow> forwards sends p p'"
proof (induction ops arbitrary: p sends)
  case (Cons op ops)
  obtain s1 where s1: "run_ops env n ops (op_run env n op p) = (p', s1)" "sends = op_sends env n op p @ s1"
    using Cons.prems(1) by (auto split: prod.splits)
  show ?case
    unfolding s1(2) by (rule forwards_trans [OF op_forwards Cons.IH [OF s1(1)]]) (use Cons.prems(2) in auto)
qed (simp add: forwards_def)

section \<open>A new parent block\<close>

lemma new_parent_cleanup:
  "(h, d) \<in> set (packetSyncMap (peer_SetCurrentParentHash ph n p)) \<longleftrightarrow>
    (h, d) \<in> set (packetSyncMap p) \<and> ParentHash (sd_packet d) = ph"
  by (auto simp: peer_SetCurrentParentHash_def Let_def go_def)

lemma new_parent_count: "sentCount (peer_SetCurrentParentHash ph n p) = sentCount p"
  by (simp add: peer_SetCurrentParentHash_def Let_def go_def sentCount_def)

lemma op_sentCount: "sentCount (op_run env n op p) = sentCount p + int (length (op_sends env n op p))"
proof (cases "isNewParent op")
  case True
  then obtain h b where "op = OpNewParent h b" by (cases op) auto
  moreover have "spawnedSends env (drop (length (spawned p)) (spawned (peer_SetCurrentParentHash h b p))) = []"
    by (simp add: peer_SetCurrentParentHash_def Let_def go_def spawnedSends_def)
  ultimately show ?thesis by (simp add: op_sends_def new_parent_count)
next
  case False
  with op_forwards show ?thesis by (simp add: forwards_def)
qed

lemma run_ops_sentCount:
  "run_ops env n ops p = (p', sends) \<Longrightarrow> sentCount p' = sentCount p + int (length sends)"
proof (induction ops arbitrary: p sends)
  case (Cons op ops)
  obtain s1 where s1: "run_ops env n ops (op_run env n op p) = (p', s1)" "sends = op_sends env n op p @ s1"
    using Cons.prems(1) by (auto split: prod.splits)
  from Cons.IH [OF s1(1)] s1(2) show ?case by (simp add: op_sentCount)
qed simp

section \<open>Failures\<close>

text \<open>
  A connected peer that has not announced a capability has no details: looking for a relay among
  such peers dereferences a nil pointer.
\<close>

lemma connect_relay_panics:
  assumes "peerMap p = []"
  shows "snd (ConnectAvailableConsensusRelay (peer_OnPeerConnected k p)) = Some (Panic ''nil pointer dereference'')"
  using assms by (simp add: peer_OnPeerConnected_def ConnectAvailableConsensusRelay_def Let_def go_def)

end
