(* ===== verification/Pos_BlockValidator.thy ===== *)
theory Pos_BlockValidator
  imports Pos_Validators
begin

text \<open>
  Validation of the consensus data of a block (\<open>BlockValidator.go\<close>): the votes that a block
  carries are parsed into one table per round (\<open>ParseConsensusPackets\<close>), the votes of the block's
  round are counted by deposit (\<open>ValidatePackets\<close>), and both are combined with the checks of the
  proposers (\<open>ValidateBlockConsensusDataInner\<close>, \<open>ValidateBlockConsensusData\<close>).

  Slices. The slices of the consensus data come from the RLP decoder or from \<open>make\<close> and are never
  nil; the branches for nil slices are therefore not modelled.
\<close>

section \<open>Data\<close>

record packetMap =
  pm_round :: byte
  proposalDetailsMap :: "(address, proposalDetails) gomap"
  proposalAckDetailsMap :: "(address, proposalAckDetails) gomap"
  precommitDetailsMap :: "(address, preCommitDetails) gomap"
  commitDetailsMap :: "(address, commitDetails) gomap"

record blockConsensusData =
  BlockProposer :: address
  VoteType :: byte
  BProposalHash :: hash
  BPrecommitHash :: hash
  SlashedBlockProposers :: "address list"
  BRound :: byte
  SelectedTransactions :: "hash list"
  BBlockTime :: u64

record blockAdditionalConsensusData =
  ConsensusPackets :: "packet list"
  InitTime :: u64

type_synonym packetRoundMap = "(byte, packetMap) gomap"

section \<open>Parsing the votes\<close>

definition newPacketMap :: "byte \<Rightarrow> packetMap" where
  "newPacketMap r =
    \<lparr>pm_round = r, proposalDetailsMap = [], proposalAckDetailsMap = [], precommitDetailsMap = [],
     commitDetailsMap = []\<rparr>"

definition roundMap :: "packetRoundMap \<Rightarrow> byte \<Rightarrow> packetMap" where
  "roundMap prm r = (case mget prm r of Some pm \<Rightarrow> pm | None \<Rightarrow> newPacketMap r)"

text \<open>The signer of a packet; proposals may carry the long signature with context.\<close>

definition packetSigner :: "penv \<Rightarrow> packet \<Rightarrow> byte \<Rightarrow> perr + address" where
  "packetSigner env packet packetType =
    (let digestHash = Keccak256Hash env (ParentHash packet @ ConsensusData packet);
         pubKey =
           (if packetType = CONSENSUS_PACKET_TYPE_PROPOSE_BLOCK \<and>
               length (Signature packet) \<noteq> sigWithPubKeyLength env then
              (case pubKeyFromSigCtx env digestHash (Signature packet) FULL_SIGN_CONTEXT of
                 None \<Rightarrow> Inl InvalidPacketErr
               | Some pk \<Rightarrow>
                   if sigVerifyCtx env pk digestHash (Signature packet) [2] then Inr pk
                   else Inl InvalidPacketErr)
            else
              (case pubKeyFromSig env digestHash (Signature packet) of
                 None \<Rightarrow> Inl (ErrText ''PublicKeyFromSignature'')
               | Some pk \<Rightarrow>
                   if sigVerify env pk digestHash (Signature packet) then Inr pk
                   else Inl InvalidPacketErr))
     in case pubKey of
          Inl e \<Rightarrow> Inl e
        | Inr pk \<Rightarrow>
            (case pubKeyToAddress env pk of
               None \<Rightarrow> Inl (ErrText ''PublicKeyToAddress'')
             | Some a \<Rightarrow> Inr a))"

definition roundInvalid :: "byte \<Rightarrow> bool" where
  "roundInvalid r \<longleftrightarrow> r < 1 \<or> r > MAX_ROUND"

definition addProposal ::
    "penv \<Rightarrow> hash \<Rightarrow> (address, int) gomap \<Rightarrow> u64 \<Rightarrow> (address, valdetails) gomap option \<Rightarrow> hash
      \<Rightarrow> address \<Rightarrow> bytes \<Rightarrow> packetRoundMap \<Rightarrow> perr + packetRoundMap" where
  "addProposal env parentHash fm blockNumber dm ctx validator body prm =
    (case decodeProposal body of
       Inl e \<Rightarrow> Inl e
     | Inr d \<Rightarrow>
         if roundInvalid (PRound d) then Inl (ErrText ''invalid round d'')
         else
           case getBlockProposer env parentHash fm (PRound d) dm blockNumber ctx of
             Inl e \<Rightarrow> Inl e
           | Inr blockProposer \<Rightarrow>
               if blockProposer \<noteq> validator then Inl (ErrText ''invalid block proposer'')
               else
                 let pm = roundMap prm (PRound d) in
                 if mhas (proposalDetailsMap pm) validator then Inl (ErrText ''duplicate proposal packet'')
                 else
                   Inr (mput (PRound d)
                     (pm\<lparr>proposalDetailsMap :=
                        mput validator \<lparr>Txns = Txns d, PRound = PRound d, BlockTime = 0\<rparr>
                          (proposalDetailsMap pm)\<rparr>) prm))"

definition addAck :: "address \<Rightarrow> bytes \<Rightarrow> packetRoundMap \<Rightarrow> perr + packetRoundMap" where
  "addAck validator body prm =
    (case decodeAck body of
       Inl e \<Rightarrow> Inl e
     | Inr d \<Rightarrow>
         if roundInvalid (ARound d) then Inl (ErrText ''invalid round e'')
         else
           let pm = roundMap prm (ARound d) in
           if mhas (proposalAckDetailsMap pm) validator then Inl (ErrText ''duplicate ack proposal packet'')
           else if ProposalAckVoteType d \<noteq> VOTE_TYPE_NIL \<and> ProposalAckVoteType d \<noteq> VOTE_TYPE_OK
           then Inl (ErrText ''invalid vote type a'')
           else if ARound d = MAX_ROUND \<and> ProposalAckVoteType d \<noteq> VOTE_TYPE_NIL
           then Inl (ErrText ''invalid vote type expecting nil'')
           else
             Inr (mput (ARound d)
               (pm\<lparr>proposalAckDetailsMap := mput validator d (proposalAckDetailsMap pm)\<rparr>) prm))"

definition addPrecommit :: "address \<Rightarrow> bytes \<Rightarrow> packetRoundMap \<Rightarrow> perr + packetRoundMap" where
  "addPrecommit validator body prm =
    (case decodePrecommit body of
       Inl e \<Rightarrow> Inl e
     | Inr d \<Rightarrow>
         if roundInvalid (PCRound d) then Inl (ErrText ''invalid round c'')
         else
           let pm = roundMap prm (PCRound d) in
           if mhas (precommitDetailsMap pm) validator then Inl (ErrText ''duplicate precommit packet'')
           else
             Inr (mput (PCRound d)
               (pm\<lparr>precommitDetailsMap := mput validator d (precommitDetailsMap pm)\<rparr>) prm))"

definition addCommit :: "address \<Rightarrow> bytes \<Rightarrow> packetRoundMap \<Rightarrow> perr + packetRoundMap" where
  "addCommit validator body prm =
    (case decodeCommit body of
       Inl e \<Rightarrow> Inl e
     | Inr d \<Rightarrow>
         if roundInvalid (CRound d) then Inl (ErrText ''invalid roun 4'')
         else
           let pm = roundMap prm (CRound d) in
           if mhas (commitDetailsMap pm) validator then Inl (ErrText ''duplicate commit packet'')
           else
             Inr (mput (CRound d)
               (pm\<lparr>commitDetailsMap := mput validator d (commitDetailsMap pm)\<rparr>) prm))"

definition parseOne ::
    "penv \<Rightarrow> hash \<Rightarrow> (address, int) gomap \<Rightarrow> u64 \<Rightarrow> (address, valdetails) gomap option \<Rightarrow> hash
      \<Rightarrow> packet \<Rightarrow> packetRoundMap \<Rightarrow> perr + packetRoundMap" where
  "parseOne env parentHash fm blockNumber dm ctx packet prm =
    (if ParentHash packet \<noteq> parentHash then Inl (ErrText ''unexpected parenthash'')
     else if Signature packet = [] \<or> ConsensusData packet = []
     then Inl (ErrText ''invalid consensus packet, nil data'')
     else
       case getPacketType packet of
         Inl e \<Rightarrow> Inl e
       | Inr packetType \<Rightarrow>
           (case packetSigner env packet packetType of
              Inl e \<Rightarrow> Inl e
            | Inr validator \<Rightarrow>
                if \<not> mhas fm validator then Inl (ErrText ''validator not part of block'')
                else if packetType = CONSENSUS_PACKET_TYPE_PROPOSE_BLOCK
                then addProposal env parentHash fm blockNumber dm ctx validator (packetBody packet) prm
                else if packetType = CONSENSUS_PACKET_TYPE_ACK_BLOCK_PROPOSAL
                then addAck validator (packetBody packet) prm
                else if packetType = CONSENSUS_PACKET_TYPE_PRECOMMIT_BLOCK
                then addPrecommit validator (packetBody packet) prm
                else if packetType = CONSENSUS_PACKET_TYPE_COMMIT_BLOCK
                then addCommit validator (packetBody packet) prm
                else Inl (ErrText ''unknown packet type'')))"

fun parsePackets ::
    "penv \<Rightarrow> hash \<Rightarrow> (address, int) gomap \<Rightarrow> u64 \<Rightarrow> (address, valdetails) gomap option \<Rightarrow> hash
      \<Rightarrow> packet list \<Rightarrow> packetRoundMap \<Rightarrow> perr + packetRoundMap" where
  "parsePackets env parentHash fm blockNumber dm ctx [] prm = Inr prm"
| "parsePackets env parentHash fm blockNumber dm ctx (packet # packets) prm =
    (case parseOne env parentHash fm blockNumber dm ctx packet prm of
       Inl e \<Rightarrow> Inl e
     | Inr prm' \<Rightarrow> parsePackets env parentHash fm blockNumber dm ctx packets prm')"

definition ParseConsensusPackets ::
    "penv \<Rightarrow> hash \<Rightarrow> packet list \<Rightarrow> (address, int) gomap \<Rightarrow> u64 \<Rightarrow> (address, valdetails) gomap option
      \<Rightarrow> hash \<Rightarrow> perr + packetRoundMap" where
  "ParseConsensusPackets env parentHash packets fm blockNumber dm ctx =
    parsePackets env parentHash fm blockNumber dm ctx packets []"

section \<open>Counting the votes\<close>

definition votedProposalHash :: "penv \<Rightarrow> hash \<Rightarrow> byte \<Rightarrow> byte \<Rightarrow> hash list \<Rightarrow> u64 \<Rightarrow> u64 \<Rightarrow> hash" where
  "votedProposalHash env parentHash round voteType txns blockNumber proposedBlockTime =
    (if voteType = VOTE_TYPE_OK then
       if blockNumber \<ge> PROPOSAL_TIME_HASH_START_BLOCK
       then GetCombinedTxnHashWithTime env parentHash round txns proposedBlockTime
       else GetCombinedTxnHash env parentHash round txns
     else getNilVoteProposalHash env parentHash round)"

text \<open>The loop over the acknowledgements: deposits of the OK and of the NIL votes.\<close>

fun countAcks ::
    "(address, int) gomap \<Rightarrow> byte \<Rightarrow> byte \<Rightarrow> hash \<Rightarrow> int \<Rightarrow> (address, proposalAckDetails) gomap
      \<Rightarrow> int \<Rightarrow> int \<Rightarrow> perr + int \<times> int" where
  "countAcks valMap round voteType proposalHash tot [] ok nil = Inr (ok, nil)"
| "countAcks valMap round voteType proposalHash tot ((v, ack) # acks) ok nil =
    (case mget valMap v of
       None \<Rightarrow> Inl (ErrText ''unrecognized validator'')
     | Some depositValue \<Rightarrow>
         if ARound ack \<noteq> round then Inl (ErrText ''invalid round f'')
         else if ProposalAckVoteType ack = VOTE_TYPE_NIL then
           if ProposalHash ack \<noteq> proposalHash then
             if voteType \<noteq> VOTE_TYPE_OK then Inl (ErrText ''invalid proposal hash'')
             else countAcks valMap round voteType proposalHash tot acks ok nil
           else if nil + depositValue + ok > tot then Inl (ErrText ''invalid totalVotesDepositValue'')
           else countAcks valMap round voteType proposalHash tot acks ok (nil + depositValue)
         else if ProposalAckVoteType ack = VOTE_TYPE_OK then
           if ProposalHash ack \<noteq> proposalHash
           then countAcks valMap round voteType proposalHash tot acks ok nil
           else if nil + (ok + depositValue) > tot then Inl (ErrText ''invalid totalVotesDepositValue'')
           else countAcks valMap round voteType proposalHash tot acks (ok + depositValue) nil
         else Inl (ErrText ''invalid vote type b''))"

text \<open>
  The loops over the precommits and over the commits. The comparison of the hash in the loop
  creates an error and drops it (\<open>errors.New\<close> without \<open>return\<close>), so it has no effect.
\<close>

fun countDeposits :: "(address, int) gomap \<Rightarrow> address list \<Rightarrow> int \<Rightarrow> perr + int" where
  "countDeposits valMap [] s = Inr s"
| "countDeposits valMap (v # vs) s =
    (case mget valMap v of
       None \<Rightarrow> Inl (ErrText ''unrecognized validator'')
     | Some depositValue \<Rightarrow> countDeposits valMap vs (s + depositValue))"

text \<open>A nil \<open>packetMap\<close> panics at the first access.\<close>

definition ValidatePackets ::
    "penv \<Rightarrow> hash \<Rightarrow> byte \<Rightarrow> packetMap option \<Rightarrow> byte \<Rightarrow> (address, int) gomap \<Rightarrow> int \<Rightarrow> int
      \<Rightarrow> hash list \<Rightarrow> u64 \<Rightarrow> u64 \<Rightarrow> perr option" where
  "ValidatePackets env parentHash round packetMap voteType valMap tot minDepositRequired txns blockNumber proposedBlockTime =
    (let proposalHash = votedProposalHash env parentHash round voteType txns blockNumber proposedBlockTime in
     if voteType \<noteq> VOTE_TYPE_OK \<and> txns \<noteq> [] then Some (ErrText ''invalid transactions with nil vote'')
     else
       case packetMap of
         None \<Rightarrow> Some (Panic ''nil pointer dereference'')
       | Some pm \<Rightarrow>
           (case countAcks valMap round voteType proposalHash tot (proposalAckDetailsMap pm) 0 0 of
              Inl e \<Rightarrow> Some e
            | Inr (okVotes, nilVotes) \<Rightarrow>
                if voteType = VOTE_TYPE_NIL \<and> okVotes \<ge> minDepositRequired
                then Some (ErrText ''VOTE_TYPE_NIL okVotesDepositValue error'')
                else if voteType = VOTE_TYPE_NIL \<and> nilVotes < minDepositRequired
                then Some (ErrText ''VOTE_TYPE_NIL nilVotesDepositValue error'')
                else if voteType \<noteq> VOTE_TYPE_NIL \<and> okVotes < minDepositRequired
                then Some (ErrText ''VOTE_TYPE_OK okVotesDepositValue error'')
                else if voteType \<noteq> VOTE_TYPE_NIL \<and> nilVotes \<ge> minDepositRequired
                then Some (ErrText ''VOTE_TYPE_OK nilVotesDepositValue error'')
                else
                  (case countDeposits valMap (mkeys (precommitDetailsMap pm)) 0 of
                     Inl e \<Rightarrow> Some e
                   | Inr precommitDepositValue \<Rightarrow>
                       if precommitDepositValue < minDepositRequired then Some (ErrText ''precommit low deposit'')
                       else
                         (case countDeposits valMap (mkeys (commitDetailsMap pm)) 0 of
                            Inl e \<Rightarrow> Some e
                          | Inr commitDepositValue \<Rightarrow>
                              if commitDepositValue < minDepositRequired
                              then Some (ErrText ''precommit low deposit'') else None))))"

section \<open>The checks of the block\<close>

definition pausedRemoved ::
    "(address, 'b) gomap \<Rightarrow> (address, valdetails) gomap \<Rightarrow> (address, valdetails) gomap" where
  "pausedRemoved keep dm = filter (\<lambda>(a, d). \<not> IsValidationPaused d \<and> mhas keep a) dm"

definition depositsOf :: "(address, int) gomap \<Rightarrow> (address, bool) gomap \<Rightarrow> (address, int) gomap" where
  "depositsOf valMap filtered = map (\<lambda>(v, b). (v, dep valMap v)) filtered"

definition roundList :: "byte \<Rightarrow> byte list" where
  "roundList r = map word_of_nat [1..<unat r + 1]"

text \<open>
  The loop over the rounds up to \<open>Round\<close> that asks for the proposers. For the round 255 the
  condition \<open>r <= Round\<close> holds for every byte; as the errors of \<open>getBlockProposer\<close> do not depend on
  the round, the loop then ends with the error of the first call or never.
\<close>

fun roundProposers :: "(byte \<Rightarrow> perr + address) \<Rightarrow> byte list \<Rightarrow> perr + (byte, address) gomap" where
  "roundProposers f [] = Inr []"
| "roundProposers f (r # rs) =
    (case f r of
       Inl e \<Rightarrow> Inl e
     | Inr a \<Rightarrow> (case roundProposers f rs of Inl e \<Rightarrow> Inl e | Inr m \<Rightarrow> Inr ((r, a) # m)))"

definition roundBlockValidators :: "(byte \<Rightarrow> perr + address) \<Rightarrow> byte \<Rightarrow> perr + (byte, address) gomap" where
  "roundBlockValidators f round =
    (case roundProposers f (roundList round) of
       Inl e \<Rightarrow> Inl e
     | Inr m \<Rightarrow> if round = 255 then Inl Diverges else Inr m)"

definition proposerAt :: "(byte, address) gomap \<Rightarrow> byte \<Rightarrow> address" where
  "proposerAt m r = (case mget m r of Some a \<Rightarrow> a | None \<Rightarrow> ZERO_ADDRESS)"

text \<open>The loop over the rounds of a NIL block.\<close>

fun nilRounds ::
    "(byte, address) gomap \<Rightarrow> packetRoundMap \<Rightarrow> address list \<Rightarrow> byte list \<Rightarrow> perr option" where
  "nilRounds proposers prm slashed [] = None"
| "nilRounds proposers prm slashed (r # rs) =
    (if r < MAX_ROUND \<and> proposerAt proposers r \<notin> set slashed then Some (ErrText ''nilVotedProposers 1'')
     else if \<not> mhas prm r then Some (ErrText ''could not find packetMap for round'')
     else nilRounds proposers prm slashed rs)"

definition checkNilBlock ::
    "penv \<Rightarrow> hash list \<Rightarrow> hash \<Rightarrow> blockConsensusData \<Rightarrow> (byte, address) gomap \<Rightarrow> packetRoundMap
      \<Rightarrow> (address, int) gomap \<Rightarrow> int \<Rightarrow> int \<Rightarrow> u64 \<Rightarrow> perr option" where
  "checkNilBlock env txns parentHash bcd proposers prm fm tot minDepositRequired blockNumber =
    (if txns \<noteq> [] then Some (ErrText ''txns in a NIL block'')
     else if SelectedTransactions bcd \<noteq> [] then Some (ErrText ''SelectedTransactions in a NIL vote'')
     else if BlockProposer bcd \<noteq> ZERO_ADDRESS
     then Some (ErrText ''ValidateBlockConsensusData BlockProposer false'')
     else if BProposalHash bcd \<noteq> getNilVoteProposalHash env parentHash (BRound bcd)
     then Some (ErrText ''proposal hash check failed'')
     else if BPrecommitHash bcd \<noteq> getNilVotePreCommitHash env parentHash (BRound bcd)
     then Some (ErrText ''precommitHash hash check failed'')
     else
       case nilRounds proposers prm (SlashedBlockProposers bcd) (roundList (BRound bcd)) of
         Some e \<Rightarrow> Some e
       | None \<Rightarrow>
           if length (remdups (SlashedBlockProposers bcd)) > unat (BRound bcd)
           then Some (ErrText ''unexpected number of nilVotedProposers'')
           else
             ValidatePackets env parentHash (BRound bcd) (mget prm (BRound bcd)) VOTE_TYPE_NIL fm tot
               minDepositRequired (SelectedTransactions bcd) blockNumber (BBlockTime bcd))"

definition checkOkBlock ::
    "penv \<Rightarrow> hash list \<Rightarrow> hash \<Rightarrow> blockConsensusData \<Rightarrow> (byte, address) gomap \<Rightarrow> packetRoundMap
      \<Rightarrow> (address, int) gomap \<Rightarrow> int \<Rightarrow> int \<Rightarrow> u64 \<Rightarrow> perr option" where
  "checkOkBlock env txns parentHash bcd proposers prm fm tot minDepositRequired blockNumber =
    (if BlockProposer bcd = ZERO_ADDRESS
     then Some (ErrText ''ValidateBlockConsensusData BlockProposer true'')
     else if BlockProposer bcd \<noteq> proposerAt proposers (BRound bcd)
     then Some (ErrText ''ValidateBlockConsensusData BlockProposer true'')
     else if BProposalHash bcd = ZERO_HASH
     then Some (ErrText ''ValidateBlockConsensusData ProposalHash zero_hash'')
     else if \<not> list_all (\<lambda>t. t \<in> set (SelectedTransactions bcd)) txns
     then Some (ErrText ''ValidateBlockConsensusData txns should be a subset of blockConsensusData.SelectedTransactions'')
     else if BRound bcd > 1 \<and>
       \<not> list_all (\<lambda>r. proposerAt proposers r \<in> set (SlashedBlockProposers bcd)) (roundList (BRound bcd - 1))
     then Some (ErrText ''nilVotedProposers 2'')
     else if BRound bcd > 1 \<and> length (SlashedBlockProposers bcd) < unat (BRound bcd - 1)
     then Some (ErrText ''ValidateBlockConsensusData SlashedBlockProposers length'')
     else
       ValidatePackets env parentHash (BRound bcd) (mget prm (BRound bcd)) VOTE_TYPE_OK fm tot
         minDepositRequired (SelectedTransactions bcd) blockNumber (BBlockTime bcd))"

text \<open>
  The function deletes entries from the caller's maps; the model returns both maps after the
  call. A nil map of validator details is dereferenced from the block on that uses it.
\<close>

definition checkBlock ::
    "penv \<Rightarrow> hash list \<Rightarrow> hash \<Rightarrow> blockConsensusData \<Rightarrow> packet list \<Rightarrow> (address, int) gomap \<Rightarrow> int \<Rightarrow> int
      \<Rightarrow> u64 \<Rightarrow> (address, valdetails) gomap option \<Rightarrow> hash \<Rightarrow> perr option" where
  "checkBlock env txns parentHash bcd packets fm tot minDepositRequired blockNumber dm ctx =
    (case roundBlockValidators (\<lambda>r. getBlockProposer env parentHash fm r dm blockNumber ctx) (BRound bcd) of
       Inl e \<Rightarrow> Some e
     | Inr proposers \<Rightarrow>
         (case ParseConsensusPackets env parentHash packets fm blockNumber dm ctx of
            Inl e \<Rightarrow> Some e
          | Inr prm \<Rightarrow>
              if VoteType bcd = VOTE_TYPE_NIL
              then checkNilBlock env txns parentHash bcd proposers prm fm tot minDepositRequired blockNumber
              else if VoteType bcd = VOTE_TYPE_OK
              then checkOkBlock env txns parentHash bcd proposers prm fm tot minDepositRequired blockNumber
              else Some (ErrText ''ValidateBlockConsensusData unexpected vote type'')))"

definition ValidateBlockConsensusDataInner ::
    "penv \<Rightarrow> hash list \<Rightarrow> hash \<Rightarrow> blockConsensusData \<Rightarrow> blockAdditionalConsensusData
      \<Rightarrow> (address, int) gomap \<Rightarrow> u64 \<Rightarrow> (address, valdetails) gomap option \<Rightarrow> hash
      \<Rightarrow> (address, int) gomap \<times> (address, valdetails) gomap option \<times> perr option" where
  "ValidateBlockConsensusDataInner env txns parentHash bcd bacd validatorDepositMap blockNumber dm ctx =
    (if BRound bcd < 1 then (validatorDepositMap, dm, Some (ErrText ''ValidateBlockConsensusData round min''))
     else if BRound bcd \<ge> MAX_ROUND \<and> txns \<noteq> []
     then (validatorDepositMap, dm, Some (ErrText ''ValidateBlockConsensusData round max''))
     else if BPrecommitHash bcd = ZERO_HASH
     then (validatorDepositMap, dm, Some (ErrText ''ValidateBlockConsensusData PrecommitHash zero_hash''))
     else
       case filterValidators env parentHash validatorDepositMap blockNumber of
         (valMap, Inl e) \<Rightarrow> (valMap, dm, Some e)
       | (valMap, Inr (filtered, tot, minDepositRequired)) \<Rightarrow>
           if MIN_BLOCK_DEPOSIT > minDepositRequired
           then (valMap, dm, Some (ErrText ''min deposit required error''))
           else if length filtered < MIN_VALIDATORS env
           then (valMap, dm, Some (ErrText ''filteredValidators MIN_VALIDATORS''))
           else if length filtered > MAX_VALIDATORS
           then (valMap, dm, Some (ErrText ''filteredValidators MAX_VALIDATORS''))
           else
             let fm = depositsOf valMap filtered in
             if blockNumber \<ge> BLOCK_PROPOSER_NIL_BLOCK_START_BLOCK then
               (case dm of
                  None \<Rightarrow> (valMap, dm, Some (Panic ''nil pointer dereference''))
                | Some m \<Rightarrow>
                    let dm' = Some (pausedRemoved fm m) in
                    (valMap, dm',
                     checkBlock env txns parentHash bcd (ConsensusPackets bacd) fm tot minDepositRequired
                       blockNumber dm' ctx))
             else
               (valMap, dm,
                checkBlock env txns parentHash bcd (ConsensusPackets bacd) fm tot minDepositRequired
                  blockNumber dm ctx))"

section \<open>Blocks\<close>

definition T_BlockConsensusData :: rtyp where
  "T_BlockConsensusData =
    TStruct [TArr 32, TUint 8, TArr 32, TArr 32, TSlice (TArr 32), TUint 8, TSlice (TArr 32), TUint 64]"

definition V_BlockConsensusData :: "blockConsensusData \<Rightarrow> rval" where
  "V_BlockConsensusData d =
    VStruct [VArray (BlockProposer d), VUint (ucast (VoteType d)), VArray (BProposalHash d),
      VArray (BPrecommitHash d), VSlice (map VArray (SlashedBlockProposers d)), VUint (ucast (BRound d)),
      VSlice (map VArray (SelectedTransactions d)), VUint (BBlockTime d)]"

text \<open>The fields of a decoded value.\<close>

fun uint_val :: "rval \<Rightarrow> u64" where
  "uint_val (VUint i) = i"
| "uint_val _ = 0"

fun bytes_val :: "rval \<Rightarrow> bytes" where
  "bytes_val (VBytes b) = b"
| "bytes_val _ = []"

fun slice_val :: "rval \<Rightarrow> rval list" where
  "slice_val (VSlice vs) = vs"
| "slice_val _ = []"

fun struct_val :: "rval \<Rightarrow> rval list" where
  "struct_val (VStruct vs) = vs"
| "struct_val _ = []"

definition blockConsensusData_of :: "rval \<Rightarrow> blockConsensusData option" where
  "blockConsensusData_of v =
    (if has_type T_BlockConsensusData v then
       let f = struct_val v in
       Some \<lparr>BlockProposer = array_bytes (f ! 0), VoteType = ucast (uint_val (f ! 1)),
         BProposalHash = array_bytes (f ! 2), BPrecommitHash = array_bytes (f ! 3),
         SlashedBlockProposers = map array_bytes (slice_val (f ! 4)), BRound = ucast (uint_val (f ! 5)),
         SelectedTransactions = map array_bytes (slice_val (f ! 6)), BBlockTime = uint_val (f ! 7)\<rparr>
     else None)"

definition T_ConsensusPacket :: rtyp where
  "T_ConsensusPacket = TStruct [TArr 32, TBytes, TBytes]"

definition V_ConsensusPacket :: "packet \<Rightarrow> rval" where
  "V_ConsensusPacket p = VStruct [VArray (ParentHash p), VBytes (Signature p), VBytes (ConsensusData p)]"

definition packet_of :: "rval \<Rightarrow> packet" where
  "packet_of v =
    (let f = struct_val v in
     \<lparr>ParentHash = array_bytes (f ! 0), Signature = bytes_val (f ! 1), ConsensusData = bytes_val (f ! 2)\<rparr>)"

definition T_Additional :: rtyp where
  "T_Additional = TStruct [TSlice T_ConsensusPacket, TUint 64]"

definition V_Additional :: "blockAdditionalConsensusData \<Rightarrow> rval" where
  "V_Additional d = VStruct [VSlice (map V_ConsensusPacket (ConsensusPackets d)), VUint (InitTime d)]"

definition additional_of :: "rval \<Rightarrow> blockAdditionalConsensusData option" where
  "additional_of v =
    (if has_type T_Additional v then
       let f = struct_val v in
       Some \<lparr>ConsensusPackets = map packet_of (slice_val (f ! 0)), InitTime = uint_val (f ! 1)\<rparr>
     else None)"

text \<open>What the validation reads of a block; a nil byte slice of the header is \<open>None\<close>.\<close>

record consensusBlock =
  cb_ParentHash :: hash
  cb_Number :: int
  cb_ConsensusData :: "bytes option"
  cb_UnhashedConsensusData :: "bytes option"
  cb_TxHashes :: "hash list"

definition blockConsensusContext :: "penv \<Rightarrow> hash \<Rightarrow> u64 \<Rightarrow> perr + hash" where
  "blockConsensusContext env parentHash blockNumber =
    (if blockNumber \<ge> CONTEXT_BASED_START_BLOCK then
       (case getValidatorsFn env parentHash of
          Inl e \<Rightarrow> Inl e
        | Inr validators \<Rightarrow>
            (case GetBlockConsensusContextKeyForBlock blockNumber of
               Inl e \<Rightarrow> Inl e
             | Inr contextKey \<Rightarrow>
                 (case getBlockConsensusContext env contextKey parentHash of
                    Inl e \<Rightarrow> Inl e
                  | Inr blockContext \<Rightarrow>
                      Inr (Keccak256Hash env (blockContext @ str_bytes (itoa (length validators)))))))
     else Inr ZERO_HASH)"

definition ValidateBlockConsensusData ::
    "penv \<Rightarrow> consensusBlock \<Rightarrow> (address, int) gomap \<Rightarrow> (address, valdetails) gomap option
      \<Rightarrow> (address, int) gomap \<times> (address, valdetails) gomap option \<times> perr option" where
  "ValidateBlockConsensusData env block validatorDepositMap dm =
    (case (cb_ConsensusData block, cb_UnhashedConsensusData block) of
       (Some cd, Some ud) \<Rightarrow>
         (case decodeDetails T_BlockConsensusData blockConsensusData_of cd of
            Inl e \<Rightarrow> (validatorDepositMap, dm, Some e)
          | Inr bcd \<Rightarrow>
              (case decodeDetails T_Additional additional_of ud of
                 Inl e \<Rightarrow> (validatorDepositMap, dm, Some e)
               | Inr bacd \<Rightarrow>
                   if \<not> ValidateBlockProposalTime (Uint64 (cb_Number block)) (BBlockTime bcd)
                   then (validatorDepositMap, dm, Some (ErrText ''ValidateBlockProposalTime failed''))
                   else
                     case blockConsensusContext env (cb_ParentHash block) (Uint64 (cb_Number block)) of
                       Inl e \<Rightarrow> (validatorDepositMap, dm, Some e)
                     | Inr ctx \<Rightarrow>
                         ValidateBlockConsensusDataInner env (cb_TxHashes block) (cb_ParentHash block) bcd bacd
                           validatorDepositMap (Uint64 (cb_Number block)) dm ctx))
     | _ \<Rightarrow> (validatorDepositMap, dm, Some (ErrText ''ValidateBlockConsensusData nil'')))"

section \<open>What is parsed was signed\<close>

text \<open>Validator \<open>v\<close> signed, in one of the packets, the vote \<open>d\<close> of the given type on the parent hash.\<close>

definition signedVote ::
    "penv \<Rightarrow> byte \<Rightarrow> (bytes \<Rightarrow> perr + 'd) \<Rightarrow> hash \<Rightarrow> packet list \<Rightarrow> address \<Rightarrow> 'd \<Rightarrow> bool" where
  "signedVote env packetType dec parentHash packets v d \<longleftrightarrow>
    (\<exists>pk\<in>set packets. ParentHash pk = parentHash \<and> getPacketType pk = Inr packetType \<and>
       packetSigner env pk packetType = Inr v \<and> dec (packetBody pk) = Inr d)"

abbreviation signedAck where
  "signedAck env \<equiv> signedVote env CONSENSUS_PACKET_TYPE_ACK_BLOCK_PROPOSAL decodeAck"
abbreviation signedPrecommit where
  "signedPrecommit env \<equiv> signedVote env CONSENSUS_PACKET_TYPE_PRECOMMIT_BLOCK decodePrecommit"
abbreviation signedCommit where
  "signedCommit env \<equiv> signedVote env CONSENSUS_PACKET_TYPE_COMMIT_BLOCK decodeCommit"

text \<open>
  The table of a round: at most one vote of each type per validator, all of that round, from
  validators of the block, signed, and with a vote type that is allowed in the round.
\<close>

definition votesOk :: "(address \<Rightarrow> 'd \<Rightarrow> bool) \<Rightarrow> (address, 'd) gomap \<Rightarrow> bool" where
  "votesOk P m \<longleftrightarrow> wfm m \<and> (\<forall>v d. mget m v = Some d \<longrightarrow> P v d)"

definition ackOk :: "penv \<Rightarrow> hash \<Rightarrow> (address, int) gomap \<Rightarrow> packet list \<Rightarrow> byte \<Rightarrow> address \<Rightarrow> proposalAckDetails \<Rightarrow> bool" where
  "ackOk env h fm packets r v d \<longleftrightarrow> ARound d = r \<and> mhas fm v \<and> signedAck env h packets v d \<and>
     ProposalAckVoteType d \<in> {VOTE_TYPE_OK, VOTE_TYPE_NIL} \<and>
     (r = MAX_ROUND \<longrightarrow> ProposalAckVoteType d = VOTE_TYPE_NIL)"

definition precommitOk :: "penv \<Rightarrow> hash \<Rightarrow> (address, int) gomap \<Rightarrow> packet list \<Rightarrow> byte \<Rightarrow> address \<Rightarrow> preCommitDetails \<Rightarrow> bool" where
  "precommitOk env h fm packets r v d \<longleftrightarrow> PCRound d = r \<and> mhas fm v \<and> signedPrecommit env h packets v d"

definition commitOk :: "penv \<Rightarrow> hash \<Rightarrow> (address, int) gomap \<Rightarrow> packet list \<Rightarrow> byte \<Rightarrow> address \<Rightarrow> commitDetails \<Rightarrow> bool" where
  "commitOk env h fm packets r v d \<longleftrightarrow> CRound d = r \<and> mhas fm v \<and> signedCommit env h packets v d"

definition roundOk :: "penv \<Rightarrow> hash \<Rightarrow> (address, int) gomap \<Rightarrow> packet list \<Rightarrow> byte \<Rightarrow> packetMap \<Rightarrow> bool" where
  "roundOk env h fm packets r pm \<longleftrightarrow> \<not> roundInvalid r \<and>
     votesOk (ackOk env h fm packets r) (proposalAckDetailsMap pm) \<and>
     votesOk (precommitOk env h fm packets r) (precommitDetailsMap pm) \<and>
     votesOk (commitOk env h fm packets r) (commitDetailsMap pm)"

lemma votesOk_Nil [simp]: "votesOk P []"
  by (simp add: votesOk_def)

lemma votesOk_put: "votesOk P m \<Longrightarrow> P v d \<Longrightarrow> votesOk P (mput v d m)"
  by (simp add: votesOk_def wfm_mput mget_mput)

definition tableOk :: "penv \<Rightarrow> hash \<Rightarrow> (address, int) gomap \<Rightarrow> packet list \<Rightarrow> packetRoundMap \<Rightarrow> bool" where
  "tableOk env parentHash fm packets prm \<longleftrightarrow>
    (\<forall>r pm. mget prm r = Some pm \<longrightarrow> roundOk env parentHash fm packets r pm)"

lemma roundOk_new: "\<not> roundInvalid r \<Longrightarrow> roundOk env h fm packets r (newPacketMap r)"
  by (simp add: roundOk_def newPacketMap_def)

lemma roundOk_roundMap:
  "tableOk env h fm packets prm \<Longrightarrow> \<not> roundInvalid r \<Longrightarrow> roundOk env h fm packets r (roundMap prm r)"
  by (auto simp: tableOk_def roundMap_def roundOk_new split: option.split)

lemma tableOk_put:
  "tableOk env h fm packets prm \<Longrightarrow> roundOk env h fm packets r pm \<Longrightarrow>
    tableOk env h fm packets (mput r pm prm)"
  by (simp add: tableOk_def mget_mput)

text \<open>Adding one vote keeps the table: one lemma per packet type, with the packets read so far.\<close>

lemma addProposal_ok:
  assumes "addProposal env h fm n dm ctx v b prm = Inr prm'" and "tableOk env h fm packets prm"
  shows "tableOk env h fm packets prm'"
proof -
  obtain d where "decodeProposal b = Inr d" and d: "\<not> roundInvalid (PRound d)"
      "prm' = mput (PRound d) (roundMap prm (PRound d)\<lparr>proposalDetailsMap :=
         mput v \<lparr>Txns = Txns d, PRound = PRound d, BlockTime = 0\<rparr>
           (proposalDetailsMap (roundMap prm (PRound d)))\<rparr>) prm"
    using assms(1) by (auto simp: addProposal_def Let_def split: sum.splits if_splits)
  have "roundOk env h fm packets (PRound d) (roundMap prm (PRound d)\<lparr>proposalDetailsMap := x\<rparr>)" for x
    using roundOk_roundMap [OF assms(2) d(1)] by (simp add: roundOk_def)
  then show ?thesis unfolding d(2) by (rule tableOk_put [OF assms(2)])
qed

lemma addAck_ok:
  assumes "addAck v b prm = Inr prm'" and "tableOk env h fm packets prm" and "mhas fm v"
    and "\<And>d. decodeAck b = Inr d \<Longrightarrow> signedAck env h packets v d"
  shows "tableOk env h fm packets prm'"
proof -
  obtain d where d: "decodeAck b = Inr d" "\<not> roundInvalid (ARound d)"
      "ProposalAckVoteType d \<in> {VOTE_TYPE_OK, VOTE_TYPE_NIL}"
      "ARound d = MAX_ROUND \<longrightarrow> ProposalAckVoteType d = VOTE_TYPE_NIL"
      "prm' = mput (ARound d) (roundMap prm (ARound d)
         \<lparr>proposalAckDetailsMap := mput v d (proposalAckDetailsMap (roundMap prm (ARound d)))\<rparr>) prm"
    using assms(1) by (auto simp: addAck_def Let_def split: sum.splits if_splits)
  have "roundOk env h fm packets (ARound d) (roundMap prm (ARound d)
      \<lparr>proposalAckDetailsMap := mput v d (proposalAckDetailsMap (roundMap prm (ARound d)))\<rparr>)"
    using roundOk_roundMap [OF assms(2) d(2)] assms(3) assms(4) [OF d(1)] d(3,4)
    by (simp add: roundOk_def votesOk_put ackOk_def)
  then show ?thesis unfolding d(5) by (rule tableOk_put [OF assms(2)])
qed

lemma addPrecommit_ok:
  assumes "addPrecommit v b prm = Inr prm'" and "tableOk env h fm packets prm" and "mhas fm v"
    and "\<And>d. decodePrecommit b = Inr d \<Longrightarrow> signedPrecommit env h packets v d"
  shows "tableOk env h fm packets prm'"
proof -
  obtain d where d: "decodePrecommit b = Inr d" "\<not> roundInvalid (PCRound d)"
      "prm' = mput (PCRound d) (roundMap prm (PCRound d)
         \<lparr>precommitDetailsMap := mput v d (precommitDetailsMap (roundMap prm (PCRound d)))\<rparr>) prm"
    using assms(1) by (auto simp: addPrecommit_def Let_def split: sum.splits if_splits)
  have "roundOk env h fm packets (PCRound d) (roundMap prm (PCRound d)
      \<lparr>precommitDetailsMap := mput v d (precommitDetailsMap (roundMap prm (PCRound d)))\<rparr>)"
    using roundOk_roundMap [OF assms(2) d(2)] assms(3) assms(4) [OF d(1)]
    by (simp add: roundOk_def votesOk_put precommitOk_def commitOk_def)
  then show ?thesis unfolding d(3) by (rule tableOk_put [OF assms(2)])
qed

lemma addCommit_ok:
  assumes "addCommit v b prm = Inr prm'" and "tableOk env h fm packets prm" and "mhas fm v"
    and "\<And>d. decodeCommit b = Inr d \<Longrightarrow> signedCommit env h packets v d"
  shows "tableOk env h fm packets prm'"
proof -
  obtain d where d: "decodeCommit b = Inr d" "\<not> roundInvalid (CRound d)"
      "prm' = mput (CRound d) (roundMap prm (CRound d)
         \<lparr>commitDetailsMap := mput v d (commitDetailsMap (roundMap prm (CRound d)))\<rparr>) prm"
    using assms(1) by (auto simp: addCommit_def Let_def split: sum.splits if_splits)
  have "roundOk env h fm packets (CRound d) (roundMap prm (CRound d)
      \<lparr>commitDetailsMap := mput v d (commitDetailsMap (roundMap prm (CRound d)))\<rparr>)"
    using roundOk_roundMap [OF assms(2) d(2)] assms(3) assms(4) [OF d(1)]
    by (simp add: roundOk_def votesOk_put precommitOk_def commitOk_def)
  then show ?thesis unfolding d(3) by (rule tableOk_put [OF assms(2)])
qed

lemma signedVote_intro:
  "pk \<in> set packets \<Longrightarrow> ParentHash pk = h \<Longrightarrow> getPacketType pk = Inr t \<Longrightarrow> packetSigner env pk t = Inr v \<Longrightarrow>
    dec (packetBody pk) = Inr d \<Longrightarrow> signedVote env t dec h packets v d"
  by (auto simp: signedVote_def)

lemma parseOne_ok:
  assumes "parseOne env h fm n dm ctx pk prm = Inr prm'" and "tableOk env h fm packets prm"
    and "pk \<in> set packets"
  shows "tableOk env h fm packets prm'"
proof -
  obtain t v where t: "ParentHash pk = h" "getPacketType pk = Inr t" "packetSigner env pk t = Inr v" "mhas fm v"
    and add: "t = 0 \<and> addProposal env h fm n dm ctx v (packetBody pk) prm = Inr prm' \<or>
      t = 1 \<and> addAck v (packetBody pk) prm = Inr prm' \<or>
      t = 2 \<and> addPrecommit v (packetBody pk) prm = Inr prm' \<or>
      t = 3 \<and> addCommit v (packetBody pk) prm = Inr prm'"
    using assms(1) by (auto simp: parseOne_def split: sum.splits if_splits)
  note signed = signedVote_intro [OF assms(3) t(1) t(2) t(3)]
  consider "addProposal env h fm n dm ctx v (packetBody pk) prm = Inr prm'"
    | "t = 1" "addAck v (packetBody pk) prm = Inr prm'"
    | "t = 2" "addPrecommit v (packetBody pk) prm = Inr prm'"
    | "t = 3" "addCommit v (packetBody pk) prm = Inr prm'"
    using add by argo
  then show ?thesis
  proof cases
    case 1
    then show ?thesis by (rule addProposal_ok [OF _ assms(2)])
  next
    case 2
    show ?thesis by (rule addAck_ok [OF 2(2) assms(2) t(4)]) (use signed 2(1) in simp)
  next
    case 3
    show ?thesis by (rule addPrecommit_ok [OF 3(2) assms(2) t(4)]) (use signed 3(1) in simp)
  next
    case 4
    show ?thesis by (rule addCommit_ok [OF 4(2) assms(2) t(4)]) (use signed 4(1) in simp)
  qed
qed

lemma parsePackets_ok:
  "parsePackets env h fm n dm ctx ps prm = Inr prm' \<Longrightarrow> tableOk env h fm packets prm \<Longrightarrow>
    set ps \<subseteq> set packets \<Longrightarrow> tableOk env h fm packets prm'"
proof (induction ps arbitrary: prm)
  case (Cons p ps)
  obtain prm1 where "parseOne env h fm n dm ctx p prm = Inr prm1"
      "parsePackets env h fm n dm ctx ps prm1 = Inr prm'"
    using Cons.prems(1) by (auto split: sum.splits)
  with Cons parseOne_ok show ?case by (metis insert_subset list.set(2))
qed simp

lemma ParseConsensusPackets_ok:
  "ParseConsensusPackets env h packets fm n dm ctx = Inr prm \<Longrightarrow> tableOk env h fm packets prm"
  unfolding ParseConsensusPackets_def
  by (rule parsePackets_ok [where ps = packets and prm = "[]"]) (simp_all add: tableOk_def)

section \<open>The votes are counted by deposit\<close>

definition voters :: "byte \<Rightarrow> hash \<Rightarrow> (address, proposalAckDetails) gomap \<Rightarrow> address set" where
  "voters t h acks =
    {v. \<exists>a. mget acks v = Some a \<and> ProposalAckVoteType a = t \<and> ProposalHash a = h}"

lemma finite_voters [simp]: "finite (voters t h acks)"
proof (rule finite_subset)
  show "voters t h acks \<subseteq> fst ` set acks"
    by (auto simp: voters_def dest!: mget_SomeD intro: rev_image_eqI)
qed simp

lemma voters_Nil [simp]: "voters t h [] = {}"
  by (simp add: voters_def)

lemma voters_Cons:
  "v \<notin> fst ` set acks \<Longrightarrow> voters t h ((v, a) # acks) =
    (if ProposalAckVoteType a = t \<and> ProposalHash a = h then insert v (voters t h acks) else voters t h acks)"
  by (auto simp: voters_def mget_None_iff [symmetric] split: if_splits)

lemma weight_insert: "finite A \<Longrightarrow> v \<notin> A \<Longrightarrow> weight m (insert v A) = dep m v + weight m A"
  by (simp add: weight_def)

lemma voters_subset: "v \<in> voters t h acks \<Longrightarrow> v \<in> fst ` set acks"
  by (auto simp: voters_def dest!: mget_SomeD intro: rev_image_eqI)

lemma countAcks_step:
  assumes "countAcks m r t h tot ((v, a) # acks) ok nil = Inr res"
  shows "\<exists>d. mget m v = Some d \<and> ARound a = r \<and>
    (ProposalHash a \<noteq> h \<and> countAcks m r t h tot acks ok nil = Inr res \<or>
     ProposalHash a = h \<and> ProposalAckVoteType a = VOTE_TYPE_NIL \<and> countAcks m r t h tot acks ok (nil + d) = Inr res \<or>
     ProposalHash a = h \<and> ProposalAckVoteType a = VOTE_TYPE_OK \<and> countAcks m r t h tot acks (ok + d) nil = Inr res)"
  using assms by (auto split: option.splits if_splits)

lemma countAcks_sum:
  "countAcks m r t h tot acks ok nil = Inr (ok', nil') \<Longrightarrow> wfm acks \<Longrightarrow>
    ok' = ok + weight m (voters VOTE_TYPE_OK h acks) \<and> nil' = nil + weight m (voters VOTE_TYPE_NIL h acks)"
proof (induction acks arbitrary: ok nil)
  case (Cons va acks)
  obtain v a where va: "va = (v, a)" by (cases va)
  have new: "v \<notin> fst ` set acks" and wf: "wfm acks" using Cons.prems(2) va by auto
  have notin: "v \<notin> voters u h acks" for u using new voters_subset by metis
  obtain d where d: "mget m v = Some d" and step:
    "ProposalHash a \<noteq> h \<and> countAcks m r t h tot acks ok nil = Inr (ok', nil') \<or>
     ProposalHash a = h \<and> ProposalAckVoteType a = VOTE_TYPE_NIL \<and> countAcks m r t h tot acks ok (nil + d) = Inr (ok', nil') \<or>
     ProposalHash a = h \<and> ProposalAckVoteType a = VOTE_TYPE_OK \<and> countAcks m r t h tot acks (ok + d) nil = Inr (ok', nil')"
    using countAcks_step [OF Cons.prems(1) [unfolded va]] by blast
  have dv: "dep m v = d" using d by (simp add: dep_def)
  show ?case
    unfolding va voters_Cons [OF new]
    by (rule disjE [OF step]; elim disjE conjE; drule Cons.IH [OF _ wf]; simp add: weight_insert notin dv)
qed (simp add: weight_def)

lemma countDeposits_sum: "countDeposits m vs s = Inr s' \<Longrightarrow> s' = s + sum_list (map (dep m) vs)"
  by (induction m vs s rule: countDeposits.induct) (auto simp: dep_def split: option.splits)

section \<open>What an accepted block proves\<close>

text \<open>The vote a block stands for: its type and the proposal hash the acknowledgements must carry.\<close>

definition blockVote :: "penv \<Rightarrow> hash \<Rightarrow> u64 \<Rightarrow> blockConsensusData \<Rightarrow> byte \<times> hash" where
  "blockVote env parentHash blockNumber bcd =
    (VoteType bcd,
     votedProposalHash env parentHash (BRound bcd) (VoteType bcd) (SelectedTransactions bcd) blockNumber (BBlockTime bcd))"

lemma ValidatePackets_None:
  assumes "ValidatePackets env h r pmo t fm tot q txns n bt = None" and "t \<in> {VOTE_TYPE_OK, VOTE_TYPE_NIL}"
  obtains pm where "pmo = Some pm"
    and "wfm (proposalAckDetailsMap pm) \<Longrightarrow>
      q \<le> weight fm (voters t (votedProposalHash env h r t txns n bt) (proposalAckDetailsMap pm))"
    and "wfm (precommitDetailsMap pm) \<Longrightarrow> q \<le> weight fm (fst ` set (precommitDetailsMap pm))"
    and "wfm (commitDetailsMap pm) \<Longrightarrow> q \<le> weight fm (fst ` set (commitDetailsMap pm))"
proof -
  let ?h = "votedProposalHash env h r t txns n bt"
  obtain pm ok nil p c where pm: "pmo = Some pm"
    and acks: "countAcks fm r t ?h tot (proposalAckDetailsMap pm) 0 0 = Inr (ok, nil)"
    and okq: "t \<noteq> VOTE_TYPE_NIL \<longrightarrow> q \<le> ok" and nilq: "t = VOTE_TYPE_NIL \<longrightarrow> q \<le> nil"
    and pre: "countDeposits fm (mkeys (precommitDetailsMap pm)) 0 = Inr p" "q \<le> p"
    and com: "countDeposits fm (mkeys (commitDetailsMap pm)) 0 = Inr c" "q \<le> c"
    using assms(1) unfolding ValidatePackets_def Let_def
    by (auto split: if_splits option.splits sum.splits prod.splits)
  show thesis
  proof (rule that [OF pm])
    show "q \<le> weight fm (voters t ?h (proposalAckDetailsMap pm))" if "wfm (proposalAckDetailsMap pm)"
      using countAcks_sum [OF acks that] assms(2) okq nilq by auto
    show "q \<le> weight fm (fst ` set (precommitDetailsMap pm))" if "wfm (precommitDetailsMap pm)"
      using countDeposits_sum [OF pre(1)] pre(2) sum_list_keys [OF that, of fm] by simp
    show "q \<le> weight fm (fst ` set (commitDetailsMap pm))" if "wfm (commitDetailsMap pm)"
      using countDeposits_sum [OF com(1)] com(2) sum_list_keys [OF that, of fm] by simp
  qed
qed

lemma checkBlock_None:
  assumes "checkBlock env txns h bcd packets fm tot q n dm ctx = None"
  obtains prm where "ParseConsensusPackets env h packets fm n dm ctx = Inr prm"
    and "VoteType bcd \<in> {VOTE_TYPE_OK, VOTE_TYPE_NIL}"
    and "ValidatePackets env h (BRound bcd) (mget prm (BRound bcd)) (VoteType bcd) fm tot q
      (SelectedTransactions bcd) n (BBlockTime bcd) = None"
  using assms unfolding checkBlock_def checkNilBlock_def checkOkBlock_def
  by (auto split: if_splits option.splits sum.splits)

text \<open>
  The evidence in an accepted block: the validators who signed an acknowledgement of the block's
  vote in its round, and those who signed a commit in its round.
\<close>

definition ackers :: "penv \<Rightarrow> hash \<Rightarrow> packet list \<Rightarrow> byte \<Rightarrow> byte \<times> hash \<Rightarrow> address set" where
  "ackers env parentHash packets r vote =
    {v. \<exists>d. signedAck env parentHash packets v d \<and> ARound d = r \<and>
       (ProposalAckVoteType d, ProposalHash d) = vote}"

definition committers :: "penv \<Rightarrow> hash \<Rightarrow> packet list \<Rightarrow> byte \<Rightarrow> address set" where
  "committers env parentHash packets r =
    {v. \<exists>d. signedCommit env parentHash packets v d \<and> CRound d = r}"

lemma checkBlock_evidence:
  assumes "checkBlock env txns h bcd packets fm tot q n dm ctx = None" and "deposits_ok fm"
  shows "q \<le> weight fm (ackers env h packets (BRound bcd) (blockVote env h n bcd) \<inter> fst ` set fm)"
    and "q \<le> weight fm (committers env h packets (BRound bcd) \<inter> fst ` set fm)"
    and "1 \<le> BRound bcd" and "BRound bcd \<le> MAX_ROUND"
proof -
  obtain prm where prm: "ParseConsensusPackets env h packets fm n dm ctx = Inr prm"
    and t: "VoteType bcd \<in> {VOTE_TYPE_OK, VOTE_TYPE_NIL}"
    and vp: "ValidatePackets env h (BRound bcd) (mget prm (BRound bcd)) (VoteType bcd) fm tot q
      (SelectedTransactions bcd) n (BBlockTime bcd) = None"
    by (rule checkBlock_None [OF assms(1)])
  let ?ph = "snd (blockVote env h n bcd)"
  obtain pm where pm: "mget prm (BRound bcd) = Some pm"
    and a: "wfm (proposalAckDetailsMap pm) \<Longrightarrow> q \<le> weight fm (voters (VoteType bcd) ?ph (proposalAckDetailsMap pm))"
    and c: "wfm (commitDetailsMap pm) \<Longrightarrow> q \<le> weight fm (fst ` set (commitDetailsMap pm))"
    by (rule ValidatePackets_None [OF vp t]) (simp add: blockVote_def)
  have ok: "roundOk env h fm packets (BRound bcd) pm"
    using ParseConsensusPackets_ok [OF prm] pm by (simp add: tableOk_def)
  then have "\<not> roundInvalid (BRound bcd)" by (simp add: roundOk_def)
  then show "1 \<le> BRound bcd" "BRound bcd \<le> MAX_ROUND" unfolding roundInvalid_def by (metis not_less)+
  have acks: "votesOk (ackOk env h fm packets (BRound bcd)) (proposalAckDetailsMap pm)"
    and coms: "votesOk (commitOk env h fm packets (BRound bcd)) (commitDetailsMap pm)"
    using ok by (simp_all add: roundOk_def)
  have "voters (VoteType bcd) ?ph (proposalAckDetailsMap pm)
      \<subseteq> ackers env h packets (BRound bcd) (blockVote env h n bcd) \<inter> fst ` set fm"
    using acks by (fastforce simp: voters_def ackers_def votesOk_def ackOk_def mhas_iff blockVote_def)
  from st.wt_mono [OF assms(2) this] a acks
  show "q \<le> weight fm (ackers env h packets (BRound bcd) (blockVote env h n bcd) \<inter> fst ` set fm)"
    by (simp add: votesOk_def)
  have "fst ` set (commitDetailsMap pm) \<subseteq> committers env h packets (BRound bcd) \<inter> fst ` set fm"
  proof
    fix v
    assume "v \<in> fst ` set (commitDetailsMap pm)"
    then obtain d where "mget (commitDetailsMap pm) v = Some d"
      by (metis mget_None_iff not_None_eq)
    with coms show "v \<in> committers env h packets (BRound bcd) \<inter> fst ` set fm"
      by (auto simp: committers_def votesOk_def commitOk_def mhas_iff)
  qed
  from st.wt_mono [OF assms(2) this] c coms
  show "q \<le> weight fm (committers env h packets (BRound bcd) \<inter> fst ` set fm)"
    by (simp add: votesOk_def)
qed

section \<open>The validators of a block and their deposits\<close>

lemma keys_depositsOf [simp]: "fst ` set (depositsOf m f) = fst ` set f"
  by (force simp: depositsOf_def)

lemma map_fst_depositsOf: "map fst (depositsOf m f) = map fst f"
  by (simp add: depositsOf_def case_prod_beta comp_def)

lemma dep_depositsOf: "dep (depositsOf m f) v = (if v \<in> fst ` set f then dep m v else 0)"
  by (induction f) (auto simp: depositsOf_def dep_def)

lemma deposits_ok_depositsOf:
  assumes "deposits_ok m" and "wfm f"
  shows "deposits_ok (depositsOf m f)"
proof -
  have "wfm (depositsOf m f)" using assms(2) by (simp add: wfm_def map_fst_depositsOf)
  moreover have "0 \<le> dep m v" for v using assms(1) by (simp add: deposits_ok_def dep_nonneg)
  then have "nonneg (depositsOf m f)" by (auto simp: nonneg_def depositsOf_def)
  ultimately show ?thesis by (simp add: deposits_ok_def)
qed

lemma weight_depositsOf: "A \<subseteq> fst ` set f \<Longrightarrow> weight (depositsOf m f) A = weight m A"
  unfolding weight_def by (rule sum.cong) (auto simp: dep_depositsOf)

text \<open>The validators a node selects for a block, with their deposits, and the quorum.\<close>

definition blockValidators :: "penv \<Rightarrow> hash \<Rightarrow> (address, int) gomap \<Rightarrow> u64 \<Rightarrow> (address, int) gomap" where
  "blockValidators env h vm n =
    (case filterValidators env h vm n of
       (m, Inr (f, t, q)) \<Rightarrow> depositsOf m f
     | _ \<Rightarrow> [])"

definition quorum :: "penv \<Rightarrow> hash \<Rightarrow> (address, int) gomap \<Rightarrow> u64 \<Rightarrow> int" where
  "quorum env h vm n = SafeRelativePercentageBigInt (total_dep (blockValidators env h vm n)) (minPercentage n)"

lemma blockValidators_ok:
  assumes "deposits_ok vm" and "filterValidators env h vm n = (m, Inr (f, t, q))"
  shows "blockValidators env h vm n = depositsOf m f" and "deposits_ok (depositsOf m f)"
    and "t = total_dep (depositsOf m f)" and "q = quorum env h vm n" and "MIN_BLOCK_DEPOSIT \<le> t"
proof -
  have wf: "wfm vm" using assms(1) by (simp add: deposits_ok_def)
  note r = filterValidators_result [OF wf assms(2)]
  show b: "blockValidators env h vm n = depositsOf m f" using assms(2) by (simp add: blockValidators_def)
  have "deposits_ok m" unfolding r(1) by (rule low_deposits_ok [OF assms(1)])
  then show ok: "deposits_ok (depositsOf m f)" by (rule deposits_ok_depositsOf [OF _ r(2)])
  have "total_dep (depositsOf m f) = weight (depositsOf m f) (fst ` set f)"
    using weight_keys [of "depositsOf m f"] ok by (simp add: deposits_ok_def)
  then show t: "t = total_dep (depositsOf m f)" using r(4) by (simp add: weight_depositsOf)
  show "q = quorum env h vm n" using r(6) by (simp add: quorum_def b t)
  show "MIN_BLOCK_DEPOSIT \<le> t" by (rule r(5))
qed

lemma Inner_None:
  assumes "ValidateBlockConsensusDataInner env txns h bcd bacd vm n dm ctx = (m', dm', None)"
  obtains m f t q dm1 where "filterValidators env h vm n = (m, Inr (f, t, q))"
    and "MIN_BLOCK_DEPOSIT \<le> q" and "length f \<le> MAX_VALIDATORS"
    and "checkBlock env txns h bcd (ConsensusPackets bacd) (depositsOf m f) t q n dm1 ctx = None"
  using assms unfolding ValidateBlockConsensusDataInner_def Let_def
  by (auto split: if_splits prod.splits sum.splits option.splits)

text \<open>An accepted block carries a quorum of acknowledgements and a quorum of commits.\<close>

lemma accepted_evidence:
  assumes "deposits_ok vm"
    and "ValidateBlockConsensusDataInner env txns h bcd bacd vm n dm ctx = (m', dm', None)"
  shows "quorum env h vm n \<le> weight (blockValidators env h vm n)
      (ackers env h (ConsensusPackets bacd) (BRound bcd) (blockVote env h n bcd) \<inter> fst ` set (blockValidators env h vm n))"
    and "quorum env h vm n \<le> weight (blockValidators env h vm n)
      (committers env h (ConsensusPackets bacd) (BRound bcd) \<inter> fst ` set (blockValidators env h vm n))"
    and "deposits_ok (blockValidators env h vm n)"
    and "MIN_BLOCK_DEPOSIT \<le> quorum env h vm n"
    and "1 \<le> BRound bcd" and "BRound bcd \<le> MAX_ROUND"
proof -
  obtain m f t q dm1 where fv: "filterValidators env h vm n = (m, Inr (f, t, q))"
    and q: "MIN_BLOCK_DEPOSIT \<le> q"
    and cb: "checkBlock env txns h bcd (ConsensusPackets bacd) (depositsOf m f) t q n dm1 ctx = None"
    by (rule Inner_None [OF assms(2)])
  note bv = blockValidators_ok [OF assms(1) fv]
  note ev = checkBlock_evidence [OF cb bv(2)]
  show "deposits_ok (blockValidators env h vm n)" "MIN_BLOCK_DEPOSIT \<le> quorum env h vm n"
    using bv q by simp_all
  show "quorum env h vm n \<le> weight (blockValidators env h vm n)
      (ackers env h (ConsensusPackets bacd) (BRound bcd) (blockVote env h n bcd) \<inter> fst ` set (blockValidators env h vm n))"
    using ev(1) unfolding bv(1) bv(4) [symmetric] .
  show "quorum env h vm n \<le> weight (blockValidators env h vm n)
      (committers env h (ConsensusPackets bacd) (BRound bcd) \<inter> fst ` set (blockValidators env h vm n))"
    using ev(2) unfolding bv(1) bv(4) [symmetric] .
  show "1 \<le> BRound bcd" "BRound bcd \<le> MAX_ROUND" by (rule ev(3), rule ev(4))
qed

section \<open>Two conflicting blocks convict a fifth of the deposit\<close>

text \<open>
  Validators who contradict themselves in the packets of two blocks: two different
  acknowledgements in one round, or commits in two different rounds of the same parent.
\<close>

definition equivocators :: "penv \<Rightarrow> hash \<Rightarrow> packet list \<Rightarrow> packet list \<Rightarrow> address set" where
  "equivocators env h ps1 ps2 =
    {v. (\<exists>a b. signedAck env h ps1 v a \<and> signedAck env h ps2 v b \<and> ARound a = ARound b \<and>
           (ProposalAckVoteType a, ProposalHash a) \<noteq> (ProposalAckVoteType b, ProposalHash b)) \<or>
        (\<exists>a b. signedCommit env h ps1 v a \<and> signedCommit env h ps2 v b \<and> CRound a \<noteq> CRound b)}"

lemma ackers_equivocate:
  "vote1 \<noteq> vote2 \<Longrightarrow> ackers env h ps1 r vote1 \<inter> ackers env h ps2 r vote2 \<subseteq> equivocators env h ps1 ps2"
proof
  fix v
  assume ne: "vote1 \<noteq> vote2" and "v \<in> ackers env h ps1 r vote1 \<inter> ackers env h ps2 r vote2"
  then obtain a b where "signedAck env h ps1 v a" "ARound a = r" "(ProposalAckVoteType a, ProposalHash a) = vote1"
      "signedAck env h ps2 v b" "ARound b = r" "(ProposalAckVoteType b, ProposalHash b) = vote2"
    unfolding ackers_def by fast
  with ne show "v \<in> equivocators env h ps1 ps2" unfolding equivocators_def mem_Collect_eq by metis
qed

lemma committers_equivocate:
  "r1 \<noteq> r2 \<Longrightarrow> committers env h ps1 r1 \<inter> committers env h ps2 r2 \<subseteq> equivocators env h ps1 ps2"
  unfolding committers_def equivocators_def by blast

lemma two_quorums: "q = SafeRelativePercentageBigInt t (minPercentage n) \<Longrightarrow> 0 \<le> t \<Longrightarrow> 2 * q - t \<le> w \<Longrightarrow> t \<le> 5 * w + 9"
proof -
  assume q: "q = SafeRelativePercentageBigInt t (minPercentage n)" and t: "0 \<le> t" and w: "2 * q - t \<le> w"
  have "t * 60 \<le> t * minPercentage n"
    using t by (intro mult_left_mono) (simp_all add: minPercentage_def MIN_PERCENTAGE_def MIN_PERCENTAGE_V2_def)
  then have "t * 60 div 100 \<le> q" unfolding q SafeRelativePercentageBigInt_def by (rule zdiv_mono1) simp
  then have "t * 60 < 100 * q + 100" by linarith
  with w show ?thesis by linarith
qed

lemma conflict_weight:
  assumes "deposits_ok bv" and "q = SafeRelativePercentageBigInt (total_dep bv) (minPercentage n)"
    and "q \<le> weight bv (A \<inter> fst ` set bv)" and "q \<le> weight bv (B \<inter> fst ` set bv)" and "A \<inter> B \<subseteq> E"
  shows "total_dep bv \<le> 5 * weight bv (E \<inter> fst ` set bv) + 9"
proof (rule two_quorums [OF assms(2)])
  show "0 \<le> total_dep bv" using assms(1) by (simp add: deposits_ok_def total_nonneg)
  have "2 * q - total_dep bv \<le> weight bv ((A \<inter> fst ` set bv) \<inter> (B \<inter> fst ` set bv))"
    using st.quorum_overlap [OF assms(1) _ _ assms(3,4)] by simp
  also have "\<dots> \<le> weight bv (E \<inter> fst ` set bv)"
    by (rule st.wt_mono [OF assms(1)]) (use assms(5) in auto)
  finally show "2 * q - total_dep bv \<le> weight bv (E \<inter> fst ` set bv)" .
qed

lemma conflicting_blocks:
  assumes "deposits_ok vm"
    and "ValidateBlockConsensusDataInner env txns1 h bcd1 bacd1 vm n dm1 ctx1 = (m1, d1, None)"
    and "ValidateBlockConsensusDataInner env txns2 h bcd2 bacd2 vm n dm2 ctx2 = (m2, d2, None)"
    and "(BRound bcd1, blockVote env h n bcd1) \<noteq> (BRound bcd2, blockVote env h n bcd2)"
  shows "total_dep (blockValidators env h vm n) \<le>
    5 * weight (blockValidators env h vm n)
      (equivocators env h (ConsensusPackets bacd1) (ConsensusPackets bacd2) \<inter> fst ` set (blockValidators env h vm n)) + 9"
proof -
  note e1 = accepted_evidence [OF assms(1,2)] and e2 = accepted_evidence [OF assms(1,3)]
  note q = conflict_weight [OF e1(3) quorum_def]
  show ?thesis
  proof (cases "BRound bcd1 = BRound bcd2")
    case True
    with assms(4) have "blockVote env h n bcd1 \<noteq> blockVote env h n bcd2" by simp
    from q [OF e1(1) e2(1)] ackers_equivocate [OF this] True show ?thesis by simp
  next
    case False
    from q [OF e1(2) e2(2) committers_equivocate [OF False]] show ?thesis .
  qed
qed

section \<open>The loop over the rounds\<close>

lemma firstByKey_Inl: "firstByKey key vs = Inl e \<longleftrightarrow> vs = [] \<and> e = Panic ''index out of range''"
  by (auto simp: firstByKey_def split: list.splits) (metis set_empty2 set_sort)+

text \<open>Whether \<open>getBlockProposer\<close> fails, and with which error, does not depend on the round.\<close>

lemma proposer_error_round:
  "getBlockProposer env h fm r dm n c = Inl e \<Longrightarrow> getBlockProposer env h fm r' dm n c = Inl e"
  by (auto simp: getBlockProposer_def getBlockProposerV2_eq firstByKey_Inl split: if_splits option.splits)

lemma roundProposers_ok:
  "(\<And>r. r \<in> set rs \<Longrightarrow> \<exists>a. f r = Inr a) \<Longrightarrow> \<exists>m. roundProposers f rs = Inr m \<and> mkeys m = rs"
proof (induction rs)
  case (Cons r rs)
  then obtain a m where "f r = Inr a" "roundProposers f rs = Inr m" "mkeys m = rs" by fastforce
  then show ?case by simp
qed simp

text \<open>The loop ends with the proposers of all rounds, unless the round is 255.\<close>

lemma roundBlockValidators_ok:
  assumes "getBlockProposer env h fm r0 dm n c = Inr a"
  shows "round \<noteq> 255 \<Longrightarrow> \<exists>m. roundBlockValidators (\<lambda>r. getBlockProposer env h fm r dm n c) round = Inr m"
    and "roundBlockValidators (\<lambda>r. getBlockProposer env h fm r dm n c) 255 = Inl Diverges"
proof -
  have "\<exists>a. getBlockProposer env h fm r dm n c = Inr a" for r
    using proposer_error_round [of env h fm r dm n c _ r0] assms
    by (cases "getBlockProposer env h fm r dm n c") auto
  then have ok: "\<exists>m. roundProposers (\<lambda>r. getBlockProposer env h fm r dm n c) rs = Inr m" for rs
    using roundProposers_ok by meson
  show "\<exists>m. roundBlockValidators (\<lambda>r. getBlockProposer env h fm r dm n c) round = Inr m" if "round \<noteq> 255"
    using ok [of "roundList round"] that by (auto simp: roundBlockValidators_def)
  show "roundBlockValidators (\<lambda>r. getBlockProposer env h fm r dm n c) 255 = Inl Diverges"
    using ok [of "roundList 255"] by (auto simp: roundBlockValidators_def)
qed

section \<open>Blocks that stop the validating node\<close>

text \<open>
  The context in which the remaining checks run: an old block (no validator details needed) whose
  validators pass the selection.
\<close>

definition selectable :: "penv \<Rightarrow> hash \<Rightarrow> (address, int) gomap \<Rightarrow> u64 \<Rightarrow> bool" where
  "selectable env h vm n \<longleftrightarrow>
    (case filterValidators env h vm n of
       (m, Inr (f, t, q)) \<Rightarrow> MIN_BLOCK_DEPOSIT \<le> q \<and> MIN_VALIDATORS env \<le> length f \<and> length f \<le> MAX_VALIDATORS
     | _ \<Rightarrow> False)"

lemma Inner_selectable:
  assumes "selectable env h vm n" and "n < BLOCK_PROPOSER_NIL_BLOCK_START_BLOCK"
    and "1 \<le> BRound bcd" and "BPrecommitHash bcd \<noteq> ZERO_HASH" and "txns = [] \<or> BRound bcd < MAX_ROUND"
  shows "snd (snd (ValidateBlockConsensusDataInner env txns h bcd bacd vm n dm ctx)) =
    checkBlock env txns h bcd (ConsensusPackets bacd) (blockValidators env h vm n)
      (fst (snd (projr (snd (filterValidators env h vm n)))))
      (snd (snd (projr (snd (filterValidators env h vm n))))) n dm ctx"
proof -
  obtain m f t q where fv: "filterValidators env h vm n = (m, Inr (f, t, q))"
      "MIN_BLOCK_DEPOSIT \<le> q" "MIN_VALIDATORS env \<le> length f" "length f \<le> MAX_VALIDATORS"
    using assms(1) by (auto simp: selectable_def split: prod.splits sum.splits)
  have "\<not> BRound bcd < 1" "\<not> (BRound bcd \<ge> MAX_ROUND \<and> txns \<noteq> [])"
      "\<not> n \<ge> BLOCK_PROPOSER_NIL_BLOCK_START_BLOCK"
    using assms(2,3,5) by (auto simp: not_less [symmetric])
  with fv assms(4) show ?thesis
    by (auto simp: ValidateBlockConsensusDataInner_def Let_def blockValidators_def)
qed

lemma selectable_proposer:
  assumes "selectable env h vm n" and "n < BLOCK_PROPOSER_NIL_BLOCK_START_BLOCK" and "1 \<le> MIN_VALIDATORS env"
  shows "\<exists>a. getBlockProposer env h (blockValidators env h vm n) r dm n ctx = Inr a"
proof -
  obtain m f t q where fv: "filterValidators env h vm n = (m, Inr (f, t, q))" "MIN_VALIDATORS env \<le> length f"
    using assms(1) by (auto simp: selectable_def split: prod.splits sum.splits)
  then have "blockValidators env h vm n = depositsOf m f" by (simp add: blockValidators_def)
  moreover have "length (depositsOf m f) = length f" by (simp add: depositsOf_def)
  ultimately have len: "MIN_VALIDATORS env \<le> length (blockValidators env h vm n)" using fv(2) by simp
  then have "mkeys (blockValidators env h vm n) \<noteq> []" using assms(3) by (metis le_trans length_mkeys list.size(3) not_one_le_zero)
  with firstByKey_total len assms(2) show ?thesis by (simp add: getBlockProposer_def not_le [symmetric])
qed

lemma round_255_diverges:
  assumes "selectable env h vm n" and "n < BLOCK_PROPOSER_NIL_BLOCK_START_BLOCK" and "1 \<le> MIN_VALIDATORS env"
    and "BRound bcd = 255" and "BPrecommitHash bcd \<noteq> ZERO_HASH"
  shows "snd (snd (ValidateBlockConsensusDataInner env [] h bcd bacd vm n dm ctx)) = Some Diverges"
proof -
  obtain a where "getBlockProposer env h (blockValidators env h vm n) 1 dm n ctx = Inr a"
    using selectable_proposer [OF assms(1-3)] by blast
  from roundBlockValidators_ok(2) [OF this] show ?thesis
    by (subst Inner_selectable [OF assms(1,2)]) (use assms(4,5) in \<open>simp_all add: checkBlock_def\<close>)
qed

text \<open>An OK block without any packet is not rejected: the missing table is dereferenced.\<close>

lemma ok_block_without_packets:
  assumes "checkOkBlock env txns h bcd proposers [] fm tot q n = r" and "BlockProposer bcd \<noteq> ZERO_ADDRESS"
    and "BlockProposer bcd = proposerAt proposers (BRound bcd)" and "BProposalHash bcd \<noteq> ZERO_HASH"
    and "set txns \<subseteq> set (SelectedTransactions bcd)" and "BRound bcd = 1"
  shows "r = Some (Panic ''nil pointer dereference'')"
  using assms by (auto simp: checkOkBlock_def ValidatePackets_def Let_def list_all_iff)

text \<open>A packet of one byte, with a protocol version and no type, is indexed out of range.\<close>

lemma short_packet_panics:
  assumes "ParentHash pk = h" and "Signature pk \<noteq> []" and "ConsensusData pk = [b]" and "b \<ge> MinConsensusNetworkProtocolVersion"
  shows "ParseConsensusPackets env h (pk # pks) fm n dm ctx = Inl (Panic ''index out of range'')"
  using assms by (simp add: ParseConsensusPackets_def parseOne_def getPacketType_def startIndex_def)

section \<open>The hashes of precommits and commits are not compared\<close>

lemma ValidatePackets_ignores_hashes:
  assumes "mkeys pcs = mkeys (precommitDetailsMap pm)" and "mkeys cs = mkeys (commitDetailsMap pm)"
  shows "ValidatePackets env h r (Some (pm\<lparr>precommitDetailsMap := pcs, commitDetailsMap := cs\<rparr>)) t fm tot q txns n bt =
    ValidatePackets env h r (Some pm) t fm tot q txns n bt"
  by (simp add: ValidatePackets_def assms cong: sum.case_cong if_cong prod.case_cong)

section \<open>Deposits that suffice for a consensus but not for a block\<close>

lemma deposit_gap:
  assumes "filterValidators env h vm n = (m, Inr (f, t, q))" and "q < MIN_BLOCK_DEPOSIT"
    and "1 \<le> BRound bcd" and "BPrecommitHash bcd \<noteq> ZERO_HASH" and "txns = [] \<or> BRound bcd < MAX_ROUND"
  shows "snd (snd (ValidateBlockConsensusDataInner env txns h bcd bacd vm n dm ctx)) =
    Some (ErrText ''min deposit required error'')"
proof -
  have "\<not> BRound bcd < 1" "\<not> (BRound bcd \<ge> MAX_ROUND \<and> txns \<noteq> [])"
    using assms(3,5) by (auto simp: not_less [symmetric])
  with assms(1,2,4) show ?thesis
    by (auto simp: ValidateBlockConsensusDataInner_def Let_def)
qed

lemma too_many_validators:
  assumes "filterValidators env h vm n = (m, Inr (f, t, q))" and "MIN_BLOCK_DEPOSIT \<le> q"
    and "MAX_VALIDATORS < length f" and "MIN_VALIDATORS env \<le> MAX_VALIDATORS"
    and "1 \<le> BRound bcd" and "BPrecommitHash bcd \<noteq> ZERO_HASH" and "txns = [] \<or> BRound bcd < MAX_ROUND"
  shows "snd (snd (ValidateBlockConsensusDataInner env txns h bcd bacd vm n dm ctx)) =
    Some (ErrText ''filteredValidators MAX_VALIDATORS'')"
proof -
  have "\<not> BRound bcd < 1" "\<not> (BRound bcd \<ge> MAX_ROUND \<and> txns \<noteq> [])"
    using assms(5,7) by (auto simp: not_less [symmetric])
  moreover have "\<not> length f < MIN_VALIDATORS env" using assms(3,4) by simp
  ultimately show ?thesis using assms(1,2,3,6)
    by (auto simp: ValidateBlockConsensusDataInner_def Let_def)
qed

end
