(* ===== verification/Pos_State.thy ===== *)
theory Pos_State
  imports Pos_Peers Pos_BlockValidator
begin

text \<open>
  State of the consensus handler (\<open>PacketHandler.go\<close>): the records of a round, of a block and of
  the handler, the creation of blocks and rounds, the queries of the engine, the hash file, the
  broadcasts and the answers to requests for consensus data.

  Pointers. A \<open>*BlockStateDetails\<close> is reachable only through \<open>blockStateDetailsMap\<close> and a
  \<open>*BlockRoundDetails\<close> only through \<open>blockRoundMap\<close>; the code reads one, mutates it in place and stores
  it back under the same key. In the model a function reads the values, and every mutation is
  written back at once (\<open>putBlock\<close>, \<open>putRound\<close>), so what a function has changed before it returns
  an error stays changed, as in the code. Following a nil pointer is a \<open>Panic\<close>.

  Effects. What the handler gives to the network handler is appended to \<open>outbox\<close>. The file
  \<open>previoushash.txt\<close> is the field \<open>previousHashFile\<close>, \<open>None\<close> when it does not exist. Logging is left out.
  A time is a number of milliseconds; the zero \<open>time.Time\<close> of a field that is not set is 0.
\<close>

section \<open>Records\<close>

text \<open>\<open>NewRoundReason\<close>.\<close>

datatype newRoundReason = REASON_START | REASON_WAIT_ACK_BLOCK_PROPOSAL_TIMEOUT
  | REASON_WAIT_ACK_BLOCK_PROPOSAL_HIGHER_ROUND | REASON_WAIT_PRECOMMIT_TIMEOUT

text \<open>\<open>BlockRoundDetails\<close>; the field \<open>validatorsDepositMap\<close> of the struct is never used.\<close>

record roundDetails =
  Round :: byte
  proposalPacket :: "packet option"
  proposalAckPackets :: "(address, packet) gomap"
  precommitPackets :: "(address, packet) gomap"
  commitPackets :: "(address, packet) gomap"
  state :: BlockRoundState
  precommitHash :: hash
  blockVoteType :: byte
  blockProposalDetails :: "proposalDetails option"
  proposalHash :: hash
  proposalTxns :: "hash list"
  validatorProposalAcks :: "(address, proposalAckDetails) gomap"
  validatorPrecommits :: "(address, preCommitDetails) gomap"
  validatorCommits :: "(address, commitDetails) gomap"
  round_initTime :: int
  selfKnownTransactions :: "(hash, bool) gomap"
  selfProposed :: bool
  selfProposalPacket :: "packet option"
  selfProposedTime :: int
  selfAckd :: bool
  selfAckPacket :: "packet option"
  selfAckProposalVoteType :: byte
  selfPrecommited :: bool
  selfPrecommitPacket :: "packet option"
  precommitInitTime :: int
  selfCommited :: bool
  selfCommitPacket :: "packet option"
  proposer :: address
  newRoundReason :: newRoundReason

record blockState =
  filteredValidatorsDepositMap :: "(address, int) gomap"
  validatorDetailsMap :: "(address, valdetails) gomap option"
  totalBlockDepositValue :: int
  blockMinWeightedProposalsRequired :: int
  block_initTime :: int
  blockRoundMap :: "(byte, roundDetails) gomap"
  currentRound :: byte
  block_parentHash :: hash
  highestProposalRoundSeen :: byte
  consensusContext :: hash
  proposalTime :: int
  ackProposalTime :: int
  precommitTime :: int
  commitTime :: int
  blockNumber :: u64

text \<open>\<open>OutOfOrderPacket\<close>.\<close>

record outOfOrderPacket =
  ReceivedTime :: int
  OPacket :: packet

datatype effect = BroadcastConsensusData packet | RequestTransactions "hash list"
  | RequestConsensusData hash bytes

record consensusHandler =
  account :: address
  blockStateDetailsMap :: "(hash, blockState) gomap"
  outOfOrderPacketsMap :: "(hash, (hash, outOfOrderPacket) gomap) gomap"
  currentParentHash :: hash
  timeStatMap :: "(string, int) gomap"
  nilVoteBlocks :: u64
  okVoteBlocks :: u64
  totalTransactions :: u64
  maxTransactionsInBlock :: u64
  maxTransactionsBlockTime :: int
  initTime :: int
  initialized :: bool
  packetHashLastSentMap :: "(hash, int) gomap"
  lastRequestConsensusDataTime :: int
  lastBlockNumber :: u64
  lastBlockNumberChangeTime :: int
  TotalIncomingPacketCount :: u64
  latestBlockNumber :: u64
  peers :: peerHandler
  previousHashFile :: "string option"
  outbox :: "effect list"

abbreviation nilPanic :: perr where
  "nilPanic \<equiv> Panic ''nil pointer dereference''"

abbreviation indexPanic :: perr where
  "indexPanic \<equiv> Panic ''index out of range''"

definition send :: "effect \<Rightarrow> consensusHandler \<Rightarrow> consensusHandler" where
  "send e h = h\<lparr>outbox := outbox h @ [e]\<rparr>"

definition putBlock :: "hash \<Rightarrow> blockState \<Rightarrow> consensusHandler \<Rightarrow> consensusHandler" where
  "putBlock ph b h = h\<lparr>blockStateDetailsMap := mput ph b (blockStateDetailsMap h)\<rparr>"

definition delBlock :: "hash \<Rightarrow> consensusHandler \<Rightarrow> consensusHandler" where
  "delBlock ph h = h\<lparr>blockStateDetailsMap := mdel ph (blockStateDetailsMap h)\<rparr>"

definition putRound :: "roundDetails \<Rightarrow> blockState \<Rightarrow> blockState" where
  "putRound r b = b\<lparr>blockRoundMap := mput (currentRound b) r (blockRoundMap b)\<rparr>"

text \<open>A panic or a loop without end, in contrast to an error that a caller may drop.\<close>

fun fatal :: "perr option \<Rightarrow> bool" where
  "fatal (Some (Panic s)) = True"
| "fatal (Some Diverges) = True"
| "fatal _ = False"

text \<open>The block and its current round, which a function follows as pointers.\<close>

definition withRound ::
    "hash \<Rightarrow> consensusHandler \<Rightarrow> (blockState \<Rightarrow> roundDetails \<Rightarrow> consensusHandler \<times> perr option)
      \<Rightarrow> consensusHandler \<times> perr option" where
  "withRound ph h f =
    (case mget (blockStateDetailsMap h) ph of
       None \<Rightarrow> (h, Some nilPanic)
     | Some b \<Rightarrow>
         (case mget (blockRoundMap b) (currentRound b) of
            None \<Rightarrow> (h, Some nilPanic)
          | Some r \<Rightarrow> f b r))"

section \<open>A new handler\<close>

definition timeBuckets :: "string list" where
  "timeBuckets = [''-0s-to-1s'', ''-1s-to-5s'', ''-5s-to-10s'', ''-10s-to-30s'', ''-30s+'']"

definition statKeys :: "string list" where
  "statKeys = concat (map (\<lambda>p. map (\<lambda>b. p @ b) timeBuckets)
    [''proposal'', ''ackProposal'', ''precommit'', ''commit'', ''total''])"

text \<open>
  The environment variable \<open>IS_CONSENSUS_RELAY\<close> is the argument; \<open>MIN_VALIDATORS\<close> is a field of \<open>penv\<close>.
  The account is set by \<open>Authorize\<close>.
\<close>

definition NewConsensusPacketHandler :: "address \<Rightarrow> bool \<Rightarrow> consensusHandler" where
  "NewConsensusPacketHandler acc relay =
    \<lparr>account = acc, blockStateDetailsMap = [], outOfOrderPacketsMap = [], currentParentHash = ZERO_HASH,
     timeStatMap = map (\<lambda>k. (k, 0)) statKeys, nilVoteBlocks = 0, okVoteBlocks = 0, totalTransactions = 0,
     maxTransactionsInBlock = 0, maxTransactionsBlockTime = 0, initTime = 0, initialized = False,
     packetHashLastSentMap = [], lastRequestConsensusDataTime = 0, lastBlockNumber = 0,
     lastBlockNumberChangeTime = 0, TotalIncomingPacketCount = 0, latestBlockNumber = 0,
     peers = NewPeerHandler relay, previousHashFile = None, outbox = []\<rparr>"

section \<open>The hash file\<close>

definition DoesPreviousHashMatch :: "penv \<Rightarrow> consensusHandler \<Rightarrow> hash \<Rightarrow> perr + bool" where
  "DoesPreviousHashMatch env h parentHash =
    (if skipHashCheck env then Inr False
     else
       case previousHashFile h of
         None \<Rightarrow> Inr False
       | Some b \<Rightarrow>
           (case readHashErr env of
              Some e \<Rightarrow> Inl e
            | None \<Rightarrow> Inr (HexToHash b = parentHash)))"

text \<open>
  \<open>saveHashErr\<close> is an error of \<open>ensureDir\<close> or \<open>os.Create\<close>. An error of \<open>WriteString\<close> leaves the
  file that \<open>os.Create\<close> has truncated.
\<close>

definition SaveHash :: "penv \<Rightarrow> hash \<Rightarrow> consensusHandler \<Rightarrow> consensusHandler \<times> perr option" where
  "SaveHash env parentHash h =
    (case saveHashErr env of
       Some e \<Rightarrow> (h, Some e)
     | None \<Rightarrow>
         (case writeHashErr env of
            Some e \<Rightarrow> (h\<lparr>previousHashFile := Some []\<rparr>, Some e)
          | None \<Rightarrow> (h\<lparr>previousHashFile := Some (hash_Hex parentHash)\<rparr>, None)))"

section \<open>New rounds and blocks\<close>

definition newRound :: "int \<Rightarrow> byte \<Rightarrow> newRoundReason \<Rightarrow> address \<Rightarrow> roundDetails" where
  "newRound now r reason prop =
    \<lparr>Round = r, proposalPacket = None, proposalAckPackets = [], precommitPackets = [], commitPackets = [],
     state = WAITING_FOR_PROPOSAL, precommitHash = ZERO_HASH, blockVoteType = 0,
     blockProposalDetails = None, proposalHash = ZERO_HASH, proposalTxns = [],
     validatorProposalAcks = [], validatorPrecommits = [], validatorCommits = [], round_initTime = now,
     selfKnownTransactions = [], selfProposed = False, selfProposalPacket = None, selfProposedTime = 0,
     selfAckd = False, selfAckPacket = None, selfAckProposalVoteType = 0,
     selfPrecommited = False, selfPrecommitPacket = None, precommitInitTime = 0,
     selfCommited = False, selfCommitPacket = None, proposer = prop, newRoundReason = reason\<rparr>"

definition blockProposer :: "penv \<Rightarrow> hash \<Rightarrow> byte \<Rightarrow> blockState \<Rightarrow> perr + address" where
  "blockProposer env parentHash r b =
    getBlockProposer env parentHash (filteredValidatorsDepositMap b) r (validatorDetailsMap b)
      (blockNumber b) (consensusContext b)"

definition initializeNewBlockRound ::
    "penv \<Rightarrow> int \<Rightarrow> newRoundReason \<Rightarrow> consensusHandler \<Rightarrow> consensusHandler \<times> perr option" where
  "initializeNewBlockRound env now reason h =
    (case mget (blockStateDetailsMap h) (currentParentHash h) of
       None \<Rightarrow> (h, Some nilPanic)
     | Some b \<Rightarrow>
         let r = currentRound b + 1 in
         (case blockProposer env (currentParentHash h) r b of
            Inl e \<Rightarrow> (h, Some e)
          | Inr prop \<Rightarrow>
              (putBlock (currentParentHash h)
                 (b\<lparr>blockRoundMap := mput r (newRound now r reason prop) (blockRoundMap b),
                    currentRound := r\<rparr>) h, None)))"

definition newBlock :: "int \<Rightarrow> hash \<Rightarrow> u64 \<Rightarrow> blockState" where
  "newBlock now ph n =
    \<lparr>filteredValidatorsDepositMap = [], validatorDetailsMap = None, totalBlockDepositValue = 0,
     blockMinWeightedProposalsRequired = 0, block_initTime = now, blockRoundMap = [], currentRound = 0,
     block_parentHash = ph, highestProposalRoundSeen = 0, consensusContext = ZERO_HASH,
     proposalTime = 0, ackProposalTime = 0, precommitTime = 0, commitTime = 0, blockNumber = n\<rparr>"

text \<open>
  The steps of \<open>initializeBlockStateIfRequired\<close> after the validators are known. \<open>finishBlock\<close> is the
  part from the consensus context on; \<open>n0\<close> is \<open>preFilterValidatorCount\<close>. The errors of
  \<open>listValidatorsFn\<close> and of the consensus context leave the unfinished block in the map.
\<close>

definition startRound :: "penv \<Rightarrow> int \<Rightarrow> hash \<Rightarrow> u64 \<Rightarrow> consensusHandler \<Rightarrow> consensusHandler \<times> perr option" where
  "startRound env now ph n h =
    (case initializeNewBlockRound env now REASON_START h of
       (h1, Some e) \<Rightarrow>
         if fatal (Some e) then (h1, Some e)
         else (delBlock ph h1, Some (ErrText ''min block deposit not met''))
     | (h1, None) \<Rightarrow> SaveHash env ph (h1\<lparr>peers := peer_SetCurrentParentHash ph n (peers h1)\<rparr>))"

definition finishBlock ::
    "penv \<Rightarrow> int \<Rightarrow> hash \<Rightarrow> u64 \<Rightarrow> nat \<Rightarrow> blockState \<Rightarrow> consensusHandler \<Rightarrow> consensusHandler \<times> perr option" where
  "finishBlock env now ph n n0 b h =
    (let h1 = (putBlock ph b h)\<lparr>currentParentHash := ph\<rparr> in
     if n \<ge> CONTEXT_BASED_START_BLOCK then
       (case GetBlockConsensusContextKeyForBlock n of
          Inl e \<Rightarrow> (h1, Some e)
        | Inr contextKey \<Rightarrow>
            (case getBlockConsensusContext env contextKey (currentParentHash h1) of
               Inl e \<Rightarrow> (h1, Some e)
             | Inr blockContext \<Rightarrow>
                 startRound env now ph n
                   (putBlock ph (b\<lparr>consensusContext :=
                      Keccak256Hash env (blockContext @ str_bytes (itoa n0))\<rparr>) h1)))
     else startRound env now ph n h1)"

definition initializeBlockStateIfRequired ::
    "penv \<Rightarrow> int \<Rightarrow> hash \<Rightarrow> u64 \<Rightarrow> consensusHandler \<Rightarrow> consensusHandler \<times> perr option" where
  "initializeBlockStateIfRequired env now ph n h =
    (if mhas (blockStateDetailsMap h) ph then (h, None)
     else
       let h1 = (putBlock ph (newBlock now ph n) h)\<lparr>lastRequestConsensusDataTime := now\<rparr> in
       (case getValidatorsFn env ph of
          Inl e \<Rightarrow> (delBlock ph h1, Some e)
        | Inr validators \<Rightarrow>
            (case filterValidators env ph validators n of
               (vals, Inl e) \<Rightarrow> (delBlock ph h1, Some e)
             | (vals, Inr (filtered, tot, minRequired)) \<Rightarrow>
                 let b = (newBlock now ph n)\<lparr>totalBlockDepositValue := tot,
                            blockMinWeightedProposalsRequired := minRequired\<rparr>;
                     details = (if n \<ge> BLOCK_PROPOSER_NIL_BLOCK_START_BLOCK then
                                  (case listValidatorsFn env ph of
                                     Inl e \<Rightarrow> Inl e
                                   | Inr dm \<Rightarrow> Inr (Some (pausedRemoved filtered dm)))
                                else Inr None)
                 in (case details of
                       Inl e \<Rightarrow> (putBlock ph b h1, Some e)
                     | Inr dm \<Rightarrow>
                         if tot < MIN_BLOCK_DEPOSIT
                         then (delBlock ph h1, Some (ErrText ''min block deposit not met''))
                         else
                           finishBlock env now ph n (length validators)
                             (b\<lparr>validatorDetailsMap := dm,
                                filteredValidatorsDepositMap := depositsOf vals filtered\<rparr>) h1))))"

definition isBlockProposer :: "penv \<Rightarrow> hash \<Rightarrow> blockState \<Rightarrow> consensusHandler \<Rightarrow> perr + bool" where
  "isBlockProposer env ph b h =
    (case blockProposer env ph (currentRound b) b of
       Inl e \<Rightarrow> Inl e
     | Inr p \<Rightarrow> Inr (p = account h))"

section \<open>Queries of the engine\<close>

definition isValidator :: "hash \<Rightarrow> consensusHandler \<Rightarrow> perr + bool" where
  "isValidator ph h =
    (case mget (blockStateDetailsMap h) ph of
       None \<Rightarrow> Inl (ErrText ''block hash not found'')
     | Some b \<Rightarrow> Inr (mhas (filteredValidatorsDepositMap b) (account h)))"

definition getBlockRoundState :: "hash \<Rightarrow> byte \<Rightarrow> consensusHandler \<Rightarrow> perr + BlockRoundState \<times> byte \<times> nat" where
  "getBlockRoundState ph r h =
    (case mget (blockStateDetailsMap h) ph of
       None \<Rightarrow> Inr (UNKNOWN, 0, 0)
     | Some b \<Rightarrow>
         if r > currentRound b \<or> r = 0 then Inr (UNKNOWN, 0, 0)
         else
           case mget (blockRoundMap b) r of
             None \<Rightarrow> Inl nilPanic
           | Some rd \<Rightarrow> Inr (state rd, blockVoteType rd, length (validatorProposalAcks rd)))"

definition getBlockRound :: "hash \<Rightarrow> byte \<Rightarrow> consensusHandler \<Rightarrow> roundDetails option" where
  "getBlockRound ph r h =
    (case mget (blockStateDetailsMap h) ph of None \<Rightarrow> None | Some b \<Rightarrow> mget (blockRoundMap b) r)"

definition getBlockState :: "hash \<Rightarrow> consensusHandler \<Rightarrow> perr + BlockRoundState \<times> byte" where
  "getBlockState ph h =
    (case mget (blockStateDetailsMap h) ph of
       None \<Rightarrow> Inr (UNKNOWN, 0)
     | Some b \<Rightarrow>
         (case mget (blockRoundMap b) (currentRound b) of
            None \<Rightarrow> Inl nilPanic
          | Some rd \<Rightarrow> Inr (state rd, currentRound b)))"

text \<open>The current round of a block that has received its commits.\<close>

definition committedRound :: "hash \<Rightarrow> consensusHandler \<Rightarrow> perr + blockState \<times> roundDetails" where
  "committedRound ph h =
    (case mget (blockStateDetailsMap h) ph of
       None \<Rightarrow> Inl (ErrText ''block doesn't exist'')
     | Some b \<Rightarrow>
         if currentRound b = 0 then Inl (ErrText ''invalid block round'')
         else
           case mget (blockRoundMap b) (currentRound b) of
             None \<Rightarrow> Inl nilPanic
           | Some rd \<Rightarrow>
               if state rd \<noteq> RECEIVED_COMMITS then Inl (ErrText ''block state not done commit yet'')
               else Inr (b, rd))"

definition getBlockSelectedTransactions :: "hash \<Rightarrow> consensusHandler \<Rightarrow> perr + hash list option" where
  "getBlockSelectedTransactions ph h =
    (case committedRound ph h of
       Inl e \<Rightarrow> Inl e
     | Inr (b, rd) \<Rightarrow> Inr (if blockVoteType rd = VOTE_TYPE_NIL then None else Some (proposalTxns rd)))"

definition getBlockVote :: "hash \<Rightarrow> consensusHandler \<Rightarrow> perr + byte" where
  "getBlockVote ph h =
    (case mget (blockStateDetailsMap h) ph of
       None \<Rightarrow> Inr VOTE_TYPE_NIL
     | Some b \<Rightarrow>
         (case mget (blockRoundMap b) (currentRound b) of
            None \<Rightarrow> Inl nilPanic
          | Some rd \<Rightarrow> Inr (selfAckProposalVoteType rd)))"

section \<open>The consensus data of a block\<close>

text \<open>The values of a Go map in the order of the iteration.\<close>

definition mvals :: "('k, 'v) gomap \<Rightarrow> 'v list" where
  "mvals m = map snd m"

definition roundPackets :: "roundDetails \<Rightarrow> packet list" where
  "roundPackets rd =
    map NewConsensusPacket
      ((case proposalPacket rd of None \<Rightarrow> [] | Some p \<Rightarrow> [p]) @ mvals (proposalAckPackets rd) @
       mvals (precommitPackets rd) @ mvals (commitPackets rd))"

text \<open>
  The rounds \<open>r\<close> of a loop \<open>for r := byte(1); r <= currentRound; r++\<close>. For the last byte the loop
  goes on with round 0, and if that round exists it never ends.
\<close>

definition loopRounds :: "byte \<Rightarrow> byte list" where
  "loopRounds cur = (if cur = 255 then roundList cur @ [0] else roundList cur)"

text \<open>The loop: the packets of the rounds and the proposers that are reported as offline.\<close>

fun collectRounds ::
    "penv \<Rightarrow> hash \<Rightarrow> blockState \<Rightarrow> byte \<Rightarrow> byte list \<Rightarrow> packet list \<Rightarrow> address list
      \<Rightarrow> perr + packet list \<times> address list" where
  "collectRounds env ph b vote [] packets slashed = Inr (packets, slashed)"
| "collectRounds env ph b vote (r # rs) packets slashed =
    (case mget (blockRoundMap b) r of
       None \<Rightarrow> Inl nilPanic
     | Some rd \<Rightarrow>
         (case blockProposer env ph r b of
            Inl e \<Rightarrow> Inl e
          | Inr roundProposer \<Rightarrow>
              if roundPackets rd = [] then Inl (ErrText ''no consensus packets for round'')
              else
                collectRounds env ph b vote rs (packets @ roundPackets rd)
                  (if (if vote = VOTE_TYPE_NIL then r < MAX_ROUND
                       else currentRound b \<noteq> 1 \<and> r < currentRound b)
                   then slashed @ [roundProposer] else slashed)))"

definition consensusDataOf ::
    "penv \<Rightarrow> hash \<Rightarrow> blockState \<Rightarrow> roundDetails \<Rightarrow> perr + blockConsensusData" where
  "consensusDataOf env ph b rd =
    (if blockVoteType rd \<noteq> VOTE_TYPE_OK \<and> blockVoteType rd \<noteq> VOTE_TYPE_NIL
     then Inl (ErrText ''getBlockConsensusData invalid vote type e'')
     else if blockVoteType rd = VOTE_TYPE_OK then
       (case blockProposalDetails rd of
          None \<Rightarrow> Inl nilPanic
        | Some d \<Rightarrow>
            Inr \<lparr>BlockProposer = proposer rd, VoteType = VOTE_TYPE_OK, BProposalHash = proposalHash rd,
              BPrecommitHash = precommitHash rd, SlashedBlockProposers = [], BRound = currentRound b,
              SelectedTransactions = proposalTxns rd, BBlockTime = BlockTime d\<rparr>)
     else
       Inr \<lparr>BlockProposer = ZERO_ADDRESS, VoteType = VOTE_TYPE_NIL,
         BProposalHash = getNilVoteProposalHash env ph (currentRound b),
         BPrecommitHash = precommitHash rd, SlashedBlockProposers = [], BRound = currentRound b,
         SelectedTransactions = [], BBlockTime = 0\<rparr>)"

text \<open>
  \<open>ValidateBlockConsensusDataInner\<close> is called with the maps of the block, from which it may delete
  entries.
\<close>

definition getBlockConsensusData ::
    "penv \<Rightarrow> hash \<Rightarrow> consensusHandler
      \<Rightarrow> consensusHandler \<times> (perr + blockConsensusData \<times> blockAdditionalConsensusData)" where
  "getBlockConsensusData env ph h =
    (case committedRound ph h of
       Inl e \<Rightarrow> (h, Inl e)
     | Inr (b, rd) \<Rightarrow>
         (case consensusDataOf env ph b rd of
            Inl e \<Rightarrow> (h, Inl e)
          | Inr bcd \<Rightarrow>
              (case collectRounds env ph b (VoteType bcd) (loopRounds (currentRound b)) [] [] of
                 Inl e \<Rightarrow> (h, Inl e)
               | Inr (packets, slashed) \<Rightarrow>
                   if currentRound b = 255 then (h, Inl Diverges)
                   else
                     let data = bcd\<lparr>SlashedBlockProposers := slashed\<rparr>;
                         additional = \<lparr>ConsensusPackets = map NewConsensusPacket packets,
                                       InitTime = word_of_int (block_initTime b)\<rparr>
                     in (case ValidateBlockConsensusDataInner env
                                (if VoteType bcd = VOTE_TYPE_NIL then [] else proposalTxns rd) ph data additional
                                (filteredValidatorsDepositMap b) (blockNumber b) (validatorDetailsMap b)
                                (consensusContext b) of
                           (fm, dm, e) \<Rightarrow>
                             (putBlock ph (b\<lparr>filteredValidatorsDepositMap := fm, validatorDetailsMap := dm\<rparr>) h,
                              case e of Some x \<Rightarrow> Inl x | None \<Rightarrow> Inr (data, additional))))))"

section \<open>Broadcasts\<close>

definition createConsensusPacket :: "penv \<Rightarrow> hash \<Rightarrow> bytes \<Rightarrow> bool \<Rightarrow> perr + packet" where
  "createConsensusPacket env ph data fullSign =
    (case signFn env of
       None \<Rightarrow> Inl (ErrText ''signFn is not set'')
     | Some sign \<Rightarrow>
         (case (if fullSign then signFnWithContext env (ph @ data) FULL_SIGN_CONTEXT else sign (ph @ data)) of
            Inl e \<Rightarrow> Inl e
          | Inr signature \<Rightarrow> Inr \<lparr>ParentHash = ph, Signature = signature, ConsensusData = data\<rparr>))"

definition cleanupBroadcast :: "int \<Rightarrow> consensusHandler \<Rightarrow> consensusHandler" where
  "cleanupBroadcast now h =
    h\<lparr>packetHashLastSentMap :=
       filter (\<lambda>(k, v). \<not> Elapsed now v \<ge> BROADCAST_CLEANUP_DELAY) (packetHashLastSentMap h)\<rparr>"

text \<open>
  The map of the last sends is made when the handler is initialized, before the first broadcast.
\<close>

definition broadcastDirect :: "penv \<Rightarrow> int \<Rightarrow> packet \<Rightarrow> consensusHandler \<Rightarrow> consensusHandler \<times> perr option" where
  "broadcastDirect env now packet h =
    (let hash = Keccak256Hash env (ParentHash packet @ ConsensusData packet);
         resend = send (BroadcastConsensusData packet)
           (cleanupBroadcast now
             (h\<lparr>packetHashLastSentMap := mput hash now (packetHashLastSentMap h)\<rparr>))
     in case getPacketType packet of
          Inl e \<Rightarrow> (h, Some e)
        | Inr packetType \<Rightarrow>
            (case mget (packetHashLastSentMap h) hash of
               None \<Rightarrow> (resend, None)
             | Some lastSent \<Rightarrow>
                 if Elapsed now lastSent > BROADCAST_RESEND_DELAY then (resend, None) else (h, None)))"

definition broadCast :: "penv \<Rightarrow> int \<Rightarrow> packet option \<Rightarrow> consensusHandler \<Rightarrow> consensusHandler \<times> perr option" where
  "broadCast env now pkt h =
    (case pkt of
       None \<Rightarrow> (h, Some (ErrText ''packet is nil''))
     | Some packet \<Rightarrow>
         if latestBlockNumber h \<ge> PACKET_PROTOCOL_START_BLOCK then
           (case BroadcastLocalPacket env packet (peers h) of
              (p, sendCount) \<Rightarrow>
                if sendCount > 8 then (h\<lparr>peers := p\<rparr>, None)
                else broadcastDirect env now packet (h\<lparr>peers := p\<rparr>))
         else broadcastDirect env now packet h)"

section \<open>Requests for consensus data\<close>

definition missing :: "blockState \<Rightarrow> (address, packet) gomap \<Rightarrow> address list" where
  "missing b packets = filter (\<lambda>v. \<not> mhas packets v) (mkeys (filteredValidatorsDepositMap b))"

definition getRequestConsensusDataPacket :: "blockState \<Rightarrow> perr + requestDetails" where
  "getRequestConsensusDataPacket b =
    (let d = \<lparr>RequestProposal = False, ReqProposalAcks = [], ReqPrecommits = [], ReqCommits = [], RRound = 0\<rparr> in
     case mget (blockRoundMap b) (currentRound b) of
       None \<Rightarrow> Inl nilPanic
     | Some rd \<Rightarrow>
         if state rd = WAITING_FOR_PROPOSAL then Inr (d\<lparr>RequestProposal := True\<rparr>)
         else if state rd = WAITING_FOR_PROPOSAL_ACKS
         then Inr (d\<lparr>ReqProposalAcks := missing b (proposalAckPackets rd)\<rparr>)
         else if state rd = WAITING_FOR_PRECOMMITS
         then Inr (d\<lparr>ReqProposalAcks := missing b (proposalAckPackets rd),
                    ReqPrecommits := missing b (precommitPackets rd)\<rparr>)
         else if state rd = WAITING_FOR_COMMITS
         then Inr (d\<lparr>ReqProposalAcks := missing b (proposalAckPackets rd),
                    ReqPrecommits := missing b (precommitPackets rd),
                    ReqCommits := missing b (commitPackets rd)\<rparr>)
         else Inl (ErrText ''unknown state''))"

definition sendRequest :: "int \<Rightarrow> blockState \<Rightarrow> consensusHandler \<Rightarrow> consensusHandler \<times> perr option" where
  "sendRequest now b h =
    (if Elapsed now (block_initTime b) < BLOCK_TIMEOUT_MS then (h, None)
     else if Elapsed now (lastRequestConsensusDataTime h) < CONSENSUS_DATA_REQUEST_RESEND_DELAY then (h, None)
     else
       let h1 = h\<lparr>lastRequestConsensusDataTime := now\<rparr> in
       case getRequestConsensusDataPacket b of
         Inl e \<Rightarrow> (h1, Some e)
       | Inr d \<Rightarrow>
           (case encodeDetails (V_Request d) of
              Inl e \<Rightarrow> (h1, Some e)
            | Inr data \<Rightarrow> (send (RequestConsensusData (block_parentHash b) data) h1, None)))"

definition requestConsensusData :: "penv \<Rightarrow> int \<Rightarrow> blockState \<Rightarrow> consensusHandler \<Rightarrow> consensusHandler \<times> perr option" where
  "requestConsensusData env now b h =
    (let hash = Keccak256Hash env (block_parentHash b);
         h1 = h\<lparr>packetHashLastSentMap := mput hash now (packetHashLastSentMap h)\<rparr>
     in case mget (packetHashLastSentMap h) hash of
          None \<Rightarrow> sendRequest now b h1
        | Some lastSent \<Rightarrow>
            if Elapsed now lastSent > BROADCAST_RESEND_DELAY * 3 then sendRequest now b h1 else (h, None))"

definition cleanupBlockState :: "int \<Rightarrow> consensusHandler \<Rightarrow> consensusHandler" where
  "cleanupBlockState now h =
    h\<lparr>blockStateDetailsMap :=
       filter (\<lambda>(k, b). block_parentHash b = currentParentHash h \<or>
                 \<not> Elapsed now (block_initTime b) \<ge> BLOCK_CLEANUP_TIME_MS) (blockStateDetailsMap h)\<rparr>"

text \<open>The answer to a request: all packets of the rounds so far, whatever was asked for.\<close>

definition answerRound :: "roundDetails \<Rightarrow> packet list" where
  "answerRound rd =
    (if state rd \<ge> WAITING_FOR_PROPOSAL_ACKS
     then (case proposalPacket rd of None \<Rightarrow> [] | Some p \<Rightarrow> [p]) @ mvals (proposalAckPackets rd) else []) @
    (if state rd \<ge> WAITING_FOR_PRECOMMITS then mvals (precommitPackets rd) else []) @
    (if state rd \<ge> WAITING_FOR_COMMITS then mvals (commitPackets rd) else [])"

fun answerRounds :: "blockState \<Rightarrow> byte list \<Rightarrow> perr + packet list" where
  "answerRounds b [] = Inr []"
| "answerRounds b (r # rs) =
    (case mget (blockRoundMap b) r of
       None \<Rightarrow> Inl nilPanic
     | Some rd \<Rightarrow>
         (case answerRounds b rs of Inl e \<Rightarrow> Inl e | Inr ps \<Rightarrow> Inr (answerRound rd @ ps)))"

text \<open>\<open>RequestConsensusDataPacket\<close> is given by its parent hash and its data.\<close>

definition HandleRequestConsensusDataPacket ::
    "int \<Rightarrow> hash \<Rightarrow> bytes \<Rightarrow> consensusHandler \<Rightarrow> perr + packet list" where
  "HandleRequestConsensusDataPacket now ph requestData h =
    (if requestData = [] then Inl (ErrText ''invalid request consensus data packet'')
     else if \<not> initialized h \<or> \<not> HasExceededTimeThreshold now (initTime h) STARTUP_DELAY_MS
     then Inl (ErrText ''received request for consensus packet, but consensus is not ready yet'')
     else
       case decodeRequest requestData of
         Inl e \<Rightarrow> Inl e
       | Inr details \<Rightarrow>
           (case mget (blockStateDetailsMap h) ph of
              None \<Rightarrow> Inl UnknownParentHashErr
            | Some b \<Rightarrow>
                (case answerRounds b (loopRounds (currentRound b)) of
                   Inl e \<Rightarrow> Inl e
                 | Inr ps \<Rightarrow> if currentRound b = 255 then Inl Diverges else Inr ps)))"

section \<open>Statistics and peers\<close>

definition LogIncomingPacketStats :: "consensusHandler \<Rightarrow> consensusHandler" where
  "LogIncomingPacketStats h = h\<lparr>TotalIncomingPacketCount := TotalIncomingPacketCount h + 1\<rparr>"

definition SetLatestBlockNumber :: "u64 \<Rightarrow> consensusHandler \<Rightarrow> consensusHandler" where
  "SetLatestBlockNumber n h = h\<lparr>latestBlockNumber := n\<rparr>"

definition OnPeerConnected :: "string \<Rightarrow> consensusHandler \<Rightarrow> consensusHandler" where
  "OnPeerConnected peerId h = h\<lparr>peers := peer_OnPeerConnected peerId (peers h)\<rparr>"

text \<open>The handler reports a lost peer as a new connection.\<close>

definition OnPeerDisconnected :: "string \<Rightarrow> consensusHandler \<Rightarrow> consensusHandler" where
  "OnPeerDisconnected peerId h = h\<lparr>peers := peer_OnPeerConnected peerId (peers h)\<rparr>"

definition SetP2PHandler :: "string \<Rightarrow> consensusHandler \<Rightarrow> consensusHandler" where
  "SetP2PHandler localId h = h\<lparr>peers := peer_SetP2PHandler localId (peers h)\<rparr>"

definition ShouldRebroadCast :: "packet \<Rightarrow> perr + bool" where
  "ShouldRebroadCast packet =
    (if Signature packet = [] \<or> ConsensusData packet = [] then Inr False
     else
       case getPacketType packet of
         Inl e \<Rightarrow> Inl e
       | Inr packetType \<Rightarrow>
           Inr (\<not> (packetType < CONSENSUS_PACKET_TYPE_PROPOSE_BLOCK \<or>
                   packetType > CONSENSUS_PACKET_TYPE_COMMIT_BLOCK)))"

end
