(* ===== verification/Pos_Handler.thy ===== *)
theory Pos_Handler
  imports Pos_State
begin

text \<open>
  The protocol of the consensus handler (\<open>PacketHandler.go\<close>): what it does with the packets of the
  other validators (\<open>HandleConsensusPacket\<close>) and what it does when the engine calls it for the next
  block (\<open>HandleConsensus\<close>). A round goes through the states \<open>WAITING_FOR_PROPOSAL\<close>,
  \<open>WAITING_FOR_PROPOSAL_ACKS\<close>, \<open>WAITING_FOR_PRECOMMITS\<close>, \<open>WAITING_FOR_COMMITS\<close> and \<open>RECEIVED_COMMITS\<close>.

  Each function returns the handler after the call and the error. A handler that is called with
  a pointer to a packet keeps the packet itself where the code keeps the pointer.
\<close>

section \<open>Packets\<close>

text \<open>\<open>rlp.DecodeBytes(packet.ConsensusData[startIndex:], &details)\<close>.\<close>

definition decodeBody :: "(bytes \<Rightarrow> perr + 'a) \<Rightarrow> packet \<Rightarrow> perr + 'a" where
  "decodeBody dec packet =
    (if length (ConsensusData packet) < startIndex (ConsensusData packet) then Inl indexPanic
     else dec (packetBody packet))"

text \<open>The header in front of the details that a packet carries.\<close>

definition dataToSend :: "consensusHandler \<Rightarrow> byte \<Rightarrow> bytes \<Rightarrow> bytes" where
  "dataToSend h packetType data =
    (if latestBlockNumber h \<ge> PACKET_PROTOCOL_START_BLOCK
     then [ConsensusNetworkProtocolVersion] @ [packetType] @ data else [packetType] @ data)"

definition createPacket ::
    "penv \<Rightarrow> hash \<Rightarrow> byte \<Rightarrow> rval \<Rightarrow> bool \<Rightarrow> consensusHandler \<Rightarrow> perr + packet" where
  "createPacket env ph packetType details fullSign h =
    (case encodeDetails details of
       Inl e \<Rightarrow> Inl e
     | Inr data \<Rightarrow> createConsensusPacket env ph (dataToSend h packetType data) fullSign)"

text \<open>The guards that the four packet handlers share; the result is the block and its round.\<close>

definition lookupRound :: "hash \<Rightarrow> consensusHandler \<Rightarrow> perr + blockState \<times> roundDetails" where
  "lookupRound ph h =
    (case mget (blockStateDetailsMap h) ph of
       None \<Rightarrow> Inl UnknownParentHashErr
     | Some b \<Rightarrow>
         if \<not> mhas (filteredValidatorsDepositMap b) (account h)
         then Inl (ErrText ''not a validator in this block'')
         else
           case mget (blockRoundMap b) (currentRound b) of
             None \<Rightarrow> Inl (ErrText ''invalid round'')
           | Some rd \<Rightarrow> Inr (b, rd))"

definition storeRound :: "hash \<Rightarrow> blockState \<Rightarrow> roundDetails \<Rightarrow> consensusHandler \<Rightarrow> consensusHandler" where
  "storeRound ph b rd h = putBlock ph (putRound rd b) h"

section \<open>Proposals\<close>

definition proposalHashOf :: "penv \<Rightarrow> hash \<Rightarrow> u64 \<Rightarrow> proposalDetails \<Rightarrow> hash" where
  "proposalHashOf env ph n d =
    (if n \<ge> PROPOSAL_TIME_HASH_START_BLOCK
     then GetCombinedTxnHashWithTime env ph (PRound d) (Txns d) (BlockTime d)
     else GetCombinedTxnHash env ph (PRound d) (Txns d))"

definition checkProposal ::
    "penv \<Rightarrow> int \<Rightarrow> address \<Rightarrow> packet \<Rightarrow> bool \<Rightarrow> consensusHandler \<Rightarrow> blockState \<Rightarrow> roundDetails
      \<Rightarrow> perr + proposalDetails" where
  "checkProposal env now validator packet self h b rd =
    (case decodeBody decodeProposal packet of
       Inl e \<Rightarrow> Inl e
     | Inr d \<Rightarrow>
         if PRound d \<noteq> Round rd then Inl OutOfOrderPackerErr
         else if state rd \<ge> WAITING_FOR_PROPOSAL_ACKS then Inl OutOfOrderPackerErr
         else if \<not> mhas (filteredValidatorsDepositMap b) validator then Inl (ErrText ''invalid validator'')
         else if proposer rd \<noteq> validator then Inl (ErrText ''invalid proposer'')
         else if \<not> ValidateBlockProposalTimeConsensus now (blockNumber b) (BlockTime d)
         then Inl (ErrText ''block time validation failed, skipping packet'')
         else if validator = account h \<and> \<not> self then Inl (ErrText ''self packet from elsewhere'')
         else if currentRound b \<ge> MAX_ROUND \<and> Txns d \<noteq> []
         then Inl (ErrText ''unexpected transaction count when handling blockProposal'')
         else if proposalPacket rd \<noteq> None \<and>
                 proposalHashOf env (ParentHash packet) (blockNumber b) d \<noteq> proposalHash rd
         then Inl (ErrText ''invalid proposal hash'')
         else Inr d)"

text \<open>
  The transactions are copied one by one until one of them is already finalized; \<open>copied\<close> holds those
  before it, the rest of the slice is still zero.
\<close>

fun checkTxns :: "penv \<Rightarrow> hash list \<Rightarrow> hash list \<Rightarrow> hash list \<times> perr option" where
  "checkTxns env [] copied = (copied, None)"
| "checkTxns env (t # ts) copied =
    (let rest = replicate (Suc (length ts)) ZERO_HASH in
     case doesFinalizedTransactionExistFn env t of
       Inl e \<Rightarrow> (copied @ rest, Some e)
     | Inr True \<Rightarrow> (copied @ rest, Some (ErrText ''transaction already finalized''))
     | Inr False \<Rightarrow> checkTxns env ts (copied @ [t]))"

definition unknownTxns :: "roundDetails \<Rightarrow> hash list \<Rightarrow> hash list" where
  "unknownTxns rd txns = filter (\<lambda>t. \<not> mhas (selfKnownTransactions rd) t) txns"

text \<open>The update after all checks: a proposal with unknown transactions does not advance the round.\<close>

definition acceptProposal ::
    "penv \<Rightarrow> int \<Rightarrow> packet \<Rightarrow> bool \<Rightarrow> proposalDetails \<Rightarrow> blockState \<Rightarrow> roundDetails \<Rightarrow> consensusHandler
      \<Rightarrow> consensusHandler" where
  "acceptProposal env now packet self d b rd h =
    (let ph = ParentHash packet;
         rd1 = rd\<lparr>proposalPacket := Some (NewConsensusPacket packet)\<rparr>;
         b1 = b\<lparr>proposalTime := Elapsed now (block_initTime b)\<rparr>
     in if self then
          storeRound ph b1 (rd1\<lparr>state := WAITING_FOR_PROPOSAL_ACKS, selfProposed := True,
            selfProposalPacket := Some packet, selfProposedTime := now\<rparr>) h
        else if unknownTxns rd (Txns d) \<noteq> [] then
          send (RequestTransactions (unknownTxns rd (Txns d))) (storeRound ph b rd1 h)
        else storeRound ph b1 (rd1\<lparr>state := WAITING_FOR_PROPOSAL_ACKS\<rparr>) h)"

definition handleProposeBlockPacket ::
    "penv \<Rightarrow> int \<Rightarrow> address \<Rightarrow> packet \<Rightarrow> bool \<Rightarrow> consensusHandler \<Rightarrow> consensusHandler \<times> perr option" where
  "handleProposeBlockPacket env now validator packet self h =
    (case lookupRound (ParentHash packet) h of
       Inl e \<Rightarrow> (h, Some e)
     | Inr (b, rd) \<Rightarrow>
         (case checkProposal env now validator packet self h b rd of
            Inl e \<Rightarrow> (h, Some e)
          | Inr d \<Rightarrow>
              (case checkTxns env (Txns d) [] of
                 (txns, e) \<Rightarrow>
                   let rd1 = rd\<lparr>blockProposalDetails := Some d,
                                proposalHash := proposalHashOf env (ParentHash packet) (blockNumber b) d,
                                proposalTxns := txns\<rparr>
                   in (case e of
                         Some x \<Rightarrow> (storeRound (ParentHash packet) b rd1 h, Some x)
                       | None \<Rightarrow> (acceptProposal env now packet self d b rd1 h, None)))))"

section \<open>Acknowledgements\<close>

definition handleAckBlockProposalPacket ::
    "address \<Rightarrow> packet \<Rightarrow> consensusHandler \<Rightarrow> consensusHandler \<times> perr option" where
  "handleAckBlockProposalPacket validator packet h =
    (case mget (blockStateDetailsMap h) (ParentHash packet) of
       None \<Rightarrow> (h, Some UnknownParentHashErr)
     | Some b \<Rightarrow>
         if \<not> mhas (filteredValidatorsDepositMap b) (account h)
         then (h, Some (ErrText ''not a validator in this block''))
         else if \<not> mhas (filteredValidatorsDepositMap b) validator
         then (h, Some (ErrText ''invalid validator''))
         else
           case mget (blockRoundMap b) (currentRound b) of
             None \<Rightarrow> (h, Some (ErrText ''invalid round''))
           | Some rd \<Rightarrow>
               (case decodeBody decodeAck packet of
                  Inl e \<Rightarrow> (h, Some e)
                | Inr d \<Rightarrow>
                    if ARound d \<noteq> currentRound b then
                      (if ARound d > currentRound b
                       then putBlock (ParentHash packet) (b\<lparr>highestProposalRoundSeen := ARound d\<rparr>) h else h,
                       Some OutOfOrderPackerErr)
                    else if ProposalAckVoteType d \<noteq> VOTE_TYPE_OK \<and> ProposalAckVoteType d \<noteq> VOTE_TYPE_NIL
                    then (h, Some (ErrText ''invalid vote type c''))
                    else if ARound d \<ge> MAX_ROUND \<and> ProposalAckVoteType d \<noteq> VOTE_TYPE_NIL
                    then (h, Some (ErrText ''invalid vote type, expected nil vote''))
                    else if state rd = RECEIVED_COMMITS then (h, None)
                    else if state rd = UNKNOWN then (h, Some (ErrText ''invalid state''))
                    else
                      (storeRound (ParentHash packet) b
                         (rd\<lparr>validatorProposalAcks := mput validator d (validatorProposalAcks rd),
                             proposalAckPackets :=
                               mput validator (NewConsensusPacket packet) (proposalAckPackets rd)\<rparr>) h,
                       None)))"

section \<open>Precommits and commits\<close>

text \<open>The deposits of the validators in the keys; a validator that is not in the block is a nil \<open>big.Int\<close>.\<close>

fun tally :: "(address, int) gomap \<Rightarrow> address list \<Rightarrow> int \<Rightarrow> perr + int" where
  "tally fm [] s = Inr s"
| "tally fm (v # vs) s =
    (case mget fm v of None \<Rightarrow> Inl nilPanic | Some d \<Rightarrow> tally fm vs (s + d))"

definition checkPrecommit ::
    "address \<Rightarrow> packet \<Rightarrow> bool \<Rightarrow> consensusHandler \<Rightarrow> blockState \<Rightarrow> roundDetails \<Rightarrow> perr + preCommitDetails" where
  "checkPrecommit validator packet self h b rd =
    (if state rd \<noteq> WAITING_FOR_PRECOMMITS then Inl OutOfOrderPackerErr
     else if \<not> mhas (filteredValidatorsDepositMap b) validator then Inl (ErrText ''invalid validator'')
     else if validator = account h \<and> \<not> self then Inl (ErrText ''self packet from elsewhere'')
     else
       case decodeBody decodePrecommit packet of
         Inl e \<Rightarrow> Inl e
       | Inr d \<Rightarrow>
           if PCRound d \<noteq> currentRound b then Inl OutOfOrderPackerErr
           else if PrecommitHash d \<noteq> precommitHash rd then Inl (ErrText ''invalid Precommit Hash'')
           else Inr d)"

definition handlePrecommitPacket ::
    "int \<Rightarrow> address \<Rightarrow> packet \<Rightarrow> bool \<Rightarrow> consensusHandler \<Rightarrow> consensusHandler \<times> perr option" where
  "handlePrecommitPacket now validator packet self h =
    (case lookupRound (ParentHash packet) h of
       Inl e \<Rightarrow> (h, Some e)
     | Inr (b, rd) \<Rightarrow>
         (case checkPrecommit validator packet self h b rd of
            Inl e \<Rightarrow> (h, Some e)
          | Inr d \<Rightarrow>
              let ph = ParentHash packet;
                  rd1 = rd\<lparr>validatorPrecommits := mput validator d (validatorPrecommits rd)\<rparr>;
                  rd2 = (if self then rd1\<lparr>selfPrecommited := True, selfPrecommitPacket := Some packet\<rparr> else rd1);
                  pkt = NewConsensusPacket packet;
                  keep = (\<lambda>r. r\<lparr>precommitPackets := mput validator pkt (precommitPackets r)\<rparr>)
              in if selfPrecommited rd2 then
                   (case tally (filteredValidatorsDepositMap b) (mkeys (validatorPrecommits rd2)) 0 of
                      Inl e \<Rightarrow> (storeRound ph b rd2 h, Some e)
                    | Inr tot \<Rightarrow>
                        if tot \<ge> blockMinWeightedProposalsRequired b then
                          (storeRound ph (b\<lparr>precommitTime := Elapsed now (block_initTime b)\<rparr>)
                             (keep (rd2\<lparr>state := WAITING_FOR_COMMITS\<rparr>)) h, None)
                        else (storeRound ph b (keep rd2) h, None))
                 else (storeRound ph b (keep rd2) h, None)))"

definition checkCommit ::
    "penv \<Rightarrow> address \<Rightarrow> packet \<Rightarrow> bool \<Rightarrow> consensusHandler \<Rightarrow> blockState \<Rightarrow> roundDetails \<Rightarrow> perr + commitDetails" where
  "checkCommit env validator packet self h b rd =
    (if state rd \<noteq> WAITING_FOR_COMMITS then Inl OutOfOrderPackerErr
     else if \<not> mhas (filteredValidatorsDepositMap b) validator then Inl (ErrText ''invalid validator'')
     else if validator = account h \<and> \<not> self then Inl (ErrText ''self packet from elsewhere'')
     else
       case decodeBody decodeCommit packet of
         Inl e \<Rightarrow> Inl e
       | Inr d \<Rightarrow>
           if CRound d \<noteq> currentRound b then Inl OutOfOrderPackerErr
           else if CommitHash d \<noteq> Keccak256Hash env (precommitHash rd) then Inl (ErrText ''invalid commit Hash'')
           else Inr d)"

definition bumpStat :: "string \<Rightarrow> int \<Rightarrow> consensusHandler \<Rightarrow> consensusHandler" where
  "bumpStat prefix ms h =
    (let k = GetTimeStatBucket prefix ms in
     h\<lparr>timeStatMap := mput k ((case mget (timeStatMap h) k of None \<Rightarrow> 0 | Some v \<Rightarrow> v) + 1) (timeStatMap h)\<rparr>)"

text \<open>The statistics of a block that is done; \<open>b\<close> already has its \<open>commitTime\<close>.\<close>

definition blockDone :: "int \<Rightarrow> blockState \<Rightarrow> roundDetails \<Rightarrow> consensusHandler \<Rightarrow> consensusHandler" where
  "blockDone now b rd h =
    (let txnCount = word_of_nat (length (proposalTxns rd));
         h1 = (if blockVoteType rd = VOTE_TYPE_NIL then h\<lparr>nilVoteBlocks := nilVoteBlocks h + 1\<rparr>
               else if blockVoteType rd = VOTE_TYPE_OK then
                 let h0 = h\<lparr>okVoteBlocks := okVoteBlocks h + 1,
                            totalTransactions := totalTransactions h + txnCount\<rparr> in
                 if txnCount > maxTransactionsInBlock h0
                 then h0\<lparr>maxTransactionsInBlock := txnCount,
                         maxTransactionsBlockTime := Elapsed now (block_initTime b)\<rparr>
                 else h0
               else h)
     in bumpStat ''total'' (commitTime b)
          (bumpStat ''commit'' (commitTime b - precommitTime b)
            (bumpStat ''precommit'' (precommitTime b - ackProposalTime b)
              (bumpStat ''ackProposal'' (ackProposalTime b - proposalTime b)
                (bumpStat ''proposal'' (proposalTime b) h1)))))"

definition handleCommitPacket ::
    "penv \<Rightarrow> int \<Rightarrow> address \<Rightarrow> packet \<Rightarrow> bool \<Rightarrow> consensusHandler \<Rightarrow> consensusHandler \<times> perr option" where
  "handleCommitPacket env now validator packet self h =
    (case lookupRound (ParentHash packet) h of
       Inl e \<Rightarrow> (h, Some e)
     | Inr (b, rd) \<Rightarrow>
         (case checkCommit env validator packet self h b rd of
            Inl e \<Rightarrow> (h, Some e)
          | Inr d \<Rightarrow>
              let ph = ParentHash packet;
                  rd1 = rd\<lparr>validatorCommits := mput validator d (validatorCommits rd)\<rparr>;
                  rd2 = (if self then rd1\<lparr>selfCommited := True, selfCommitPacket := Some packet\<rparr> else rd1);
                  pkt = NewConsensusPacket packet;
                  keep = (\<lambda>r. r\<lparr>commitPackets := mput validator pkt (commitPackets r)\<rparr>)
              in if selfCommited rd2 then
                   (case tally (filteredValidatorsDepositMap b) (mkeys (validatorCommits rd2)) 0 of
                      Inl e \<Rightarrow> (storeRound ph b rd2 h, Some e)
                    | Inr tot \<Rightarrow>
                        if tot \<ge> blockMinWeightedProposalsRequired b then
                          let b1 = b\<lparr>commitTime := Elapsed now (block_initTime b)\<rparr> in
                          (storeRound ph b1 (keep (rd2\<lparr>state := RECEIVED_COMMITS\<rparr>)) (blockDone now b1 rd2 h), None)
                        else (storeRound ph b (keep rd2) h, None))
                 else (storeRound ph b (keep rd2) h, None)))"

section \<open>Incoming packets\<close>

definition signerOf :: "penv \<Rightarrow> packet \<Rightarrow> byte \<Rightarrow> perr + address" where
  "signerOf env packet packetType =
    (let digestHash = Keccak256Hash env (ParentHash packet @ ConsensusData packet);
         pubKey =
           (if packetType = CONSENSUS_PACKET_TYPE_PROPOSE_BLOCK \<and>
               length (Signature packet) \<noteq> sigWithPubKeyLength env then
              (case pubKeyFromSigCtx env digestHash (Signature packet) FULL_SIGN_CONTEXT of
                 None \<Rightarrow> None
               | Some pk \<Rightarrow>
                   if sigVerifyCtx env pk digestHash (Signature packet) FULL_SIGN_CONTEXT then Some pk else None)
            else
              (case pubKeyFromSig env digestHash (Signature packet) of
                 None \<Rightarrow> None
               | Some pk \<Rightarrow> if sigVerify env pk digestHash (Signature packet) then Some pk else None))
     in case pubKey of
          None \<Rightarrow> Inl InvalidPacketErr
        | Some pk \<Rightarrow>
            (case pubKeyToAddress env pk of None \<Rightarrow> Inl InvalidPacketErr | Some a \<Rightarrow> Inr a))"

definition processPacket ::
    "penv \<Rightarrow> int \<Rightarrow> packet \<Rightarrow> consensusHandler \<Rightarrow> consensusHandler \<times> perr option" where
  "processPacket env now packet h =
    (if ConsensusData packet = [] \<or> length (Signature packet) < CRYPTO_SIGNATURE_BYTES
     then (h, Some (ErrText ''nil packet''))
     else
       case getPacketType packet of
         Inl e \<Rightarrow> (h, Some e)
       | Inr packetType \<Rightarrow>
           (case signerOf env packet packetType of
              Inl e \<Rightarrow> (h, Some e)
            | Inr validator \<Rightarrow>
                if packetType = CONSENSUS_PACKET_TYPE_PROPOSE_BLOCK
                then handleProposeBlockPacket env now validator packet False h
                else if packetType = CONSENSUS_PACKET_TYPE_ACK_BLOCK_PROPOSAL
                then handleAckBlockProposalPacket validator packet h
                else if packetType = CONSENSUS_PACKET_TYPE_PRECOMMIT_BLOCK
                then handlePrecommitPacket now validator packet False h
                else if packetType = CONSENSUS_PACKET_TYPE_COMMIT_BLOCK
                then handleCommitPacket env now validator packet False h
                else if latestBlockNumber h \<ge> PACKET_PROTOCOL_START_BLOCK \<and>
                        packetType \<ge> CONSENSUS_PACKET_TYPE_CAPABILITY
                then (h, None)
                else (h, Some (ErrText ''unknown packet type''))))"

text \<open>
  The inner map of packets that came too early is meant to be keyed by the hash of the packet;
  a new packet is stored under its parent hash.
\<close>

definition keepOutOfOrder :: "penv \<Rightarrow> int \<Rightarrow> packet \<Rightarrow> consensusHandler \<Rightarrow> consensusHandler" where
  "keepOutOfOrder env now packet h =
    (let pkt = NewConsensusPacket packet;
         m = (case mget (outOfOrderPacketsMap h) (ParentHash packet) of None \<Rightarrow> [] | Some m \<Rightarrow> m)
     in if mhas m (packet_Hash env pkt) then h
        else
          h\<lparr>outOfOrderPacketsMap :=
             mput (ParentHash packet) (mput (ParentHash packet) \<lparr>ReceivedTime = now, OPacket = pkt\<rparr> m)
               (outOfOrderPacketsMap h)\<rparr>)"

definition HandleConsensusPacket ::
    "penv \<Rightarrow> int \<Rightarrow> packet \<Rightarrow> string \<Rightarrow> consensusHandler \<Rightarrow> consensusHandler \<times> perr option" where
  "HandleConsensusPacket env now packet fromPeerId h =
    (if Signature packet = [] \<or> ConsensusData packet = []
     then (h, Some (ErrText ''invalid packet, nil data''))
     else if signFn env = None then (h, None)
     else if \<not> initialized h \<or> \<not> HasExceededTimeThreshold now (initTime h) STARTUP_DELAY_MS then
       (case peer_HandleConsensusPacket packet fromPeerId (peers h) of
          (p, e) \<Rightarrow> (h\<lparr>peers := p\<rparr>, if fatal e then e else None))
     else
       case processPacket env now packet (LogIncomingPacketStats h) of
         (h1, Some e) \<Rightarrow>
           if fatal (Some e) then (h1, Some e)
           else if e = OutOfOrderPackerErr then (keepOutOfOrder env now packet h1, None)
           else (h1, None)
       | (h1, None) \<Rightarrow>
           (case peer_HandleConsensusPacket packet fromPeerId (peers h1) of
              (p, e) \<Rightarrow> (h1\<lparr>peers := p\<rparr>, e)))"

section \<open>Packets that came too early\<close>

text \<open>
  The inner loop over the packets under one key: those of the block are processed, the ones that
  are refused are collected.
\<close>

fun retryPackets ::
    "penv \<Rightarrow> int \<Rightarrow> hash \<Rightarrow> outOfOrderPacket list \<Rightarrow> outOfOrderPacket list \<Rightarrow> consensusHandler
      \<Rightarrow> consensusHandler \<times> outOfOrderPacket list \<times> perr option" where
  "retryPackets env now ph [] unprocessed h = (h, unprocessed, None)"
| "retryPackets env now ph (pkt # pkts) unprocessed h =
    (if ParentHash (OPacket pkt) \<noteq> ph then retryPackets env now ph pkts unprocessed h
     else
       case processPacket env now (OPacket pkt) h of
         (h1, None) \<Rightarrow> retryPackets env now ph pkts unprocessed h1
       | (h1, Some e) \<Rightarrow>
           if fatal (Some e) then (h1, unprocessed, Some e)
           else retryPackets env now ph pkts (unprocessed @ [pkt]) h1)"

text \<open>
  The outer loop. The packets refused so far are kept under the block's own key; when there are
  none, the key of this iteration is deleted. Writing to the missing map of the block panics.
\<close>

fun retryKeys ::
    "penv \<Rightarrow> int \<Rightarrow> hash \<Rightarrow> hash list \<Rightarrow> outOfOrderPacket list \<Rightarrow> consensusHandler
      \<Rightarrow> consensusHandler \<times> perr option" where
  "retryKeys env now ph [] unprocessed h = (h, None)"
| "retryKeys env now ph (key # keys) unprocessed h =
    (case mget (outOfOrderPacketsMap h) key of
       None \<Rightarrow> retryKeys env now ph keys unprocessed h
     | Some pktList \<Rightarrow>
         (case retryPackets env now ph (mvals pktList) unprocessed h of
            (h1, un, Some e) \<Rightarrow> (h1, Some e)
          | (h1, un, None) \<Rightarrow>
              if un = [] then
                retryKeys env now ph keys un (h1\<lparr>outOfOrderPacketsMap := mdel key (outOfOrderPacketsMap h1)\<rparr>)
              else
                (case mget (outOfOrderPacketsMap h1) ph of
                   None \<Rightarrow> (h1, Some (Panic ''assignment to entry in nil map''))
                 | Some m \<Rightarrow>
                     retryKeys env now ph keys un
                       (h1\<lparr>outOfOrderPacketsMap :=
                          mput ph (fold (\<lambda>p m. mput (packet_Hash env (OPacket p)) p m) un m)
                            (outOfOrderPacketsMap h1)\<rparr>))))"

definition processOutOfOrderPackets ::
    "penv \<Rightarrow> int \<Rightarrow> hash \<Rightarrow> consensusHandler \<Rightarrow> consensusHandler \<times> perr option" where
  "processOutOfOrderPackets env now ph h = retryKeys env now ph (mkeys (outOfOrderPacketsMap h)) [] h"

section \<open>Votes in later rounds\<close>

definition parseRound :: "packet \<Rightarrow> perr + byte" where
  "parseRound packet =
    (case getPacketType packet of
       Inl e \<Rightarrow> Inl e
     | Inr packetType \<Rightarrow>
         if packetType = CONSENSUS_PACKET_TYPE_PROPOSE_BLOCK
         then (case decodeProposal (packetBody packet) of Inl e \<Rightarrow> Inl e | Inr d \<Rightarrow> Inr (PRound d))
         else if packetType = CONSENSUS_PACKET_TYPE_ACK_BLOCK_PROPOSAL
         then (case decodeAck (packetBody packet) of Inl e \<Rightarrow> Inl e | Inr d \<Rightarrow> Inr (ARound d))
         else if packetType = CONSENSUS_PACKET_TYPE_PRECOMMIT_BLOCK
         then (case decodePrecommit (packetBody packet) of Inl e \<Rightarrow> Inl e | Inr d \<Rightarrow> Inr (PCRound d))
         else if packetType = CONSENSUS_PACKET_TYPE_COMMIT_BLOCK
         then (case decodeCommit (packetBody packet) of Inl e \<Rightarrow> Inl e | Inr d \<Rightarrow> Inr (CRound d))
         else Inl InvalidPacketErr)"

definition parsePacket :: "penv \<Rightarrow> packet \<Rightarrow> perr + byte \<times> address" where
  "parsePacket env packet =
    (let digestHash = Keccak256Hash env (ParentHash packet @ ConsensusData packet) in
     case pubKeyFromSig env digestHash (Signature packet) of
       None \<Rightarrow> Inl (ErrText ''PublicKeyFromSignature'')
     | Some pk \<Rightarrow>
         if \<not> sigVerify env pk digestHash (Signature packet) then Inl InvalidPacketErr
         else
           case pubKeyToAddress env pk of
             None \<Rightarrow> Inl (ErrText ''PublicKeyToAddress'')
           | Some validator \<Rightarrow>
               (case parseRound packet of Inl e \<Rightarrow> Inl e | Inr r \<Rightarrow> Inr (r, validator)))"

text \<open>All packets of the block that came too early, in the order of the loops.\<close>

definition earlyPackets :: "hash \<Rightarrow> consensusHandler \<Rightarrow> packet list" where
  "earlyPackets ph h =
    filter (\<lambda>p. ParentHash p = ph) (map OPacket (concat (map mvals (mvals (outOfOrderPacketsMap h)))))"

text \<open>
  The loop that collects the validators with votes in later rounds. A commit of the current
  round ends the search (\<open>stop\<close>) in the caller that looks for it; a packet that cannot be parsed is
  skipped.
\<close>

fun laterVoters ::
    "penv \<Rightarrow> byte \<Rightarrow> bool \<Rightarrow> packet list \<Rightarrow> (address, bool) gomap \<Rightarrow> perr + (address, bool) gomap option" where
  "laterVoters env cur stop [] valMap = Inr (Some valMap)"
| "laterVoters env cur stop (p # ps) valMap =
    (case parsePacket env p of
       Inl e \<Rightarrow> if fatal (Some e) then Inl e else laterVoters env cur stop ps valMap
     | Inr (r, validator) \<Rightarrow>
         if stop \<and> r = cur \<and> getPacketType p = Inr CONSENSUS_PACKET_TYPE_COMMIT_BLOCK then Inr None
         else if r \<le> cur then laterVoters env cur stop ps valMap
         else laterVoters env cur stop ps (mput validator True valMap))"

text \<open>The deposits of the validators of the block with a property.\<close>

definition depositOf :: "blockState \<Rightarrow> (address \<Rightarrow> bool) \<Rightarrow> int" where
  "depositOf b P = total_dep (filter (\<lambda>(v, d). P v) (filteredValidatorsDepositMap b))"

definition moveOn :: "blockState \<Rightarrow> (address, bool) gomap \<Rightarrow> (address \<Rightarrow> bool) \<Rightarrow> bool" where
  "moveOn b valMap voted =
    (let totalGreaterRoundDepositCount = depositOf b (mhas valMap);
         currentRoundDepositSoFar = depositOf b (\<lambda>v. \<not> mhas valMap v \<and> voted v)
     in if currentRoundDepositSoFar \<ge> blockMinWeightedProposalsRequired b then False
        else totalGreaterRoundDepositCount \<ge> blockMinWeightedProposalsRequired b - currentRoundDepositSoFar)"

definition shouldMoveToNextRoundProposalAcks ::
    "penv \<Rightarrow> hash \<Rightarrow> blockState \<Rightarrow> roundDetails \<Rightarrow> consensusHandler \<Rightarrow> perr + bool" where
  "shouldMoveToNextRoundProposalAcks env ph b rd h =
    (case laterVoters env (currentRound b) False (earlyPackets ph h) [] of
       Inl e \<Rightarrow> Inl e
     | Inr None \<Rightarrow> Inr False
     | Inr (Some valMap) \<Rightarrow> Inr (moveOn b valMap (mhas (validatorProposalAcks rd))))"

definition shouldMoveToNextRoundPrecommit ::
    "penv \<Rightarrow> int \<Rightarrow> hash \<Rightarrow> blockState \<Rightarrow> roundDetails \<Rightarrow> consensusHandler \<Rightarrow> perr + bool" where
  "shouldMoveToNextRoundPrecommit env now ph b rd h =
    (if \<not> HasExceededTimeThreshold now (precommitInitTime rd) (ACK_BLOCK_TIMEOUT_MS * int (unat (Round rd)))
     then Inr False
     else
       case laterVoters env (currentRound b) True (earlyPackets ph h) [] of
         Inl e \<Rightarrow> Inl e
       | Inr None \<Rightarrow> Inr False
       | Inr (Some valMap) \<Rightarrow> Inr (moveOn b valMap (mhas (validatorPrecommits rd))))"

text \<open>Deposits in later rounds of validators without a precommit in this one.\<close>

definition findTotalDepositsInGreaterRound ::
    "penv \<Rightarrow> hash \<Rightarrow> blockState \<Rightarrow> roundDetails \<Rightarrow> consensusHandler \<Rightarrow> perr + int" where
  "findTotalDepositsInGreaterRound env ph b rd h =
    (case laterVoters env (currentRound b) False (earlyPackets ph h) [] of
       Inl e \<Rightarrow> Inl e
     | Inr None \<Rightarrow> Inr 0
     | Inr (Some valMap) \<Rightarrow>
         Inr (depositOf b (\<lambda>v. mhas valMap v \<and> \<not> mhas (validatorPrecommits rd) v)))"

section \<open>Own votes\<close>

text \<open>Two calls in a row: errors of the first are returned, or dropped unless they are fatal.\<close>

definition andThen ::
    "consensusHandler \<times> perr option \<Rightarrow> (consensusHandler \<Rightarrow> consensusHandler \<times> perr option)
      \<Rightarrow> consensusHandler \<times> perr option" where
  "andThen r f = (case r of (h, Some e) \<Rightarrow> (h, Some e) | (h, None) \<Rightarrow> f h)"

definition thenAlways ::
    "consensusHandler \<times> perr option \<Rightarrow> (consensusHandler \<Rightarrow> consensusHandler \<times> perr option)
      \<Rightarrow> consensusHandler \<times> perr option" where
  "thenAlways r f = (case r of (h, e) \<Rightarrow> if fatal e then (h, e) else f h)"

definition ownProposal :: "int \<Rightarrow> hash list \<Rightarrow> u64 \<Rightarrow> byte \<Rightarrow> proposalDetails" where
  "ownProposal now txns n cur =
    \<lparr>Txns = (if cur < MAX_ROUND then txns else []), PRound = cur, BlockTime = GetProposalTime now n\<rparr>"

definition proposeBlock ::
    "penv \<Rightarrow> int \<Rightarrow> hash \<Rightarrow> hash list \<Rightarrow> u64 \<Rightarrow> consensusHandler \<Rightarrow> consensusHandler \<times> perr option" where
  "proposeBlock env now ph txns n h =
    withRound ph h (\<lambda>b rd.
      if selfProposed rd then broadCast env now (selfProposalPacket rd) h
      else
        case createPacket env ph CONSENSUS_PACKET_TYPE_PROPOSE_BLOCK
               (V_Proposal (ownProposal now txns n (currentRound b))) (shouldSignFull n) h of
          Inl e \<Rightarrow> (h, Some e)
        | Inr packet \<Rightarrow>
            (case decodeBody decodeProposal packet of
               Inl e \<Rightarrow> (h, Some e)
             | Inr d \<Rightarrow>
                 andThen (handleProposeBlockPacket env now (account h) packet True h)
                   (broadCast env now (Some packet))))"

text \<open>The acknowledgement that the node signs itself, entered into its round.\<close>

definition selfAck ::
    "penv \<Rightarrow> hash \<Rightarrow> byte \<Rightarrow> hash \<Rightarrow> blockState \<Rightarrow> roundDetails \<Rightarrow> consensusHandler \<Rightarrow> perr + roundDetails" where
  "selfAck env ph vote votedHash b rd h =
    (let d = \<lparr>ProposalHash = votedHash, ProposalAckVoteType = vote, ARound = currentRound b\<rparr> in
     case createPacket env ph CONSENSUS_PACKET_TYPE_ACK_BLOCK_PROPOSAL (V_Ack d) False h of
       Inl e \<Rightarrow> Inl e
     | Inr packet \<Rightarrow>
         Inr (rd\<lparr>proposalAckPackets := mput (account h) (NewConsensusPacket packet) (proposalAckPackets rd),
                validatorProposalAcks := mput (account h) d (validatorProposalAcks rd),
                selfAckd := True, selfAckPacket := Some packet, selfAckProposalVoteType := vote\<rparr>))"

text \<open>The deposits of the OK votes on the proposal, of the NIL votes, and of all votes.\<close>

fun tallyAcks ::
    "(address, int) gomap \<Rightarrow> hash \<Rightarrow> (address, proposalAckDetails) gomap \<Rightarrow> int \<Rightarrow> int \<Rightarrow> int
      \<Rightarrow> perr + int \<times> int \<times> int" where
  "tallyAcks fm ph [] ok nil tot = Inr (ok, nil, tot)"
| "tallyAcks fm ph ((v, ack) # acks) ok nil tot =
    (if ProposalAckVoteType ack = VOTE_TYPE_OK then
       (case mget fm v of
          None \<Rightarrow> Inl nilPanic
        | Some d \<Rightarrow> tallyAcks fm ph acks (if ProposalHash ack = ph then ok + d else ok) nil (tot + d))
     else if ProposalAckVoteType ack = VOTE_TYPE_NIL then
       (case mget fm v of
          None \<Rightarrow> Inl nilPanic
        | Some d \<Rightarrow> tallyAcks fm ph acks ok (nil + d) (tot + d))
     else Inl (ErrText ''unexpected''))"

text \<open>
  The loop over the earlier rounds reads the current round each time, so it repeats the
  acknowledgement of the current round.
\<close>

fun repeatBroadcast ::
    "penv \<Rightarrow> int \<Rightarrow> packet option \<Rightarrow> nat \<Rightarrow> consensusHandler \<Rightarrow> consensusHandler \<times> perr option" where
  "repeatBroadcast env now pkt 0 h = (h, None)"
| "repeatBroadcast env now pkt (Suc k) h = andThen (broadCast env now pkt h) (repeatBroadcast env now pkt k)"

definition broadcastPreviousRoundPackets ::
    "penv \<Rightarrow> int \<Rightarrow> hash \<Rightarrow> consensusHandler \<Rightarrow> consensusHandler \<times> perr option" where
  "broadcastPreviousRoundPackets env now ph h =
    withRound ph h (\<lambda>b rd.
      if Round rd > 1 \<and> selfAckd rd
      then repeatBroadcast env now (selfAckPacket rd) (unat (Round rd) - 1) h else (h, None))"

definition finishAck ::
    "penv \<Rightarrow> int \<Rightarrow> hash \<Rightarrow> blockState \<Rightarrow> roundDetails \<Rightarrow> consensusHandler \<Rightarrow> consensusHandler \<times> perr option" where
  "finishAck env now ph b rd h =
    andThen (broadCast env now (selfAckPacket rd) (storeRound ph b rd h))
      (broadcastPreviousRoundPackets env now ph)"

text \<open>Leave the round when enough validators have voted in later rounds.\<close>

definition followLaterRound ::
    "penv \<Rightarrow> int \<Rightarrow> hash \<Rightarrow> blockState \<Rightarrow> roundDetails \<Rightarrow> consensusHandler \<Rightarrow> consensusHandler \<times> perr option" where
  "followLaterRound env now ph b rd h =
    (case shouldMoveToNextRoundProposalAcks env ph b rd h of
       Inl e \<Rightarrow> (storeRound ph b rd h, Some e)
     | Inr True \<Rightarrow>
         initializeNewBlockRound env now REASON_WAIT_ACK_BLOCK_PROPOSAL_HIGHER_ROUND (storeRound ph b rd h)
     | Inr False \<Rightarrow> finishAck env now ph b rd h)"

definition ackTimeoutOver :: "int \<Rightarrow> roundDetails \<Rightarrow> bool" where
  "ackTimeoutOver now rd \<longleftrightarrow>
    HasExceededTimeThreshold now (round_initTime rd) (ACK_BLOCK_TIMEOUT_MS * int (unat (Round rd)))"

definition nilPrecommit :: "penv \<Rightarrow> int \<Rightarrow> hash \<Rightarrow> blockState \<Rightarrow> roundDetails \<Rightarrow> roundDetails" where
  "nilPrecommit env now ph b rd =
    rd\<lparr>state := WAITING_FOR_PRECOMMITS, precommitInitTime := now, blockVoteType := VOTE_TYPE_NIL,
       precommitHash := getNilVotePreCommitHash env ph (currentRound b)\<rparr>"

definition countTimeout ::
    "penv \<Rightarrow> int \<Rightarrow> hash \<Rightarrow> blockState \<Rightarrow> roundDetails \<Rightarrow> consensusHandler \<Rightarrow> consensusHandler \<times> perr option" where
  "countTimeout env now ph b rd h =
    (case tallyAcks (filteredValidatorsDepositMap b) (proposalHash rd) (validatorProposalAcks rd) 0 0 0 of
       Inl e \<Rightarrow> (storeRound ph b rd h, Some e)
     | Inr (okVotes, nilVotes, totalVotes) \<Rightarrow>
         if okVotes \<ge> blockMinWeightedProposalsRequired b then finishAck env now ph b rd h
         else if nilVotes \<ge> blockMinWeightedProposalsRequired b
         then finishAck env now ph b (nilPrecommit env now ph b rd) h
         else if ackTimeoutOver now rd then
           if totalVotes \<ge> totalBlockDepositValue b \<or> totalVotes \<ge> blockMinWeightedProposalsRequired b
           then initializeNewBlockRound env now REASON_WAIT_ACK_BLOCK_PROPOSAL_TIMEOUT (storeRound ph b rd h)
           else followLaterRound env now ph b rd h
         else finishAck env now ph b rd h)"

definition ackBlockProposalTimeout ::
    "penv \<Rightarrow> int \<Rightarrow> hash \<Rightarrow> consensusHandler \<Rightarrow> consensusHandler \<times> perr option" where
  "ackBlockProposalTimeout env now ph h =
    withRound ph h (\<lambda>b rd.
      if selfAckd rd then countTimeout env now ph b rd h
      else if state rd \<noteq> WAITING_FOR_PROPOSAL \<and> state rd \<noteq> WAITING_FOR_PROPOSAL_ACKS
      then (h, Some (ErrText ''unexpected state''))
      else
        case selfAck env ph VOTE_TYPE_NIL (getNilVoteProposalHash env ph (currentRound b)) b rd h of
          Inl e \<Rightarrow> (h, Some e)
        | Inr rd1 \<Rightarrow> countTimeout env now ph b (rd1\<lparr>blockVoteType := VOTE_TYPE_NIL\<rparr>) h)"

definition okPrecommit :: "penv \<Rightarrow> int \<Rightarrow> hash \<Rightarrow> blockState \<Rightarrow> roundDetails \<Rightarrow> roundDetails" where
  "okPrecommit env now ph b rd =
    rd\<lparr>state := WAITING_FOR_PRECOMMITS, precommitInitTime := now,
       precommitHash := getOkVotePreCommitHash env ph (proposalHash rd) (currentRound b),
       blockVoteType := VOTE_TYPE_OK\<rparr>"

definition countAck ::
    "penv \<Rightarrow> int \<Rightarrow> hash \<Rightarrow> blockState \<Rightarrow> roundDetails \<Rightarrow> consensusHandler \<Rightarrow> consensusHandler \<times> perr option" where
  "countAck env now ph b rd h =
    (case tallyAcks (filteredValidatorsDepositMap b) (proposalHash rd) (validatorProposalAcks rd) 0 0 0 of
       Inl e \<Rightarrow> (storeRound ph b rd h, Some e)
     | Inr (okVotes, nilVotes, totalVotes) \<Rightarrow>
         if okVotes \<ge> blockMinWeightedProposalsRequired b \<and> selfAckProposalVoteType rd = VOTE_TYPE_OK
         then finishAck env now ph (b\<lparr>ackProposalTime := Elapsed now (block_initTime b)\<rparr>)
                (okPrecommit env now ph b rd) h
         else if nilVotes \<ge> blockMinWeightedProposalsRequired b
         then finishAck env now ph b (nilPrecommit env now ph b rd) h
         else if totalVotes \<ge> totalBlockDepositValue b \<or>
                 totalVotes \<ge> blockMinWeightedProposalsRequired b \<and> ackTimeoutOver now rd
         then initializeNewBlockRound env now REASON_WAIT_ACK_BLOCK_PROPOSAL_TIMEOUT (storeRound ph b rd h)
         else followLaterRound env now ph b rd h)"

text \<open>The first acknowledgement: unknown transactions are asked for, then the vote is signed.\<close>

definition firstAck ::
    "penv \<Rightarrow> hash \<Rightarrow> blockState \<Rightarrow> roundDetails \<Rightarrow> consensusHandler \<Rightarrow> consensusHandler \<times> (perr + roundDetails)" where
  "firstAck env ph b rd h =
    (if state rd \<noteq> WAITING_FOR_PROPOSAL_ACKS then (h, Inl (ErrText ''unexpected state''))
     else
       case blockProposalDetails rd of
         None \<Rightarrow> (h, Inl nilPanic)
       | Some d \<Rightarrow>
           if currentRound b \<ge> MAX_ROUND \<and> Txns d \<noteq> []
           then (h, Inl (ErrText ''unexpected transaction count''))
           else
             let unknown = unknownTxns rd (Txns d);
                 h1 = (if unknown \<noteq> [] then send (RequestTransactions unknown) h else h);
                 vote = (if currentRound b \<ge> MAX_ROUND then VOTE_TYPE_NIL else VOTE_TYPE_OK);
                 votedHash = (if currentRound b \<ge> MAX_ROUND
                              then getNilVoteProposalHash env ph (currentRound b) else proposalHash rd)
             in if unknown \<noteq> [] \<and> requestTransactions env unknown \<noteq> None
                then (h1, Inl (ErrText ''unknown transactions''))
                else (h1, selfAck env ph vote votedHash b rd h1))"

definition ackBlockProposal ::
    "penv \<Rightarrow> int \<Rightarrow> hash \<Rightarrow> consensusHandler \<Rightarrow> consensusHandler \<times> perr option" where
  "ackBlockProposal env now ph h =
    withRound ph h (\<lambda>b rd.
      if selfAckd rd then
        (case isBlockProposer env ph b h of
           Inl e \<Rightarrow> (h, Some e)
         | Inr shouldPropose \<Rightarrow>
             thenAlways (if shouldPropose then broadCast env now (selfProposalPacket rd) h else (h, None))
               (countAck env now ph b rd))
      else
        case firstAck env ph b rd h of
          (h1, Inl e) \<Rightarrow> (h1, Some e)
        | (h1, Inr rd1) \<Rightarrow> countAck env now ph b rd1 h1)"

definition precommitBlock ::
    "penv \<Rightarrow> int \<Rightarrow> hash \<Rightarrow> consensusHandler \<Rightarrow> consensusHandler \<times> perr option" where
  "precommitBlock env now ph h =
    withRound ph h (\<lambda>b rd.
      if selfAckPacket rd = None then (h, Some (ErrText ''invalid state 1''))
      else if state rd \<noteq> WAITING_FOR_PRECOMMITS then (h, Some (ErrText ''invalid state 2''))
      else if selfPrecommited rd then
        thenAlways (broadCast env now (selfAckPacket rd) h) (\<lambda>h1.
          thenAlways (broadCast env now (selfPrecommitPacket rd) h1) (\<lambda>h2.
            case selfPrecommitPacket rd of
              None \<Rightarrow> (h2, Some nilPanic)
            | Some packet \<Rightarrow> handlePrecommitPacket now (account h2) packet True h2))
      else
        case createPacket env ph CONSENSUS_PACKET_TYPE_PRECOMMIT_BLOCK
               (V_Precommit \<lparr>PrecommitHash = precommitHash rd, PCRound = Round rd\<rparr>) False h of
          Inl e \<Rightarrow> (h, Some e)
        | Inr packet \<Rightarrow>
            andThen (handlePrecommitPacket now (account h) packet True h) (\<lambda>h1.
              thenAlways (broadCast env now (selfAckPacket rd) h1) (broadCast env now (Some packet))))"

definition commitBlock ::
    "penv \<Rightarrow> int \<Rightarrow> hash \<Rightarrow> consensusHandler \<Rightarrow> consensusHandler \<times> perr option" where
  "commitBlock env now ph h =
    withRound ph h (\<lambda>b rd.
      if selfAckPacket rd = None \<or> selfPrecommitPacket rd = None then (h, Some (ErrText ''invalid state 1''))
      else if state rd \<noteq> WAITING_FOR_COMMITS then (h, Some (ErrText ''invalid state 2''))
      else if selfCommited rd then
        thenAlways (broadCast env now (selfAckPacket rd) h) (\<lambda>h1.
          thenAlways (broadCast env now (selfPrecommitPacket rd) h1) (\<lambda>h2.
            thenAlways (broadCast env now (selfCommitPacket rd) h2) (\<lambda>h3.
              case selfCommitPacket rd of
                None \<Rightarrow> (h3, Some nilPanic)
              | Some packet \<Rightarrow> handleCommitPacket env now (account h3) packet True h3)))
      else
        case createPacket env ph CONSENSUS_PACKET_TYPE_COMMIT_BLOCK
               (V_Commit \<lparr>CommitHash = getCommitHash env (precommitHash rd), CRound = Round rd\<rparr>) False h of
          Inl e \<Rightarrow> (h, Some e)
        | Inr packet \<Rightarrow>
            andThen (handleCommitPacket env now (account h) packet True h) (broadCast env now (Some packet)))"

section \<open>The call of the engine\<close>

definition shouldBreakglassNilVote :: "penv \<Rightarrow> u64 \<Rightarrow> bool" where
  "shouldBreakglassNilVote env n = breakglassFile env n"

definition learnTxns :: "hash list \<Rightarrow> roundDetails \<Rightarrow> roundDetails" where
  "learnTxns txns rd =
    rd\<lparr>selfKnownTransactions := fold (\<lambda>t m. mput t True m) txns (selfKnownTransactions rd)\<rparr>"

definition proposalTimeout :: "u64 \<Rightarrow> roundDetails \<Rightarrow> int" where
  "proposalTimeout n rd =
    (if shouldSignFull n then FULL_BLOCK_TIMEOUT_MS else BLOCK_TIMEOUT_MS) * int (unat (Round rd))"

text \<open>The errors of the calls are dropped and \<open>not ready yet\<close> is returned.\<close>

definition notReady :: "consensusHandler \<times> perr option \<Rightarrow> consensusHandler \<times> perr option" where
  "notReady r = thenAlways r (\<lambda>h. (h, Some (ErrText ''not ready yet'')))"

text \<open>One step of the protocol, according to the state of the current round.\<close>

definition consensusStep ::
    "penv \<Rightarrow> int \<Rightarrow> hash \<Rightarrow> hash list \<Rightarrow> u64 \<Rightarrow> bool \<Rightarrow> consensusHandler \<Rightarrow> consensusHandler \<times> perr option" where
  "consensusStep env now ph txns n shouldPropose h =
    withRound ph h (\<lambda>b rd.
      let b1 = putRound (learnTxns txns rd) b;
          h1 = putBlock ph b1 h
      in case state rd of
           WAITING_FOR_PROPOSAL \<Rightarrow>
             notReady
               (if shouldPropose then proposeBlock env now ph txns n h1
                else if shouldBreakglassNilVote env n \<or>
                        HasExceededTimeThreshold now (round_initTime rd) (proposalTimeout n rd)
                then ackBlockProposalTimeout env now ph h1
                else requestConsensusData env now b1 h1)
         | WAITING_FOR_PROPOSAL_ACKS \<Rightarrow>
             notReady (thenAlways (requestConsensusData env now b1 h1)
               (if selfAckProposalVoteType rd = VOTE_TYPE_NIL then ackBlockProposalTimeout env now ph
                else ackBlockProposal env now ph))
         | WAITING_FOR_PRECOMMITS \<Rightarrow>
             (case shouldMoveToNextRoundPrecommit env now ph b rd h of
                Inl e \<Rightarrow>
                  if fatal (Some e) then (h, Some e)
                  else notReady (thenAlways (requestConsensusData env now b h) (precommitBlock env now ph))
              | Inr True \<Rightarrow> initializeNewBlockRound env now REASON_WAIT_PRECOMMIT_TIMEOUT h
              | Inr False \<Rightarrow> notReady (thenAlways (requestConsensusData env now b h) (precommitBlock env now ph)))
         | WAITING_FOR_COMMITS \<Rightarrow>
             notReady (thenAlways (requestConsensusData env now b h) (commitBlock env now ph))
         | RECEIVED_COMMITS \<Rightarrow>
             thenAlways (broadCast env now (selfCommitPacket rd) h) (\<lambda>h2. (h2, None))
         | UNKNOWN \<Rightarrow> (h, Some (ErrText ''not ready yet'')))"

text \<open>
  The part of \<open>HandleConsensus\<close> after the start-up checks. The state of a block that another
  block has replaced can be removed by the cleanup just before it is read.
\<close>

definition runConsensus ::
    "penv \<Rightarrow> int \<Rightarrow> hash \<Rightarrow> hash list \<Rightarrow> u64 \<Rightarrow> consensusHandler \<Rightarrow> consensusHandler \<times> perr option" where
  "runConsensus env now ph txns n h =
    andThen (initializeBlockStateIfRequired env now ph n h) (\<lambda>h1.
      let h2 = cleanupBlockState now h1 in
      case mget (blockStateDetailsMap h2) ph of
        None \<Rightarrow> (h2, Some nilPanic)
      | Some b \<Rightarrow>
          if \<not> mhas (filteredValidatorsDepositMap b) (account h2)
          then (h2, Some (ErrText ''not a validator in this block''))
          else
            case isBlockProposer env ph b h2 of
              Inl e \<Rightarrow> (h2, Some e)
            | Inr shouldPropose \<Rightarrow>
                andThen (processOutOfOrderPackets env now ph h2)
                  (consensusStep env now ph txns n shouldPropose))"

text \<open>\<open>rndVal\<close> is the random number from 1 to 8 that the code draws.\<close>

definition HandleConsensus ::
    "penv \<Rightarrow> int \<Rightarrow> nat \<Rightarrow> hash \<Rightarrow> hash list \<Rightarrow> u64 \<Rightarrow> consensusHandler \<Rightarrow> consensusHandler \<times> perr option" where
  "HandleConsensus env now rndVal ph txns n h0 =
    (let h = SetLatestBlockNumber n h0 in
     if \<not> initialized h then
       (case DoesPreviousHashMatch env h ph of
          Inl e \<Rightarrow> (h, Some e)
        | Inr matched \<Rightarrow>
            if matched \<and> rndVal = 1 then (h, Some (ErrText ''Waiting for previous block to mine''))
            else
              (h\<lparr>initTime := now, initialized := True, packetHashLastSentMap := [],
                 TotalIncomingPacketCount := 0\<rparr>, Some (ErrText ''starting up'')))
     else
       let h1 = (if lastBlockNumber h = n then h
                 else h\<lparr>lastBlockNumber := n, lastBlockNumberChangeTime := now\<rparr>) in
       if \<not> HasExceededTimeThreshold now (initTime h1) STARTUP_DELAY_MS \<and> rndVal = 1
       then (h1, Some (ErrText ''starting up''))
       else runConsensus env now ph txns n h1)"

end
