(* ===== verification/Pos_Invariants.thy ===== *)
theory Pos_Invariants
  imports Pos_Handler
begin

text \<open>
  Invariants of the consensus handler. \<open>roundInv\<close> states what a round records: votes come from
  validators of the block, the precommits and commits that were counted are all for one hash, a
  round reaches \<open>WAITING_FOR_COMMITS\<close> and \<open>RECEIVED_COMMITS\<close> only with the deposits of a quorum, and
  the node's own votes are among them. \<open>extends\<close> states how a round may change: the state never
  goes back, the packets the node has signed are never replaced, and a decision is never changed.
  Both are kept by every operation of the handler (\<open>keeps\<close>), hence by every run.

  A block whose round counter has wrapped from 255 to 0 (it then has a round 0) reuses its
  rounds; the statements about changes over time exclude it.
\<close>

section \<open>Rounds\<close>

definition validVote :: "byte \<Rightarrow> byte \<Rightarrow> bool" where
  "validVote r vote \<longleftrightarrow> (vote = VOTE_TYPE_OK \<or> vote = VOTE_TYPE_NIL) \<and> (r \<ge> MAX_ROUND \<longrightarrow> vote = VOTE_TYPE_NIL)"

definition decided :: "penv \<Rightarrow> hash \<Rightarrow> byte \<Rightarrow> roundDetails \<Rightarrow> bool" where
  "decided env ph r rd \<longleftrightarrow>
    (if blockVoteType rd = VOTE_TYPE_OK
     then \<not> r \<ge> MAX_ROUND \<and> blockProposalDetails rd \<noteq> None \<and>
       precommitHash rd = getOkVotePreCommitHash env ph (proposalHash rd) r
     else blockVoteType rd = VOTE_TYPE_NIL \<and> precommitHash rd = getNilVotePreCommitHash env ph r)"

definition votesInv :: "penv \<Rightarrow> (address, int) gomap \<Rightarrow> byte \<Rightarrow> roundDetails \<Rightarrow> bool" where
  "votesInv env fm r rd \<longleftrightarrow>
    votesOk (\<lambda>v d. mhas fm v \<and> ARound d = r \<and> validVote r (ProposalAckVoteType d)) (validatorProposalAcks rd) \<and>
    votesOk (\<lambda>v d. mhas fm v \<and> PrecommitHash d = precommitHash rd \<and> PCRound d = r) (validatorPrecommits rd) \<and>
    votesOk (\<lambda>v d. mhas fm v \<and> CommitHash d = getCommitHash env (precommitHash rd) \<and> CRound d = r)
      (validatorCommits rd) \<and>
    (\<not> state rd \<ge> WAITING_FOR_PRECOMMITS \<longrightarrow> validatorPrecommits rd = []) \<and>
    (\<not> state rd \<ge> WAITING_FOR_COMMITS \<longrightarrow> validatorCommits rd = [])"

text \<open>The node's own votes are recorded, and its packets say what the round has decided.\<close>

definition ownAck :: "address \<Rightarrow> byte \<Rightarrow> roundDetails \<Rightarrow> bool" where
  "ownAck acc r rd \<longleftrightarrow>
    (selfAckd rd \<longleftrightarrow> selfAckPacket rd \<noteq> None) \<and>
    (selfAckd rd \<longrightarrow> mhas (validatorProposalAcks rd) acc \<and> validVote r (selfAckProposalVoteType rd))"

definition ownPrecommit :: "address \<Rightarrow> hash \<Rightarrow> byte \<Rightarrow> roundDetails \<Rightarrow> bool" where
  "ownPrecommit acc ph r rd \<longleftrightarrow>
    (selfPrecommited rd \<longleftrightarrow> selfPrecommitPacket rd \<noteq> None) \<and>
    (\<forall>p. selfPrecommitPacket rd = Some p \<longrightarrow> mhas (validatorPrecommits rd) acc \<and> ParentHash p = ph \<and>
       decodeBody decodePrecommit p = Inr \<lparr>PrecommitHash = precommitHash rd, PCRound = r\<rparr>)"

definition ownCommit :: "penv \<Rightarrow> address \<Rightarrow> hash \<Rightarrow> byte \<Rightarrow> roundDetails \<Rightarrow> bool" where
  "ownCommit env acc ph r rd \<longleftrightarrow>
    (selfCommited rd \<longleftrightarrow> selfCommitPacket rd \<noteq> None) \<and>
    (\<forall>p. selfCommitPacket rd = Some p \<longrightarrow> mhas (validatorCommits rd) acc \<and> ParentHash p = ph \<and>
       decodeBody decodeCommit p = Inr \<lparr>CommitHash = getCommitHash env (precommitHash rd), CRound = r\<rparr>)"

definition quorumInv :: "(address, int) gomap \<Rightarrow> int \<Rightarrow> roundDetails \<Rightarrow> bool" where
  "quorumInv fm q rd \<longleftrightarrow>
    (state rd \<ge> WAITING_FOR_COMMITS \<longrightarrow>
       selfPrecommited rd \<and> q \<le> weight fm (fst ` set (validatorPrecommits rd))) \<and>
    (state rd = RECEIVED_COMMITS \<longrightarrow>
       selfCommited rd \<and> q \<le> weight fm (fst ` set (validatorCommits rd)))"

text \<open>What a state of the round requires of the rest.\<close>

definition stateInv :: "penv \<Rightarrow> hash \<Rightarrow> byte \<Rightarrow> roundDetails \<Rightarrow> bool" where
  "stateInv env ph r rd \<longleftrightarrow>
    Round rd = r \<and> state rd \<noteq> UNKNOWN \<and>
    (state rd = WAITING_FOR_PROPOSAL_ACKS \<longrightarrow> blockProposalDetails rd \<noteq> None) \<and>
    (state rd \<ge> WAITING_FOR_PRECOMMITS \<longrightarrow> selfAckd rd \<and> decided env ph r rd)"

definition roundInv ::
    "penv \<Rightarrow> address \<Rightarrow> hash \<Rightarrow> (address, int) gomap \<Rightarrow> int \<Rightarrow> byte \<Rightarrow> roundDetails \<Rightarrow> bool" where
  "roundInv env acc ph fm q r rd \<longleftrightarrow> stateInv env ph r rd \<and> votesInv env fm r rd \<and> quorumInv fm q rd \<and>
    ownAck acc r rd \<and> ownPrecommit acc ph r rd \<and> ownCommit env acc ph r rd"

lemma roundInvD:
  assumes "roundInv env acc ph fm q r rd"
  shows "stateInv env ph r rd" and "votesInv env fm r rd" and "quorumInv fm q rd"
    and "ownAck acc r rd" and "ownPrecommit acc ph r rd" and "ownCommit env acc ph r rd"
  using assms by (simp_all add: roundInv_def)

lemma roundInvI:
  assumes "stateInv env ph r rd" and "votesInv env fm r rd" and "quorumInv fm q rd"
    and "ownAck acc r rd" and "ownPrecommit acc ph r rd" and "ownCommit env acc ph r rd"
  shows "roundInv env acc ph fm q r rd"
  using assms by (simp add: roundInv_def)

text \<open>A round that has not decided has no precommits and no commits, not even its own.\<close>

lemma undecided:
  assumes "roundInv env acc ph fm q r rd" and "\<not> state rd \<ge> WAITING_FOR_PRECOMMITS"
  shows "validatorPrecommits rd = []" and "validatorCommits rd = []" and "selfPrecommitPacket rd = None"
    and "selfCommitPacket rd = None" and "\<not> selfPrecommited rd" and "\<not> selfCommited rd"
    and "state rd = WAITING_FOR_PROPOSAL \<or> state rd = WAITING_FOR_PROPOSAL_ACKS"
proof -
  note i = roundInvD [OF assms(1)]
  have "\<not> state rd \<ge> WAITING_FOR_COMMITS" using assms(2) by (cases "state rd") (simp_all add: state_order)
  with i(2) assms(2) show v: "validatorPrecommits rd = []" "validatorCommits rd = []"
    by (simp_all add: votesInv_def)
  show s: "selfPrecommitPacket rd = None" "selfCommitPacket rd = None"
    using i(5,6) v by (auto simp: ownPrecommit_def ownCommit_def mhas_def)
  show "\<not> selfPrecommited rd" "\<not> selfCommited rd"
    using i(5,6) s by (simp_all add: ownPrecommit_def ownCommit_def)
  show "state rd = WAITING_FOR_PROPOSAL \<or> state rd = WAITING_FOR_PROPOSAL_ACKS"
    using i(1) assms(2) by (cases "state rd") (simp_all add: state_order stateInv_def)
qed

text \<open>How a round may change.\<close>

definition kept :: "'a option \<Rightarrow> 'a option \<Rightarrow> bool" where
  "kept x y \<longleftrightarrow> x = None \<or> y = x"

definition extends :: "roundDetails \<Rightarrow> roundDetails \<Rightarrow> bool" where
  "extends rd rd' \<longleftrightarrow>
    state rd \<le> state rd' \<and>
    kept (selfAckPacket rd) (selfAckPacket rd') \<and>
    kept (selfPrecommitPacket rd) (selfPrecommitPacket rd') \<and>
    kept (selfCommitPacket rd) (selfCommitPacket rd') \<and>
    (state rd \<ge> WAITING_FOR_PRECOMMITS \<longrightarrow>
       precommitHash rd' = precommitHash rd \<and> blockVoteType rd' = blockVoteType rd \<and>
       proposalHash rd' = proposalHash rd \<and> proposalTxns rd' = proposalTxns rd) \<and>
    fst ` set (validatorPrecommits rd) \<subseteq> fst ` set (validatorPrecommits rd') \<and>
    fst ` set (validatorCommits rd) \<subseteq> fst ` set (validatorCommits rd')"

lemma kept_refl [simp]: "kept x x" "kept None y"
  by (simp_all add: kept_def)

lemma kept_trans: "kept x y \<Longrightarrow> kept y z \<Longrightarrow> kept x z"
  by (auto simp: kept_def)

lemma extends_refl [simp]: "extends rd rd"
  by (simp add: extends_def)

lemma extendsD:
  assumes "extends rd rd'"
  shows "state rd \<le> state rd'"
    and "kept (selfAckPacket rd) (selfAckPacket rd')"
    and "kept (selfPrecommitPacket rd) (selfPrecommitPacket rd')"
    and "kept (selfCommitPacket rd) (selfCommitPacket rd')"
    and "state rd \<ge> WAITING_FOR_PRECOMMITS \<longrightarrow>
       precommitHash rd' = precommitHash rd \<and> blockVoteType rd' = blockVoteType rd \<and>
       proposalHash rd' = proposalHash rd \<and> proposalTxns rd' = proposalTxns rd"
    and "fst ` set (validatorPrecommits rd) \<subseteq> fst ` set (validatorPrecommits rd')"
    and "fst ` set (validatorCommits rd) \<subseteq> fst ` set (validatorCommits rd')"
  using assms unfolding extends_def by - (elim conjE, assumption)+

lemma extends_trans:
  assumes ab: "extends a b" and bc: "extends b c"
  shows "extends a c"
  unfolding extends_def
proof (intro conjI impI)
  show "state a \<le> state c" by (rule order_trans [OF extendsD(1) [OF ab] extendsD(1) [OF bc]])
  show "kept (selfAckPacket a) (selfAckPacket c)" by (rule kept_trans [OF extendsD(2) [OF ab] extendsD(2) [OF bc]])
  show "kept (selfPrecommitPacket a) (selfPrecommitPacket c)"
    by (rule kept_trans [OF extendsD(3) [OF ab] extendsD(3) [OF bc]])
  show "kept (selfCommitPacket a) (selfCommitPacket c)"
    by (rule kept_trans [OF extendsD(4) [OF ab] extendsD(4) [OF bc]])
  show "fst ` set (validatorPrecommits a) \<subseteq> fst ` set (validatorPrecommits c)"
    by (rule subset_trans [OF extendsD(6) [OF ab] extendsD(6) [OF bc]])
  show "fst ` set (validatorCommits a) \<subseteq> fst ` set (validatorCommits c)"
    by (rule subset_trans [OF extendsD(7) [OF ab] extendsD(7) [OF bc]])
  assume w: "state a \<ge> WAITING_FOR_PRECOMMITS"
  then have "state b \<ge> WAITING_FOR_PRECOMMITS" by (rule order_trans [OF _ extendsD(1) [OF ab]])
  with w extendsD(5) [OF ab] extendsD(5) [OF bc]
  show "precommitHash c = precommitHash a" "blockVoteType c = blockVoteType a"
    "proposalHash c = proposalHash a" "proposalTxns c = proposalTxns a" by simp_all
qed

section \<open>Blocks\<close>

definition wrapped :: "blockState \<Rightarrow> bool" where
  "wrapped b \<longleftrightarrow> mhas (blockRoundMap b) 0"

definition blockInv :: "penv \<Rightarrow> address \<Rightarrow> hash \<Rightarrow> blockState \<Rightarrow> bool" where
  "blockInv env acc ph b \<longleftrightarrow>
    block_parentHash b = ph \<and> wfm (filteredValidatorsDepositMap b) \<and>
    lowDepositRemoved (filteredValidatorsDepositMap b) = filteredValidatorsDepositMap b \<and>
    (filteredValidatorsDepositMap b \<noteq> [] \<longrightarrow>
       totalBlockDepositValue b = total_dep (filteredValidatorsDepositMap b) \<and>
       blockMinWeightedProposalsRequired b =
         SafeRelativePercentageBigInt (totalBlockDepositValue b) (minPercentage (blockNumber b))) \<and>
    (wrapped b \<or> fst ` set (blockRoundMap b) = set (roundList (currentRound b))) \<and>
    (\<forall>r rd. mget (blockRoundMap b) r = Some rd \<longrightarrow>
       roundInv env acc ph (filteredValidatorsDepositMap b) (blockMinWeightedProposalsRequired b) r rd)"

definition blockGrows :: "blockState \<Rightarrow> blockState \<Rightarrow> bool" where
  "blockGrows b b' \<longleftrightarrow>
    filteredValidatorsDepositMap b' = filteredValidatorsDepositMap b \<and>
    blockMinWeightedProposalsRequired b' = blockMinWeightedProposalsRequired b \<and>
    fst ` set (blockRoundMap b) \<subseteq> fst ` set (blockRoundMap b') \<and>
    (wrapped b' \<or>
      (\<forall>r rd. mget (blockRoundMap b) r = Some rd \<longrightarrow>
        (\<exists>rd'. mget (blockRoundMap b') r = Some rd' \<and> extends rd rd')))"

text \<open>What the invariant reads of a block.\<close>

definition sameBlock :: "blockState \<Rightarrow> blockState \<Rightarrow> bool" where
  "sameBlock b b' \<longleftrightarrow>
    filteredValidatorsDepositMap b' = filteredValidatorsDepositMap b \<and>
    totalBlockDepositValue b' = totalBlockDepositValue b \<and>
    blockMinWeightedProposalsRequired b' = blockMinWeightedProposalsRequired b \<and>
    blockNumber b' = blockNumber b \<and> block_parentHash b' = block_parentHash b \<and>
    currentRound b' = currentRound b \<and> blockRoundMap b' = blockRoundMap b"

lemma sameBlock_refl [simp]: "sameBlock b b"
  by (simp add: sameBlock_def)

lemma wrapped_mono: "fst ` set (blockRoundMap b) \<subseteq> fst ` set (blockRoundMap b') \<Longrightarrow> wrapped b \<Longrightarrow> wrapped b'"
  by (auto simp: wrapped_def mhas_iff)

lemma blockGrows_refl [simp]: "blockGrows b b"
  by (auto simp: blockGrows_def)

lemma blockGrows_trans:
  assumes ab: "blockGrows a b" and bc: "blockGrows b c"
  shows "blockGrows a c"
proof -
  have sub: "fst ` set (blockRoundMap a) \<subseteq> fst ` set (blockRoundMap c)"
    using ab bc by (auto simp: blockGrows_def)
  have "\<exists>rd'. mget (blockRoundMap c) r = Some rd' \<and> extends rd rd'"
    if nw: "\<not> wrapped c" and g: "mget (blockRoundMap a) r = Some rd" for r rd
  proof -
    have "\<not> wrapped b" using nw bc wrapped_mono [of b c] by (auto simp: blockGrows_def)
    then obtain rd1 where "mget (blockRoundMap b) r = Some rd1" "extends rd rd1"
      using ab g unfolding blockGrows_def by blast
    moreover obtain rd2 where "mget (blockRoundMap c) r = Some rd2" "extends rd1 rd2"
      using bc nw calculation unfolding blockGrows_def by blast
    ultimately show ?thesis using extends_trans by blast
  qed
  with sub ab bc show ?thesis unfolding blockGrows_def by auto
qed

section \<open>Handlers\<close>

definition early_ok :: "consensusHandler \<Rightarrow> bool" where
  "early_ok h \<longleftrightarrow>
    (\<forall>k m. mget (outOfOrderPacketsMap h) k = Some m \<longrightarrow> (\<forall>p \<in> set (mvals m). ParentHash (OPacket p) = k))"

definition hinv :: "penv \<Rightarrow> consensusHandler \<Rightarrow> bool" where
  "hinv env h \<longleftrightarrow> wfm (blockStateDetailsMap h) \<and> early_ok h \<and>
    (\<forall>ph b. mget (blockStateDetailsMap h) ph = Some b \<longrightarrow> blockInv env (account h) ph b)"

definition grows :: "consensusHandler \<Rightarrow> consensusHandler \<Rightarrow> bool" where
  "grows h h' \<longleftrightarrow>
    (\<forall>ph. rel_option blockGrows (mget (blockStateDetailsMap h) ph) (mget (blockStateDetailsMap h') ph))"

definition keeps :: "penv \<Rightarrow> consensusHandler \<Rightarrow> consensusHandler \<Rightarrow> bool" where
  "keeps env h h' \<longleftrightarrow> (hinv env h \<longrightarrow> account h' = account h \<and> hinv env h' \<and> grows h h')"

lemma grows_refl [simp]: "grows h h"
  by (simp add: grows_def option.rel_refl)

lemma grows_trans:
  assumes "grows a b" and "grows b c"
  shows "grows a c"
  unfolding grows_def
proof
  fix ph
  have "rel_option blockGrows (mget (blockStateDetailsMap a) ph) (mget (blockStateDetailsMap b) ph)"
    "rel_option blockGrows (mget (blockStateDetailsMap b) ph) (mget (blockStateDetailsMap c) ph)"
    using assms by (simp_all add: grows_def)
  then show "rel_option blockGrows (mget (blockStateDetailsMap a) ph) (mget (blockStateDetailsMap c) ph)"
    by (auto simp: option_rel_Some1 option_rel_Some2 rel_option_iff split: option.splits intro: blockGrows_trans)
qed

lemma keeps_refl [simp]: "keeps env h h"
  by (simp add: keeps_def)

lemma keeps_trans: "keeps env a b \<Longrightarrow> keeps env b c \<Longrightarrow> keeps env a c"
  unfolding keeps_def by (auto dest: grows_trans)

text \<open>Changes that the invariant does not see.\<close>

definition frame :: "consensusHandler \<Rightarrow> consensusHandler \<Rightarrow> bool" where
  "frame h h' \<longleftrightarrow> account h' = account h \<and> blockStateDetailsMap h' = blockStateDetailsMap h \<and>
    outOfOrderPacketsMap h' = outOfOrderPacketsMap h \<and> currentParentHash h' = currentParentHash h"

lemma frame_refl [simp]: "frame h h"
  by (simp add: frame_def)

lemma frame_trans: "frame a b \<Longrightarrow> frame b c \<Longrightarrow> frame a c"
  by (simp add: frame_def)

lemma hinv_frame: "frame h h' \<Longrightarrow> hinv env h' \<longleftrightarrow> hinv env h"
  by (simp add: frame_def hinv_def early_ok_def)

lemma keeps_frame: "frame h h' \<Longrightarrow> keeps env h h'"
  using hinv_frame [of h h' env] by (simp add: keeps_def frame_def grows_def option.rel_refl)

lemma keeps_andThen:
  assumes "keeps env h (fst r)" and "\<And>h'. r = (h', None) \<Longrightarrow> keeps env h' (fst (f h'))"
  shows "keeps env h (fst (andThen r f))"
  using assms by (cases r; cases "snd r") (auto simp: andThen_def intro: keeps_trans)

lemma keeps_thenAlways:
  assumes "keeps env h (fst r)" and "\<And>h' e. r = (h', e) \<Longrightarrow> keeps env h' (fst (f h'))"
  shows "keeps env h (fst (thenAlways r f))"
  using assms by (cases r) (auto simp: thenAlways_def intro: keeps_trans)

lemma frame_andThen:
  assumes "frame h (fst r)" and "\<And>h'. r = (h', None) \<Longrightarrow> frame h' (fst (f h'))"
  shows "frame h (fst (andThen r f))"
  using assms by (cases r; cases "snd r") (auto simp: andThen_def intro: frame_trans)

lemma keeps_notReady: "keeps env h (fst r) \<Longrightarrow> keeps env h (fst (notReady r))"
  unfolding notReady_def by (rule keeps_thenAlways) auto

text \<open>Writing back a round of a block.\<close>

lemma blockInv_putRound:
  assumes "blockInv env acc ph b" and "sameBlock b b'" and "mhas (blockRoundMap b) (currentRound b)"
    and "roundInv env acc ph (filteredValidatorsDepositMap b) (blockMinWeightedProposalsRequired b) (currentRound b) rd"
  shows "blockInv env acc ph (putRound rd b')"
proof -
  have "fst ` set (mput (currentRound b) rd (blockRoundMap b)) = fst ` set (blockRoundMap b)"
    using assms(3) by (auto simp: fst_set_mput mhas_iff)
  then show ?thesis
    using assms(1,2,4)
    by (auto simp: blockInv_def sameBlock_def putRound_def wrapped_def mhas_iff mget_mput)
qed

lemma blockGrows_putRound:
  assumes "sameBlock b b'" and "mget (blockRoundMap b) (currentRound b) = Some rd" and "extends rd rd'"
  shows "blockGrows b (putRound rd' b')"
  using assms by (auto simp: blockGrows_def sameBlock_def putRound_def fst_set_mput mget_mput)

lemma keeps_storeRound:
  assumes "mget (blockStateDetailsMap h) ph = Some b" and "sameBlock b b'"
    and "mget (blockRoundMap b) (currentRound b) = Some rd"
    and "roundInv env (account h) ph (filteredValidatorsDepositMap b) (blockMinWeightedProposalsRequired b)
       (currentRound b) rd \<Longrightarrow>
     roundInv env (account h) ph (filteredValidatorsDepositMap b) (blockMinWeightedProposalsRequired b)
       (currentRound b) rd' \<and> extends rd rd'"
  shows "keeps env h (storeRound ph b' rd' h)"
proof -
  have "hinv env (storeRound ph b' rd' h) \<and> grows h (storeRound ph b' rd' h)" if h: "hinv env h"
  proof -
    have bi: "blockInv env (account h) ph b" using h assms(1) by (simp add: hinv_def)
    then have ri: "roundInv env (account h) ph (filteredValidatorsDepositMap b)
        (blockMinWeightedProposalsRequired b) (currentRound b) rd' \<and> extends rd rd'"
      using assms(3,4) by (simp add: blockInv_def)
    have "mhas (blockRoundMap b) (currentRound b)" using assms(3) by (simp add: mhas_def)
    with bi ri assms(2) have "blockInv env (account h) ph (putRound rd' b')"
      using blockInv_putRound by blast
    moreover have "blockGrows b (putRound rd' b')" using blockGrows_putRound assms(2,3) ri by blast
    ultimately show ?thesis
      using h assms(1)
      by (auto simp: hinv_def grows_def storeRound_def putBlock_def early_ok_def mget_mput wfm_mput
          option.rel_refl)
  qed
  then show ?thesis by (simp add: keeps_def storeRound_def putBlock_def)
qed

section \<open>Incoming packets keep the invariant\<close>

lemma lookupRound_Inr:
  assumes "lookupRound ph h = Inr (b, rd)"
  shows "mget (blockStateDetailsMap h) ph = Some b" and "mget (blockRoundMap b) (currentRound b) = Some rd"
    and "mhas (filteredValidatorsDepositMap b) (account h)"
  using assms by (auto simp: lookupRound_def split: option.splits if_splits)

lemma mhas_Nil [simp]: "\<not> mhas [] k"
  by (simp add: mhas_def)

lemma checkProposal_Inr:
  assumes "checkProposal env now v packet self h b rd = Inr d"
  shows "\<not> state rd \<ge> WAITING_FOR_PROPOSAL_ACKS"
  using assms by (auto simp: checkProposal_def split: sum.splits if_splits)

text \<open>Before the round waits for acknowledgements, the proposal may be replaced.\<close>

definition proposalUpdate :: "roundDetails \<Rightarrow> roundDetails \<Rightarrow> bool" where
  "proposalUpdate rd rd' \<longleftrightarrow>
    (state rd' = state rd \<or> state rd' = WAITING_FOR_PROPOSAL_ACKS) \<and> blockProposalDetails rd' \<noteq> None \<and>
    Round rd' = Round rd \<and> precommitHash rd' = precommitHash rd \<and>
    validatorProposalAcks rd' = validatorProposalAcks rd \<and> validatorPrecommits rd' = validatorPrecommits rd \<and>
    validatorCommits rd' = validatorCommits rd \<and> selfAckd rd' = selfAckd rd \<and>
    selfAckPacket rd' = selfAckPacket rd \<and> selfAckProposalVoteType rd' = selfAckProposalVoteType rd \<and>
    selfPrecommited rd' = selfPrecommited rd \<and> selfPrecommitPacket rd' = selfPrecommitPacket rd \<and>
    selfCommited rd' = selfCommited rd \<and> selfCommitPacket rd' = selfCommitPacket rd"

lemma roundInv_proposal:
  assumes "roundInv env acc ph fm q r rd" and "\<not> state rd \<ge> WAITING_FOR_PROPOSAL_ACKS" and "proposalUpdate rd rd'"
  shows "roundInv env acc ph fm q r rd' \<and> extends rd rd'"
proof
  note i = roundInvD [OF assms(1)] and u = assms(3) [unfolded proposalUpdate_def]
  have nd: "\<not> state rd \<ge> WAITING_FOR_PRECOMMITS" using assms(2) by (cases "state rd") (simp_all add: state_order)
  note un = undecided [OF assms(1) nd]
  have s: "state rd' = WAITING_FOR_PROPOSAL \<or> state rd' = WAITING_FOR_PROPOSAL_ACKS" using un(7) u by auto
  then have s': "\<not> state rd' \<ge> WAITING_FOR_PRECOMMITS" "\<not> state rd' \<ge> WAITING_FOR_COMMITS"
    by (auto simp: state_order)
  show "roundInv env acc ph fm q r rd'"
  proof (rule roundInvI)
    show "stateInv env ph r rd'" using i(1) u s s' by (auto simp: stateInv_def)
    show "votesInv env fm r rd'" using i(2) u un by (simp add: votesInv_def)
    show "quorumInv fm q rd'" using s by (auto simp: quorumInv_def state_order)
    show "ownAck acc r rd'" using i(4) u by (simp add: ownAck_def)
    show "ownPrecommit acc ph r rd'" "ownCommit env acc ph r rd'" using u un
      by (simp_all add: ownPrecommit_def ownCommit_def)
  qed
  have "state rd \<le> state rd'" using u assms(2) by auto
  then show "extends rd rd'" using nd u un by (simp add: extends_def)
qed

lemma handlePropose_form:
  assumes "lookupRound (ParentHash packet) h = Inr (b, rd)" and "checkProposal env now v packet self h b rd = Inr d"
  shows "\<exists>b' rd'. sameBlock b b' \<and> proposalUpdate rd rd' \<and>
    frame (storeRound (ParentHash packet) b' rd' h) (fst (handleProposeBlockPacket env now v packet self h))"
proof -
  obtain txns e where t: "checkTxns env (Txns d) [] = (txns, e)" by (cases "checkTxns env (Txns d) []")
  let ?rd = "rd\<lparr>blockProposalDetails := Some d,
    proposalHash := proposalHashOf env (ParentHash packet) (blockNumber b) d, proposalTxns := txns\<rparr>"
  have e: "fst (handleProposeBlockPacket env now v packet self h) =
    (case e of Some x \<Rightarrow> storeRound (ParentHash packet) b ?rd h
     | None \<Rightarrow> acceptProposal env now packet self d b ?rd h)"
    using assms t by (simp add: handleProposeBlockPacket_def Let_def split: option.split)
  show ?thesis
  proof (cases e)
    case None
    let ?p = "?rd\<lparr>proposalPacket := Some (NewConsensusPacket packet)\<rparr>"
    let ?b = "b\<lparr>proposalTime := Elapsed now (block_initTime b)\<rparr>"
    let ?a = "?p\<lparr>state := WAITING_FOR_PROPOSAL_ACKS\<rparr>"
    let ?s = "?a\<lparr>selfProposed := True, selfProposalPacket := Some packet, selfProposedTime := now\<rparr>"
    have u: "proposalUpdate rd ?p" "proposalUpdate rd ?a" "proposalUpdate rd ?s"
      by (simp_all add: proposalUpdate_def)
    have sb: "sameBlock b ?b" by (simp add: sameBlock_def)
    show ?thesis
    proof (cases self)
      case True
      with e None u(3) sb show ?thesis
        by (intro exI [of _ ?b] exI [of _ ?s]) (simp add: acceptProposal_def Let_def)
    next
      case False
      show ?thesis
      proof (cases "unknownTxns ?rd (Txns d) = []")
        case True
        with e None False u(2) sb show ?thesis
          by (intro exI [of _ ?b] exI [of _ ?a]) (simp add: acceptProposal_def Let_def)
      next
        case unknown: False
        with e None False u(1) show ?thesis
          by (intro exI [of _ b] exI [of _ ?p]) (simp add: acceptProposal_def Let_def frame_def send_def)
      qed
    qed
  next
    case (Some x)
    have "proposalUpdate rd ?rd" by (simp add: proposalUpdate_def)
    with e Some show ?thesis by (intro exI [of _ b] exI [of _ ?rd]) simp
  qed
qed

lemma handleProposeBlockPacket_keeps:
  "keeps env h (fst (handleProposeBlockPacket env now v packet self h))"
proof (cases "lookupRound (ParentHash packet) h")
  case (Inr p)
  obtain b rd where p: "p = (b, rd)" by (cases p)
  note lk = lookupRound_Inr [OF Inr [unfolded p]]
  show ?thesis
  proof (cases "checkProposal env now v packet self h b rd")
    case chk: (Inr d)
    obtain b' rd' where f: "sameBlock b b'" "proposalUpdate rd rd'"
        "frame (storeRound (ParentHash packet) b' rd' h) (fst (handleProposeBlockPacket env now v packet self h))"
      using handlePropose_form [OF Inr [unfolded p] chk] by blast
    have "keeps env h (storeRound (ParentHash packet) b' rd' h)"
      by (rule keeps_storeRound [OF lk(1) f(1) lk(2)], rule roundInv_proposal [OF _ checkProposal_Inr [OF chk] f(2)])
    then show ?thesis by (rule keeps_trans) (rule keeps_frame [OF f(3)])
  qed (use Inr p in \<open>simp add: handleProposeBlockPacket_def\<close>)
qed (simp add: handleProposeBlockPacket_def)

lemma keeps_sameBlock:
  assumes "mget (blockStateDetailsMap h) ph = Some b" and "sameBlock b b'"
  shows "keeps env h (putBlock ph b' h)"
proof -
  have "blockInv env acc ph b \<Longrightarrow> blockInv env acc ph b'" "blockGrows b b'" for acc
    using assms(2) by (auto simp: blockInv_def blockGrows_def sameBlock_def wrapped_def)
  with assms(1) show ?thesis
    by (auto simp: keeps_def hinv_def grows_def putBlock_def early_ok_def mget_mput wfm_mput option.rel_refl)
qed

lemma roundInv_ack:
  assumes "roundInv env acc ph fm q r rd" and "mhas fm v" and "ARound d = r" and "validVote r (ProposalAckVoteType d)"
  shows "roundInv env acc ph fm q r
      (rd\<lparr>validatorProposalAcks := mput v d (validatorProposalAcks rd), proposalAckPackets := p\<rparr>) \<and>
    extends rd (rd\<lparr>validatorProposalAcks := mput v d (validatorProposalAcks rd), proposalAckPackets := p\<rparr>)"
proof
  note i = roundInvD [OF assms(1)]
  show "roundInv env acc ph fm q r (rd\<lparr>validatorProposalAcks := mput v d (validatorProposalAcks rd), proposalAckPackets := p\<rparr>)"
  proof (rule roundInvI)
    show "stateInv env ph r (rd\<lparr>validatorProposalAcks := mput v d (validatorProposalAcks rd), proposalAckPackets := p\<rparr>)"
      using i(1) by (simp add: stateInv_def decided_def)
  qed (use i assms(2-4) in \<open>simp_all add: votesInv_def quorumInv_def ownAck_def ownPrecommit_def ownCommit_def votesOk_put mhas_mput\<close>)
qed (simp add: extends_def)

lemma handleAckBlockProposalPacket_keeps: "keeps env h (fst (handleAckBlockProposalPacket v packet h))"
proof (cases "mget (blockStateDetailsMap h) (ParentHash packet)")
  case (Some b)
  note b = Some
  show ?thesis
  proof (cases "mget (blockRoundMap b) (currentRound b)")
    case (Some rd)
    note rd = Some
    show ?thesis
    proof (cases "decodeBody decodeAck packet")
      case (Inr d)
      have "keeps env h (storeRound (ParentHash packet) b
          (rd\<lparr>validatorProposalAcks := mput v d (validatorProposalAcks rd),
              proposalAckPackets := mput v (NewConsensusPacket packet) (proposalAckPackets rd)\<rparr>) h)"
        if "mhas (filteredValidatorsDepositMap b) v" "ARound d = currentRound b"
          "validVote (currentRound b) (ProposalAckVoteType d)"
        by (rule keeps_storeRound [OF b _ rd], simp, rule roundInv_ack [OF _ that])
      moreover have "keeps env h (putBlock (ParentHash packet) (b\<lparr>highestProposalRoundSeen := ARound d\<rparr>) h)"
        by (rule keeps_sameBlock [OF b]) (simp add: sameBlock_def)
      ultimately show ?thesis
        using b rd Inr by (simp add: handleAckBlockProposalPacket_def validVote_def)
    qed (use b rd in \<open>simp add: handleAckBlockProposalPacket_def\<close>)
  qed (use b in \<open>simp add: handleAckBlockProposalPacket_def\<close>)
qed (simp add: handleAckBlockProposalPacket_def)

lemma tally_sum: "tally fm vs s = Inr t \<Longrightarrow> t = s + sum_list (map (dep fm) vs)"
  by (induction vs arbitrary: s) (fastforce simp: dep_def split: option.splits)+

lemma tally_weight: "tally fm (mkeys m) 0 = Inr t \<Longrightarrow> wfm m \<Longrightarrow> t = weight fm (fst ` set m)"
  by (drule tally_sum) (simp add: sum_list_keys)

text \<open>A counted precommit: \<open>q\<close> is reached when the state changes.\<close>

definition precommitUpdate ::
    "address \<Rightarrow> preCommitDetails \<Rightarrow> bool \<Rightarrow> packet \<Rightarrow> (address, int) gomap \<Rightarrow> int \<Rightarrow> roundDetails \<Rightarrow> roundDetails \<Rightarrow> bool" where
  "precommitUpdate v d self packet fm q rd rd' \<longleftrightarrow>
    validatorPrecommits rd' = mput v d (validatorPrecommits rd) \<and>
    selfPrecommited rd' = (self \<or> selfPrecommited rd) \<and>
    selfPrecommitPacket rd' = (if self then Some packet else selfPrecommitPacket rd) \<and>
    (state rd' = WAITING_FOR_PRECOMMITS \<or> state rd' = WAITING_FOR_COMMITS \<and> selfPrecommited rd' \<and>
       q \<le> weight fm (fst ` set (validatorPrecommits rd'))) \<and>
    Round rd' = Round rd \<and> precommitHash rd' = precommitHash rd \<and> blockVoteType rd' = blockVoteType rd \<and>
    blockProposalDetails rd' = blockProposalDetails rd \<and> proposalHash rd' = proposalHash rd \<and>
    proposalTxns rd' = proposalTxns rd \<and>
    validatorProposalAcks rd' = validatorProposalAcks rd \<and> validatorCommits rd' = validatorCommits rd \<and>
    selfAckd rd' = selfAckd rd \<and> selfAckPacket rd' = selfAckPacket rd \<and>
    selfAckProposalVoteType rd' = selfAckProposalVoteType rd \<and>
    selfCommited rd' = selfCommited rd \<and> selfCommitPacket rd' = selfCommitPacket rd"

lemma roundInv_precommit:
  assumes "roundInv env acc ph fm q r rd" and "state rd = WAITING_FOR_PRECOMMITS" and "mhas fm v"
    and "PCRound d = r" and "PrecommitHash d = precommitHash rd"
    and "decodeBody decodePrecommit packet = Inr d" and "ParentHash packet = ph"
    and "self \<Longrightarrow> v = acc \<and> kept (selfPrecommitPacket rd) (Some packet)"
    and "precommitUpdate v d self packet fm q rd rd'"
  shows "roundInv env acc ph fm q r rd' \<and> extends rd rd'"
proof
  note i = roundInvD [OF assms(1)] and u = assms(9) [unfolded precommitUpdate_def]
  have s: "state rd' = WAITING_FOR_PRECOMMITS \<or> state rd' = WAITING_FOR_COMMITS" using u by auto
  then have s': "state rd' \<ge> WAITING_FOR_PRECOMMITS" "state rd' \<ge> WAITING_FOR_PRECOMMITS" "state rd \<ge> WAITING_FOR_PRECOMMITS"
    using assms(2) by (auto simp: state_order)
  show "roundInv env acc ph fm q r rd'"
  proof (rule roundInvI)
    show "stateInv env ph r rd'" using i(1) u s s' by (auto simp: stateInv_def decided_def)
    show "votesInv env fm r rd'" using i(2) u s s' assms(2-5) by (auto simp: votesInv_def votesOk_put state_order)
    show "quorumInv fm q rd'" using i(3) u s assms(2) by (auto simp: quorumInv_def state_order)
    show "ownAck acc r rd'" using i(4) u by (simp add: ownAck_def)
    show "ownCommit env acc ph r rd'" using i u by (simp add: ownPrecommit_def ownCommit_def)
    show "ownPrecommit acc ph r rd'" using i(5,6) u assms(4-8) by (auto simp: ownPrecommit_def ownCommit_def mhas_mput)
  qed
  show "extends rd rd'"
    using s s' assms(2,8) u by (auto simp: extends_def state_order fst_set_mput)
qed

lemma checkPrecommit_Inr:
  assumes "checkPrecommit v packet self h b rd = Inr d"
  shows "state rd = WAITING_FOR_PRECOMMITS" and "mhas (filteredValidatorsDepositMap b) v"
    and "PCRound d = currentRound b" and "PrecommitHash d = precommitHash rd"
    and "decodeBody decodePrecommit packet = Inr d"
  using assms by (auto simp: checkPrecommit_def split: sum.splits if_splits)

lemma roundInv_wf:
  "roundInv env acc ph fm q r rd \<Longrightarrow>
    wfm (validatorProposalAcks rd) \<and> wfm (validatorPrecommits rd) \<and> wfm (validatorCommits rd)"
  using roundInvD(2) [of env acc ph fm q r rd] by (simp add: votesInv_def votesOk_def)

lemma handlePrecommit_form:
  assumes "lookupRound (ParentHash packet) h = Inr (b, rd)" and "checkPrecommit v packet self h b rd = Inr d"
    and "wfm (validatorPrecommits rd)"
  shows "\<exists>b' rd'. sameBlock b b' \<and>
    precommitUpdate v d self packet (filteredValidatorsDepositMap b) (blockMinWeightedProposalsRequired b) rd rd' \<and>
    fst (handlePrecommitPacket now v packet self h) = storeRound (ParentHash packet) b' rd' h"
proof -
  define rd2 where "rd2 = (if self then rd\<lparr>validatorPrecommits := mput v d (validatorPrecommits rd),
      selfPrecommited := True, selfPrecommitPacket := Some packet\<rparr>
    else rd\<lparr>validatorPrecommits := mput v d (validatorPrecommits rd)\<rparr>)"
  define pp where "pp = mput v (NewConsensusPacket packet) (precommitPackets rd2)"
  let ?b = "b\<lparr>precommitTime := Elapsed now (block_initTime b)\<rparr>" and ?ph = "ParentHash packet"
  let ?t = "tally (filteredValidatorsDepositMap b) (mkeys (validatorPrecommits rd2)) 0"
  note st = checkPrecommit_Inr [OF assms(2)]
  have eq: "fst (handlePrecommitPacket now v packet self h) =
    (if selfPrecommited rd2 then
       case ?t of Inl e \<Rightarrow> storeRound ?ph b rd2 h
       | Inr tot \<Rightarrow> if tot \<ge> blockMinWeightedProposalsRequired b
           then storeRound ?ph ?b (rd2\<lparr>state := WAITING_FOR_COMMITS, precommitPackets := pp\<rparr>) h
           else storeRound ?ph b (rd2\<lparr>precommitPackets := pp\<rparr>) h
     else storeRound ?ph b (rd2\<lparr>precommitPackets := pp\<rparr>) h)"
    using assms(1,2) by (auto simp: handlePrecommitPacket_def Let_def rd2_def pp_def split: sum.splits)
  have u: "precommitUpdate v d self packet fm q rd rd2"
    "precommitUpdate v d self packet fm q rd (rd2\<lparr>precommitPackets := pp\<rparr>)" for fm q
    using st(1) by (simp_all add: rd2_def precommitUpdate_def)
  have w: "precommitUpdate v d self packet fm q rd (rd2\<lparr>state := WAITING_FOR_COMMITS, precommitPackets := pp\<rparr>)"
    if "selfPrecommited rd2" "q \<le> weight fm (fst ` set (validatorPrecommits rd2))" for fm q
    using that by (auto simp: rd2_def precommitUpdate_def)
  have wf: "wfm (validatorPrecommits rd2)" using assms(3) by (simp add: rd2_def wfm_mput)
  have sb: "sameBlock b ?b" by (simp add: sameBlock_def)
  let ?Q = "\<lambda>x. \<exists>b' rd'. sameBlock b b' \<and>
    precommitUpdate v d self packet (filteredValidatorsDepositMap b) (blockMinWeightedProposalsRequired b) rd rd' \<and>
    x = storeRound ?ph b' rd' h"
  have "?Q (storeRound ?ph b rd2 h)" "?Q (storeRound ?ph b (rd2\<lparr>precommitPackets := pp\<rparr>) h)"
    using u sameBlock_refl by blast+
  moreover have "?Q (storeRound ?ph ?b (rd2\<lparr>state := WAITING_FOR_COMMITS, precommitPackets := pp\<rparr>) h)"
    if "selfPrecommited rd2" "?t = Inr t" "t \<ge> blockMinWeightedProposalsRequired b" for t
    using w sb that tally_weight [OF that(2) wf] by blast
  ultimately show ?thesis unfolding eq by (simp split: sum.split)
qed

lemma handlePrecommitPacket_keeps:
  assumes "\<And>b rd. self \<Longrightarrow> mget (blockStateDetailsMap h) (ParentHash packet) = Some b \<Longrightarrow>
      mget (blockRoundMap b) (currentRound b) = Some rd \<Longrightarrow> v = account h \<and> kept (selfPrecommitPacket rd) (Some packet)"
  shows "keeps env h (fst (handlePrecommitPacket now v packet self h))"
proof (cases "lookupRound (ParentHash packet) h")
  case (Inr p)
  obtain b rd where p: "p = (b, rd)" by (cases p)
  note lk = lookupRound_Inr [OF Inr [unfolded p]]
  show ?thesis
  proof (cases "checkPrecommit v packet self h b rd")
    case chk: (Inr d)
    note c = checkPrecommit_Inr [OF chk]
    show ?thesis
    proof (cases "wfm (validatorPrecommits rd)")
      case True
      obtain b' rd' where f: "sameBlock b b'"
          "precommitUpdate v d self packet (filteredValidatorsDepositMap b) (blockMinWeightedProposalsRequired b) rd rd'"
          "fst (handlePrecommitPacket now v packet self h) = storeRound (ParentHash packet) b' rd' h"
        using handlePrecommit_form [OF Inr [unfolded p] chk True] by blast
      show ?thesis unfolding f(3)
        by (rule keeps_storeRound [OF lk(1) f(1) lk(2)],
            rule roundInv_precommit [OF _ c(1-5) refl assms [OF _ lk(1,2)] f(2)])
    next
      case False
      then have "\<not> hinv env h" using lk(1,2) by (force simp: hinv_def blockInv_def dest: roundInv_wf)
      then show ?thesis by (simp add: keeps_def)
    qed
  qed (use Inr p in \<open>simp add: handlePrecommitPacket_def\<close>)
qed (simp add: handlePrecommitPacket_def)

lemma checkCommit_Inr:
  assumes "checkCommit env v packet self h b rd = Inr d"
  shows "state rd = WAITING_FOR_COMMITS" and "mhas (filteredValidatorsDepositMap b) v"
    and "CRound d = currentRound b" and "CommitHash d = getCommitHash env (precommitHash rd)"
    and "decodeBody decodeCommit packet = Inr d"
  using assms by (auto simp: checkCommit_def getCommitHash_def split: sum.splits if_splits)

text \<open>A counted commit.\<close>

definition commitUpdate ::
    "address \<Rightarrow> commitDetails \<Rightarrow> bool \<Rightarrow> packet \<Rightarrow> (address, int) gomap \<Rightarrow> int \<Rightarrow> roundDetails \<Rightarrow> roundDetails \<Rightarrow> bool" where
  "commitUpdate v d self packet fm q rd rd' \<longleftrightarrow>
    validatorCommits rd' = mput v d (validatorCommits rd) \<and>
    selfCommited rd' = (self \<or> selfCommited rd) \<and>
    selfCommitPacket rd' = (if self then Some packet else selfCommitPacket rd) \<and>
    (state rd' = WAITING_FOR_COMMITS \<or> state rd' = RECEIVED_COMMITS \<and> selfCommited rd' \<and>
       q \<le> weight fm (fst ` set (validatorCommits rd'))) \<and>
    Round rd' = Round rd \<and> precommitHash rd' = precommitHash rd \<and> blockVoteType rd' = blockVoteType rd \<and>
    blockProposalDetails rd' = blockProposalDetails rd \<and> proposalHash rd' = proposalHash rd \<and>
    proposalTxns rd' = proposalTxns rd \<and>
    validatorProposalAcks rd' = validatorProposalAcks rd \<and> validatorPrecommits rd' = validatorPrecommits rd \<and>
    selfAckd rd' = selfAckd rd \<and> selfAckPacket rd' = selfAckPacket rd \<and>
    selfAckProposalVoteType rd' = selfAckProposalVoteType rd \<and>
    selfPrecommited rd' = selfPrecommited rd \<and> selfPrecommitPacket rd' = selfPrecommitPacket rd"

lemma roundInv_commit:
  assumes "roundInv env acc ph fm q r rd" and "state rd = WAITING_FOR_COMMITS" and "mhas fm v"
    and "CRound d = r" and "CommitHash d = getCommitHash env (precommitHash rd)"
    and "decodeBody decodeCommit packet = Inr d" and "ParentHash packet = ph"
    and "self \<Longrightarrow> v = acc \<and> kept (selfCommitPacket rd) (Some packet)"
    and "commitUpdate v d self packet fm q rd rd'"
  shows "roundInv env acc ph fm q r rd' \<and> extends rd rd'"
proof
  note i = roundInvD [OF assms(1)] and u = assms(9) [unfolded commitUpdate_def]
  have s: "state rd' = WAITING_FOR_COMMITS \<or> state rd' = RECEIVED_COMMITS" using u by auto
  then have s': "state rd' \<ge> WAITING_FOR_COMMITS" "state rd' \<ge> WAITING_FOR_PRECOMMITS" "state rd \<ge> WAITING_FOR_PRECOMMITS"
    using assms(2) by (auto simp: state_order)
  show "roundInv env acc ph fm q r rd'"
  proof (rule roundInvI)
    show "stateInv env ph r rd'" using i(1) u s s' by (auto simp: stateInv_def decided_def)
    show "votesInv env fm r rd'" using i(2) u s s' assms(2-5) by (auto simp: votesInv_def votesOk_put state_order)
    show "quorumInv fm q rd'" using i(3) u s assms(2) by (auto simp: quorumInv_def state_order)
    show "ownAck acc r rd'" using i(4) u by (simp add: ownAck_def)
    show "ownPrecommit acc ph r rd'" using i u by (simp add: ownPrecommit_def ownCommit_def)
    show "ownCommit env acc ph r rd'" using i(5,6) u assms(4-8) by (auto simp: ownPrecommit_def ownCommit_def mhas_mput)
  qed
  show "extends rd rd'"
    using s s' assms(2,8) u by (auto simp: extends_def state_order fst_set_mput)
qed

lemma bumpStat_frame [simp]:
  "account (bumpStat p ms h) = account h" "blockStateDetailsMap (bumpStat p ms h) = blockStateDetailsMap h"
  "outOfOrderPacketsMap (bumpStat p ms h) = outOfOrderPacketsMap h"
  "currentParentHash (bumpStat p ms h) = currentParentHash h"
  by (simp_all add: bumpStat_def Let_def)

lemma blockDone_frame: "frame h (blockDone now b rd h)"
  by (simp add: frame_def blockDone_def Let_def)

lemma storeRound_frame: "frame h h' \<Longrightarrow> frame (storeRound ph b rd h) (storeRound ph b rd h')"
  by (simp add: frame_def storeRound_def putBlock_def)

lemma handleCommit_form:
  assumes "lookupRound (ParentHash packet) h = Inr (b, rd)" and "checkCommit env v packet self h b rd = Inr d"
    and "wfm (validatorCommits rd)"
  shows "\<exists>b' rd'. sameBlock b b' \<and>
    commitUpdate v d self packet (filteredValidatorsDepositMap b) (blockMinWeightedProposalsRequired b) rd rd' \<and>
    frame (storeRound (ParentHash packet) b' rd' h) (fst (handleCommitPacket env now v packet self h))"
proof -
  define rd2 where "rd2 = (if self then rd\<lparr>validatorCommits := mput v d (validatorCommits rd),
      selfCommited := True, selfCommitPacket := Some packet\<rparr>
    else rd\<lparr>validatorCommits := mput v d (validatorCommits rd)\<rparr>)"
  define pp where "pp = mput v (NewConsensusPacket packet) (commitPackets rd2)"
  let ?b = "b\<lparr>commitTime := Elapsed now (block_initTime b)\<rparr>" and ?ph = "ParentHash packet"
  let ?t = "tally (filteredValidatorsDepositMap b) (mkeys (validatorCommits rd2)) 0"
  note st = checkCommit_Inr [OF assms(2)]
  have eq: "fst (handleCommitPacket env now v packet self h) =
    (if selfCommited rd2 then
       case ?t of Inl e \<Rightarrow> storeRound ?ph b rd2 h
       | Inr tot \<Rightarrow> if tot \<ge> blockMinWeightedProposalsRequired b
           then storeRound ?ph ?b (rd2\<lparr>state := RECEIVED_COMMITS, commitPackets := pp\<rparr>) (blockDone now ?b rd2 h)
           else storeRound ?ph b (rd2\<lparr>commitPackets := pp\<rparr>) h
     else storeRound ?ph b (rd2\<lparr>commitPackets := pp\<rparr>) h)"
    using assms(1,2) by (auto simp: handleCommitPacket_def Let_def rd2_def pp_def split: sum.splits)
  have u: "commitUpdate v d self packet fm q rd rd2"
    "commitUpdate v d self packet fm q rd (rd2\<lparr>commitPackets := pp\<rparr>)" for fm q
    using st(1) by (simp_all add: rd2_def commitUpdate_def)
  have w: "commitUpdate v d self packet fm q rd (rd2\<lparr>state := RECEIVED_COMMITS, commitPackets := pp\<rparr>)"
    if "selfCommited rd2" "q \<le> weight fm (fst ` set (validatorCommits rd2))" for fm q
    using that by (auto simp: rd2_def commitUpdate_def)
  have wf: "wfm (validatorCommits rd2)" using assms(3) by (simp add: rd2_def wfm_mput)
  have sb: "sameBlock b ?b" by (simp add: sameBlock_def)
  let ?Q = "\<lambda>x. \<exists>b' rd'. sameBlock b b' \<and>
    commitUpdate v d self packet (filteredValidatorsDepositMap b) (blockMinWeightedProposalsRequired b) rd rd' \<and>
    frame (storeRound ?ph b' rd' h) x"
  have "?Q (storeRound ?ph b rd2 h)" "?Q (storeRound ?ph b (rd2\<lparr>commitPackets := pp\<rparr>) h)"
    using u sameBlock_refl frame_refl by blast+
  moreover have "?Q (storeRound ?ph ?b (rd2\<lparr>state := RECEIVED_COMMITS, commitPackets := pp\<rparr>) (blockDone now ?b rd2 h))"
    if "selfCommited rd2" "?t = Inr t" "t \<ge> blockMinWeightedProposalsRequired b" for t
    using w sb that tally_weight [OF that(2) wf] storeRound_frame [OF blockDone_frame] by blast
  ultimately show ?thesis unfolding eq by (simp split: sum.split)
qed

lemma handleCommitPacket_keeps:
  assumes "\<And>b rd. self \<Longrightarrow> mget (blockStateDetailsMap h) (ParentHash packet) = Some b \<Longrightarrow>
      mget (blockRoundMap b) (currentRound b) = Some rd \<Longrightarrow> v = account h \<and> kept (selfCommitPacket rd) (Some packet)"
  shows "keeps env h (fst (handleCommitPacket env now v packet self h))"
proof (cases "lookupRound (ParentHash packet) h")
  case (Inr p)
  obtain b rd where p: "p = (b, rd)" by (cases p)
  note lk = lookupRound_Inr [OF Inr [unfolded p]]
  show ?thesis
  proof (cases "checkCommit env v packet self h b rd")
    case chk: (Inr d)
    note c = checkCommit_Inr [OF chk]
    show ?thesis
    proof (cases "wfm (validatorCommits rd)")
      case True
      obtain b' rd' where f: "sameBlock b b'"
          "commitUpdate v d self packet (filteredValidatorsDepositMap b) (blockMinWeightedProposalsRequired b) rd rd'"
          "frame (storeRound (ParentHash packet) b' rd' h) (fst (handleCommitPacket env now v packet self h))"
        using handleCommit_form [OF Inr [unfolded p] chk True] by blast
      have "keeps env h (storeRound (ParentHash packet) b' rd' h)"
        by (rule keeps_storeRound [OF lk(1) f(1) lk(2)],
            rule roundInv_commit [OF _ c(1-5) refl assms [OF _ lk(1,2)] f(2)])
      then show ?thesis by (rule keeps_trans) (rule keeps_frame [OF f(3)])
    next
      case False
      then have "\<not> hinv env h" using lk(1,2) by (force simp: hinv_def blockInv_def dest: roundInv_wf)
      then show ?thesis by (simp add: keeps_def)
    qed
  qed (use Inr p in \<open>simp add: handleCommitPacket_def\<close>)
qed (simp add: handleCommitPacket_def)

lemma processPacket_keeps: "keeps env h (fst (processPacket env now packet h))"
  using handleProposeBlockPacket_keeps handleAckBlockProposalPacket_keeps
    handlePrecommitPacket_keeps [where self = False] handleCommitPacket_keeps [where self = False]
  by (simp add: processPacket_def split: sum.split)

section \<open>Packets that came too early\<close>

lemma store_early [simp]:
  "outOfOrderPacketsMap (storeRound ph b rd h) = outOfOrderPacketsMap h"
  "outOfOrderPacketsMap (putBlock ph b h) = outOfOrderPacketsMap h"
  "outOfOrderPacketsMap (send e h) = outOfOrderPacketsMap h"
  "outOfOrderPacketsMap (blockDone now b rd h) = outOfOrderPacketsMap h"
  using blockDone_frame [of h now b rd]
  by (simp_all add: storeRound_def putBlock_def send_def frame_def)

lemma handlers_early:
  "outOfOrderPacketsMap (fst (handleProposeBlockPacket env now v packet self h)) = outOfOrderPacketsMap h"
  "outOfOrderPacketsMap (fst (handleAckBlockProposalPacket v packet h)) = outOfOrderPacketsMap h"
  "outOfOrderPacketsMap (fst (handlePrecommitPacket now v packet self h)) = outOfOrderPacketsMap h"
  "outOfOrderPacketsMap (fst (handleCommitPacket env now v packet self h)) = outOfOrderPacketsMap h"
  by (simp_all add: handleProposeBlockPacket_def acceptProposal_def handleAckBlockProposalPacket_def
      handlePrecommitPacket_def handleCommitPacket_def Let_def split: sum.split option.split prod.split)

lemma processPacket_early: "outOfOrderPacketsMap (fst (processPacket env now packet h)) = outOfOrderPacketsMap h"
  by (simp add: processPacket_def handlers_early split: sum.split)

text \<open>A change of the early packets only.\<close>

lemma keeps_early:
  assumes "account h' = account h" and "blockStateDetailsMap h' = blockStateDetailsMap h"
    and "early_ok h \<Longrightarrow> early_ok h'"
  shows "keeps env h h'"
  using assms by (auto simp: keeps_def hinv_def grows_def option.rel_refl)

lemma set_mvals_mput: "set (mvals (mput k v m)) \<subseteq> insert v (set (mvals m))"
  using set_mput_subset [of k v m] by (auto simp: mvals_def)

lemma keepOutOfOrder_keeps: "keeps env h (keepOutOfOrder env' now packet h)"
proof (rule keeps_early)
  assume "early_ok h"
  then show "early_ok (keepOutOfOrder env' now packet h)"
    using set_mvals_mput [of "ParentHash packet" "\<lparr>ReceivedTime = now, OPacket = NewConsensusPacket packet\<rparr>"]
    by (fastforce simp: early_ok_def keepOutOfOrder_def Let_def mget_mput NewConsensusPacket_def mvals_def
        split: option.splits)
qed (simp_all add: keepOutOfOrder_def Let_def)

lemma retryPackets_keeps:
  "retryPackets env now ph pkts un h = (h', un', e) \<Longrightarrow>
    keeps env h h' \<and> outOfOrderPacketsMap h' = outOfOrderPacketsMap h \<and>
    ((\<forall>p \<in> set un. ParentHash (OPacket p) = ph) \<longrightarrow> (\<forall>p \<in> set un'. ParentHash (OPacket p) = ph))"
proof (induction pkts arbitrary: un h)
  case (Cons pkt pkts)
  obtain h1 e1 where p: "processPacket env now (OPacket pkt) h = (h1, e1)"
    by (cases "processPacket env now (OPacket pkt) h")
  have k: "keeps env h h1" "outOfOrderPacketsMap h1 = outOfOrderPacketsMap h"
    using processPacket_keeps [of env h now "OPacket pkt"] processPacket_early [of env now "OPacket pkt" h] p by simp_all
  show ?case
  proof (cases "ParentHash (OPacket pkt) = ph")
    case True
    consider "e1 = None" "retryPackets env now ph pkts un h1 = (h', un', e)"
      | "h' = h1" "un' = un"
      | "retryPackets env now ph pkts (un @ [pkt]) h1 = (h', un', e)"
      using Cons.prems True p by (auto split: option.splits if_splits)
    then show ?thesis
    proof cases
      case 1
      note IH = Cons.IH [OF 1(2)]
      have "keeps env h h'" by (rule keeps_trans [OF k(1)]) (use IH in simp)
      with IH k(2) show ?thesis by simp
    next
      case 2
      with k show ?thesis by simp
    next
      case 3
      note IH = Cons.IH [OF 3]
      have "keeps env h h'" by (rule keeps_trans [OF k(1)]) (use IH in simp)
      with IH k(2) True show ?thesis by simp
    qed
  qed (use Cons in auto)
qed auto

lemma set_mvals_fold:
  "set (mvals (fold (\<lambda>p m. mput (f p) p m) un m)) \<subseteq> set un \<union> set (mvals m)"
proof (induction un arbitrary: m)
  case (Cons p un)
  show ?case using Cons.IH [of "mput (f p) p m"] set_mvals_mput [of "f p" p m] by auto
qed simp

lemma keeps_delEarly: "keeps env h (h\<lparr>outOfOrderPacketsMap := mdel k (outOfOrderPacketsMap h)\<rparr>)"
  by (rule keeps_early) (auto simp: early_ok_def mget_mdel split: if_splits)

lemma keeps_putEarly:
  assumes "mget (outOfOrderPacketsMap h) ph = Some m" and "\<forall>p \<in> set un. ParentHash (OPacket p) = ph"
  shows "keeps env h (h\<lparr>outOfOrderPacketsMap :=
    mput ph (fold (\<lambda>p m. mput (f p) p m) un m) (outOfOrderPacketsMap h)\<rparr>)"
proof (rule keeps_early)
  assume "early_ok h"
  with assms show "early_ok (h\<lparr>outOfOrderPacketsMap :=
      mput ph (fold (\<lambda>p m. mput (f p) p m) un m) (outOfOrderPacketsMap h)\<rparr>)"
    using set_mvals_fold [of f un m] by (auto simp: early_ok_def mget_mput)
qed simp_all

lemma retryKeys_keeps:
  "\<forall>p \<in> set un. ParentHash (OPacket p) = ph \<Longrightarrow> keeps env h (fst (retryKeys env now ph keys un h))"
proof (induction keys arbitrary: un h)
  case (Cons key keys)
  show ?case
  proof (cases "mget (outOfOrderPacketsMap h) key")
    case None
    with Cons show ?thesis by simp
  next
    case (Some m)
    obtain h1 un1 e where r: "retryPackets env now ph (mvals m) un h = (h1, un1, e)"
      by (cases "retryPackets env now ph (mvals m) un h")
    note k = retryPackets_keeps [OF r]
    with Cons.prems have un1: "\<forall>p \<in> set un1. ParentHash (OPacket p) = ph" by blast
    have step: "keeps env h h2 \<Longrightarrow> keeps env h (fst (retryKeys env now ph keys un1 h2))" for h2
      by (rule keeps_trans) (use Cons.IH un1 in blast)+
    let ?d = "h1\<lparr>outOfOrderPacketsMap := mdel key (outOfOrderPacketsMap h1)\<rparr>"
    let ?p = "\<lambda>m. h1\<lparr>outOfOrderPacketsMap :=
      mput ph (fold (\<lambda>p m. mput (packet_Hash env (OPacket p)) p m) un1 m) (outOfOrderPacketsMap h1)\<rparr>"
    have "keeps env h ?d" by (rule keeps_trans [OF _ keeps_delEarly]) (use k in simp)
    moreover have "keeps env h (?p m1)" if "mget (outOfOrderPacketsMap h1) ph = Some m1" for m1
      by (rule keeps_trans [OF _ keeps_putEarly [OF that un1]]) (use k in simp)
    moreover have "keeps env h h1" using k by simp
    ultimately show ?thesis
      using Some r step by (cases un1) (simp_all split: option.split)
  qed
qed simp

lemma processOutOfOrderPackets_keeps: "keeps env h (fst (processOutOfOrderPackets env now ph h))"
  unfolding processOutOfOrderPackets_def by (rule retryKeys_keeps) simp

lemma HandleConsensusPacket_keeps: "keeps env h (fst (HandleConsensusPacket env now packet k h))"
proof -
  have f: "frame h (h\<lparr>peers := p\<rparr>)" "frame h (LogIncomingPacketStats h)" for h p
    by (simp_all add: frame_def LogIncomingPacketStats_def)
  obtain h1 e where p: "processPacket env now packet (LogIncomingPacketStats h) = (h1, e)"
    by (cases "processPacket env now packet (LogIncomingPacketStats h)")
  have k1: "keeps env h h1"
    by (rule keeps_trans [OF keeps_frame [OF f(2)]])
      (use processPacket_keeps [of env "LogIncomingPacketStats h" now packet] p in simp)
  have "keeps env h (h1\<lparr>peers := q\<rparr>)" "keeps env h (keepOutOfOrder env now packet h1)" for q
    by (rule keeps_trans [OF k1], rule keeps_frame [OF f(1)])
      (rule keeps_trans [OF k1], rule keepOutOfOrder_keeps)
  with k1 p keeps_frame [OF f(1)] show ?thesis
    by (simp add: HandleConsensusPacket_def split: prod.split option.split)
qed

section \<open>Own votes keep the invariant\<close>

lemma broadCast_frame: "frame h (fst (broadCast env now pkt h))"
  by (simp add: broadCast_def broadcastDirect_def cleanupBroadcast_def send_def frame_def Let_def
      split: option.split prod.split sum.split)

lemma requestConsensusData_frame: "frame h (fst (requestConsensusData env now b h))"
  by (simp add: requestConsensusData_def sendRequest_def send_def frame_def Let_def split: option.split sum.split)

lemma repeatBroadcast_frame: "frame h (fst (repeatBroadcast env now pkt k h))"
  by (induction k arbitrary: h) (auto intro: frame_andThen broadCast_frame)

lemma broadcastPreviousRoundPackets_frame: "frame h (fst (broadcastPreviousRoundPackets env now ph h))"
  by (simp add: broadcastPreviousRoundPackets_def withRound_def repeatBroadcast_frame split: option.split)

lemma finishAck_frame: "frame (storeRound ph b rd h) (fst (finishAck env now ph b rd h))"
  unfolding finishAck_def by (rule frame_andThen) (rule broadCast_frame broadcastPreviousRoundPackets_frame)+

end
