(* ===== verification/Pos_Votes.thy ===== *)
theory Pos_Votes
  imports Pos_Invariants
begin

text \<open>
  The node's own votes keep the invariants of the handler: the acknowledgement, the precommit and
  the commit, the change to a new round, and the step of the engine that calls them.
\<close>

section \<open>New rounds\<close>

lemma unat_next: "cur \<noteq> 255 \<Longrightarrow> unat (cur + 1 :: byte) = unat cur + 1"
proof -
  assume "cur \<noteq> 255"
  then have "unat cur \<noteq> 255" using word_eqI_unat [of cur 255] by auto
  then have "unat cur + 1 < 256" using unat_byte_less [of cur] by simp
  then show ?thesis by (simp add: unat_word_ariths)
qed

lemma roundList_next:
  assumes "cur \<noteq> 255"
  shows "roundList (cur + 1) = roundList cur @ [cur + 1]"
proof -
  have "word_of_nat (unat cur + 1) = cur + 1" by simp
  then show ?thesis using unat_next [OF assms] by (simp add: roundList_def)
qed

lemma in_roundList: "r \<in> set (roundList cur) \<longleftrightarrow> r \<noteq> 0 \<and> r \<le> cur"
proof
  assume "r \<in> set (roundList cur)"
  then obtain n where n: "1 \<le> n" "n \<le> unat cur" "r = word_of_nat n" by (auto simp: roundList_def)
  then have "unat r = n" using unat_byte_less [of cur] by (simp add: unat_byte_of_nat)
  with n show "r \<noteq> 0 \<and> r \<le> cur" by (auto simp: word_le_nat_alt)
next
  assume "r \<noteq> 0 \<and> r \<le> cur"
  then have "unat r \<noteq> 0" "unat r \<le> unat cur" "r = word_of_nat (unat r)"
    by (auto simp: word_le_nat_alt unat_eq_0)
  then have "unat r \<in> {1..<unat cur + 1}" "r = word_of_nat (unat r)" by auto
  then show "r \<in> set (roundList cur)" unfolding roundList_def set_map set_upt by blast
qed

lemma next_not_in: "cur \<noteq> 255 \<Longrightarrow> cur + 1 \<notin> set (roundList cur)"
  using unat_next [of cur] by (auto simp: in_roundList word_le_nat_alt)

lemma roundInv_new: "roundInv env acc ph fm q r (newRound now r reason prop)"
  by (simp add: roundInv_def stateInv_def votesInv_def quorumInv_def ownAck_def ownPrecommit_def ownCommit_def
      newRound_def state_order)

lemma blockInv_newRound:
  assumes "blockInv env acc ph b" and "r = currentRound b + 1"
  shows "blockInv env acc ph (b\<lparr>blockRoundMap := mput r (newRound now r reason prop) (blockRoundMap b), currentRound := r\<rparr>)"
    (is "blockInv env acc ph ?b")
proof -
  have "wrapped ?b \<or> fst ` set (blockRoundMap ?b) = set (roundList (currentRound ?b))"
  proof (cases "wrapped b \<or> currentRound b = 255")
    case True
    then show ?thesis using assms(2) by (auto simp: wrapped_def mhas_mput)
  next
    case False
    then have "fst ` set (blockRoundMap b) = set (roundList (currentRound b))" using assms(1) by (simp add: blockInv_def)
    with False assms(2) roundList_next [of "currentRound b"] show ?thesis by (simp add: fst_set_mput)
  qed
  with assms(1) show ?thesis
    by (auto simp: blockInv_def mget_mput roundInv_new)
qed

lemma blockGrows_newRound:
  assumes "blockInv env acc ph b" and "r = currentRound b + 1"
  shows "blockGrows b (b\<lparr>blockRoundMap := mput r (newRound now r reason prop) (blockRoundMap b), currentRound := r\<rparr>)"
    (is "blockGrows b ?b")
proof (cases "wrapped b \<or> currentRound b = 255")
  case True
  then have "wrapped ?b" using assms(2) by (auto simp: wrapped_def mhas_mput)
  then show ?thesis by (auto simp: blockGrows_def fst_set_mput)
next
  case False
  then have "fst ` set (blockRoundMap b) = set (roundList (currentRound b))" using assms(1) by (simp add: blockInv_def)
  then have "r \<notin> fst ` set (blockRoundMap b)" using False assms(2) next_not_in by simp
  then have "mget (blockRoundMap b) r = None" by (simp add: mget_None_iff)
  then show ?thesis by (auto simp: blockGrows_def fst_set_mput mget_mput)
qed

lemma initializeNewBlockRound_keeps: "keeps env h (fst (initializeNewBlockRound env now reason h))"
proof (cases "mget (blockStateDetailsMap h) (currentParentHash h)")
  case (Some b)
  let ?r = "currentRound b + 1"
  let ?b = "\<lambda>a. b\<lparr>blockRoundMap := mput ?r (newRound now ?r reason a) (blockRoundMap b), currentRound := ?r\<rparr>"
  have "hinv env (putBlock (currentParentHash h) (?b a) h) \<and> grows h (putBlock (currentParentHash h) (?b a) h)"
    if h: "hinv env h" for a
  proof -
    have bi: "blockInv env (account h) (currentParentHash h) b" using h Some by (simp add: hinv_def)
    show ?thesis
      using h Some blockInv_newRound [OF bi refl] blockGrows_newRound [OF bi refl]
      by (auto simp: hinv_def grows_def putBlock_def early_ok_def mget_mput wfm_mput option.rel_refl)
  qed
  then have "keeps env h (putBlock (currentParentHash h) (?b a) h)" for a
    by (simp add: keeps_def putBlock_def)
  with Some show ?thesis by (simp add: initializeNewBlockRound_def Let_def split: sum.split)
qed (simp add: initializeNewBlockRound_def)

section \<open>Acknowledgements\<close>

lemma selfAck_Inr:
  assumes "selfAck env ph vote x b rd h = Inr rd1"
  shows "\<exists>packet d. ARound d = currentRound b \<and> ProposalAckVoteType d = vote \<and>
    rd1 = rd\<lparr>proposalAckPackets := mput (account h) (NewConsensusPacket packet) (proposalAckPackets rd),
      validatorProposalAcks := mput (account h) d (validatorProposalAcks rd),
      selfAckd := True, selfAckPacket := Some packet, selfAckProposalVoteType := vote\<rparr>"
proof -
  obtain packet where "rd1 = rd\<lparr>proposalAckPackets := mput (account h) (NewConsensusPacket packet) (proposalAckPackets rd),
      validatorProposalAcks := mput (account h) \<lparr>ProposalHash = x, ProposalAckVoteType = vote, ARound = currentRound b\<rparr>
        (validatorProposalAcks rd),
      selfAckd := True, selfAckPacket := Some packet, selfAckProposalVoteType := vote\<rparr>"
    using assms by (auto simp: selfAck_def Let_def split: sum.splits)
  then show ?thesis
    by (intro exI [of _ packet] exI [of _ "\<lparr>ProposalHash = x, ProposalAckVoteType = vote, ARound = currentRound b\<rparr>"]) simp
qed

lemma roundInv_selfAck:
  assumes "roundInv env acc ph fm q r rd" and "\<not> selfAckd rd" and "mhas fm acc"
    and "ARound d = r" and "ProposalAckVoteType d = vote" and "validVote r vote"
    and "rd1 = rd\<lparr>proposalAckPackets := p, validatorProposalAcks := mput acc d (validatorProposalAcks rd),
      selfAckd := True, selfAckPacket := Some packet, selfAckProposalVoteType := vote\<rparr>"
    and "rd2 = rd1 \<or> rd2 = rd1\<lparr>blockVoteType := w\<rparr>"
  shows "roundInv env acc ph fm q r rd2 \<and> extends rd rd2"
proof
  note i = roundInvD [OF assms(1)]
  have nd: "\<not> state rd \<ge> WAITING_FOR_PRECOMMITS" using i(1) assms(2) by (auto simp: stateInv_def)
  note un = undecided [OF assms(1) nd]
  have f: "state rd2 = state rd" "Round rd2 = Round rd" "blockProposalDetails rd2 = blockProposalDetails rd"
    "validatorProposalAcks rd2 = mput acc d (validatorProposalAcks rd)"
    "validatorPrecommits rd2 = []" "validatorCommits rd2 = []" "selfPrecommitPacket rd2 = None"
    "selfCommitPacket rd2 = None" "\<not> selfPrecommited rd2" "\<not> selfCommited rd2" "selfAckd rd2"
    "selfAckPacket rd2 = Some packet" "selfAckProposalVoteType rd2 = vote"
    using assms(7,8) un by auto
  have ns: "\<not> state rd \<ge> WAITING_FOR_COMMITS" "state rd \<noteq> RECEIVED_COMMITS" using un(7) by (auto simp: state_order)
  show "roundInv env acc ph fm q r rd2"
  proof (rule roundInvI)
    show "votesInv env fm r rd2" using i(2) f assms(3-6) by (simp add: votesInv_def votesOk_put)
  qed (use i f nd ns assms(6) in \<open>simp_all add: stateInv_def quorumInv_def ownAck_def ownPrecommit_def ownCommit_def mhas_mput\<close>)
  have "selfAckPacket rd = None" using i(4) assms(2) by (simp add: ownAck_def)
  then show "extends rd rd2" using f un nd by (simp add: extends_def)
qed

lemma roundInv_decide:
  assumes "roundInv env acc ph fm q r rd" and "\<not> state rd \<ge> WAITING_FOR_PRECOMMITS" and "selfAckd rd"
    and "decided env ph r rd'"
    and "rd' = rd\<lparr>state := WAITING_FOR_PRECOMMITS, precommitInitTime := t, blockVoteType := v, precommitHash := x\<rparr>"
  shows "roundInv env acc ph fm q r rd' \<and> extends rd rd'"
proof
  note i = roundInvD [OF assms(1)] and un = undecided [OF assms(1,2)]
  show "roundInv env acc ph fm q r rd'"
  proof (rule roundInvI)
    show "stateInv env ph r rd'" using i(1) assms(3-5) by (simp add: stateInv_def)
  qed (use i un assms(3,5) in \<open>simp_all add: votesInv_def quorumInv_def ownAck_def ownPrecommit_def ownCommit_def state_order\<close>)
  show "extends rd rd'" using un(7) by (auto simp: extends_def assms(5) state_order)
qed

lemma roundInv_nilPrecommit:
  assumes "roundInv env acc ph fm q (currentRound b) rd" and "\<not> state rd \<ge> WAITING_FOR_PRECOMMITS" and "selfAckd rd"
  shows "roundInv env acc ph fm q (currentRound b) (nilPrecommit env now ph b rd) \<and> extends rd (nilPrecommit env now ph b rd)"
  by (rule roundInv_decide [OF assms]) (simp_all add: decided_def nilPrecommit_def)

lemma roundInv_okPrecommit:
  assumes "roundInv env acc ph fm q (currentRound b) rd" and "state rd = WAITING_FOR_PROPOSAL_ACKS" and "selfAckd rd"
    and "selfAckProposalVoteType rd = VOTE_TYPE_OK"
  shows "roundInv env acc ph fm q (currentRound b) (okPrecommit env now ph b rd) \<and> extends rd (okPrecommit env now ph b rd)"
proof -
  note i = roundInvD [OF assms(1)]
  have "validVote (currentRound b) VOTE_TYPE_OK" using i(4) assms(3,4) by (simp add: ownAck_def)
  then have "\<not> currentRound b \<ge> MAX_ROUND" by (auto simp: validVote_def)
  moreover have "blockProposalDetails rd \<noteq> None" using i(1) assms(2) by (simp add: stateInv_def)
  ultimately have d: "decided env ph (currentRound b) (okPrecommit env now ph b rd)"
    by (simp add: decided_def okPrecommit_def)
  have "\<not> state rd \<ge> WAITING_FOR_PRECOMMITS" using assms(2) by (simp add: state_order)
  moreover have "okPrecommit env now ph b rd = rd\<lparr>state := WAITING_FOR_PRECOMMITS, precommitInitTime := now,
      blockVoteType := VOTE_TYPE_OK,
      precommitHash := getOkVotePreCommitHash env ph (proposalHash rd) (currentRound b)\<rparr>"
    by (cases rd) (simp add: okPrecommit_def)
  ultimately show ?thesis by (rule roundInv_decide [OF assms(1) _ assms(3) d])
qed

text \<open>A changed copy of the current round that may be written back.\<close>

definition goodRound :: "penv \<Rightarrow> consensusHandler \<Rightarrow> hash \<Rightarrow> blockState \<Rightarrow> roundDetails \<Rightarrow> roundDetails \<Rightarrow> bool" where
  "goodRound env h ph b rd0 rd \<longleftrightarrow>
    mget (blockStateDetailsMap h) ph = Some b \<and> mget (blockRoundMap b) (currentRound b) = Some rd0 \<and>
    (roundInv env (account h) ph (filteredValidatorsDepositMap b) (blockMinWeightedProposalsRequired b)
        (currentRound b) rd0 \<longrightarrow>
     roundInv env (account h) ph (filteredValidatorsDepositMap b) (blockMinWeightedProposalsRequired b)
        (currentRound b) rd \<and> extends rd0 rd)"

lemma goodRoundI:
  "mget (blockStateDetailsMap h) ph = Some b \<Longrightarrow> mget (blockRoundMap b) (currentRound b) = Some rd \<Longrightarrow>
    goodRound env h ph b rd rd"
  by (simp add: goodRound_def)

lemma goodRound_step:
  assumes "goodRound env h ph b rd0 rd"
    and "roundInv env (account h) ph (filteredValidatorsDepositMap b) (blockMinWeightedProposalsRequired b)
        (currentRound b) rd \<Longrightarrow>
      roundInv env (account h) ph (filteredValidatorsDepositMap b) (blockMinWeightedProposalsRequired b)
        (currentRound b) rd' \<and> extends rd rd'"
  shows "goodRound env h ph b rd0 rd'"
  using assms extends_trans unfolding goodRound_def by blast

lemma goodRound_frame: "goodRound env h ph b rd0 rd \<Longrightarrow> frame h h' \<Longrightarrow> goodRound env h' ph b rd0 rd"
  by (simp add: goodRound_def frame_def)

lemma goodRound_store:
  "goodRound env h ph b rd0 rd \<Longrightarrow> sameBlock b b' \<Longrightarrow> keeps env h (storeRound ph b' rd h)"
  unfolding goodRound_def by (blast intro: keeps_storeRound)

lemma finishAck_keeps:
  "goodRound env h ph b rd0 rd \<Longrightarrow> sameBlock b b' \<Longrightarrow> keeps env h (fst (finishAck env now ph b' rd h))"
  by (rule keeps_trans [OF goodRound_store keeps_frame [OF finishAck_frame]])

lemma nextRound_keeps:
  "goodRound env h ph b rd0 rd \<Longrightarrow>
    keeps env h (fst (initializeNewBlockRound env now reason (storeRound ph b rd h)))"
  by (rule keeps_trans [OF goodRound_store [OF _ sameBlock_refl] initializeNewBlockRound_keeps])

lemma followLaterRound_keeps:
  "goodRound env h ph b rd0 rd \<Longrightarrow> keeps env h (fst (followLaterRound env now ph b rd h))"
  using goodRound_store finishAck_keeps nextRound_keeps
  by (simp add: followLaterRound_def split: sum.split bool.split)

lemma countTimeout_keeps:
  assumes "goodRound env h ph b rd0 rd" and "\<not> state rd \<ge> WAITING_FOR_PRECOMMITS" and "selfAckd rd"
  shows "keeps env h (fst (countTimeout env now ph b rd h))"
proof -
  have "goodRound env h ph b rd0 (nilPrecommit env now ph b rd)"
    by (rule goodRound_step [OF assms(1)], rule roundInv_nilPrecommit [OF _ assms(2,3)])
  then show ?thesis
    using goodRound_store [OF assms(1)] finishAck_keeps [OF _ sameBlock_refl] assms(1) nextRound_keeps [OF assms(1)]
      followLaterRound_keeps [OF assms(1)]
    by (simp add: countTimeout_def split: sum.split prod.split)
qed

lemma ackBlockProposalTimeout_keeps:
  assumes "\<And>b rd. mget (blockStateDetailsMap h) ph = Some b \<Longrightarrow> mget (blockRoundMap b) (currentRound b) = Some rd \<Longrightarrow>
    mhas (filteredValidatorsDepositMap b) (account h) \<and> \<not> state rd \<ge> WAITING_FOR_PRECOMMITS"
  shows "keeps env h (fst (ackBlockProposalTimeout env now ph h))"
proof (cases "mget (blockStateDetailsMap h) ph")
  case (Some b)
  note b = Some
  show ?thesis
  proof (cases "mget (blockRoundMap b) (currentRound b)")
    case (Some rd)
    note a = assms [OF b Some] and g = goodRoundI [OF b Some, of env]
    show ?thesis
    proof (cases "selfAckd rd")
      case True
      with b Some countTimeout_keeps [OF g] a show ?thesis
        by (simp add: ackBlockProposalTimeout_def withRound_def)
    next
      case False
      have "keeps env h (fst (countTimeout env now ph b (rd1\<lparr>blockVoteType := VOTE_TYPE_NIL\<rparr>) h))"
        if s: "selfAck env ph VOTE_TYPE_NIL x b rd h = Inr rd1" for x rd1
      proof -
        obtain packet d where d: "ARound d = currentRound b" "ProposalAckVoteType d = VOTE_TYPE_NIL"
          "rd1 = rd\<lparr>proposalAckPackets := mput (account h) (NewConsensusPacket packet) (proposalAckPackets rd),
            validatorProposalAcks := mput (account h) d (validatorProposalAcks rd),
            selfAckd := True, selfAckPacket := Some packet, selfAckProposalVoteType := VOTE_TYPE_NIL\<rparr>"
          using selfAck_Inr [OF s] by blast
        have v: "validVote (currentRound b) VOTE_TYPE_NIL" by (simp add: validVote_def)
        have "goodRound env h ph b rd (rd1\<lparr>blockVoteType := VOTE_TYPE_NIL\<rparr>)"
          by (rule goodRound_step [OF g], rule roundInv_selfAck [OF _ False _ d(1,2) v d(3)]) (use a in auto)
        then show ?thesis by (rule countTimeout_keeps) (use a d(3) in simp_all)
      qed
      with b Some False show ?thesis
        by (simp add: ackBlockProposalTimeout_def withRound_def split: sum.split)
    qed
  qed (use b in \<open>simp add: ackBlockProposalTimeout_def withRound_def\<close>)
qed (simp add: ackBlockProposalTimeout_def withRound_def)

lemma countAck_keeps:
  assumes "goodRound env h ph b rd0 rd" and "state rd = WAITING_FOR_PROPOSAL_ACKS" and "selfAckd rd"
  shows "keeps env h (fst (countAck env now ph b rd h))"
proof -
  have st: "\<not> state rd \<ge> WAITING_FOR_PRECOMMITS" using assms(2) by (simp add: state_order)
  have n: "goodRound env h ph b rd0 (nilPrecommit env now ph b rd)"
    by (rule goodRound_step [OF assms(1)], rule roundInv_nilPrecommit [OF _ st assms(3)])
  have o: "goodRound env h ph b rd0 (okPrecommit env now ph b rd)" if "selfAckProposalVoteType rd = VOTE_TYPE_OK"
    by (rule goodRound_step [OF assms(1)], rule roundInv_okPrecommit [OF _ assms(2,3) that])
  have sb: "sameBlock b (b\<lparr>ackProposalTime := Elapsed now (block_initTime b)\<rparr>)" by (simp add: sameBlock_def)
  show ?thesis
    using goodRound_store [OF assms(1)] finishAck_keeps [OF o sb] finishAck_keeps [OF n sameBlock_refl]
      nextRound_keeps [OF assms(1)] followLaterRound_keeps [OF assms(1)]
    by (simp add: countAck_def split: sum.split prod.split)
qed

lemma keepsI: "(hinv env h \<Longrightarrow> keeps env h h') \<Longrightarrow> keeps env h h'"
  by (simp add: keeps_def)

lemma keeps_thenFrame:
  assumes "frame h (fst r)" and "\<And>h'. frame h h' \<Longrightarrow> keeps env h' (fst (f h'))"
  shows "keeps env h (fst (thenAlways r f))"
  using assms by (intro keeps_thenAlways) (auto intro: keeps_frame)

lemma firstAck_Inr:
  assumes "firstAck env ph b rd h = (h1, Inr rd1)"
  shows "state rd = WAITING_FOR_PROPOSAL_ACKS" and "frame h h1"
    and "\<exists>vote x. validVote (currentRound b) vote \<and> selfAck env ph vote x b rd h1 = Inr rd1"
proof -
  show "state rd = WAITING_FOR_PROPOSAL_ACKS" "frame h h1"
    using assms by (auto simp: firstAck_def Let_def frame_def send_def split: if_splits option.splits)
  show "\<exists>vote x. validVote (currentRound b) vote \<and> selfAck env ph vote x b rd h1 = Inr rd1"
    using assms by (fastforce simp: firstAck_def Let_def validVote_def split: if_splits option.splits)
qed

lemma firstAck_frame: "firstAck env ph b rd h = (h1, r) \<Longrightarrow> frame h h1"
  by (auto simp: firstAck_def Let_def frame_def send_def split: if_splits option.splits)

lemma ackBlockProposal_keeps:
  assumes "\<And>b rd. mget (blockStateDetailsMap h) ph = Some b \<Longrightarrow> mget (blockRoundMap b) (currentRound b) = Some rd \<Longrightarrow>
    mhas (filteredValidatorsDepositMap b) (account h) \<and> state rd = WAITING_FOR_PROPOSAL_ACKS"
  shows "keeps env h (fst (ackBlockProposal env now ph h))"
proof (cases "mget (blockStateDetailsMap h) ph")
  case (Some b)
  note b = Some
  show ?thesis
  proof (cases "mget (blockRoundMap b) (currentRound b)")
    case (Some rd)
    note a = assms [OF b Some] and g = goodRoundI [OF b Some, of env]
    show ?thesis
    proof (cases "selfAckd rd")
      case True
      have "keeps env h1 (fst (countAck env now ph b rd h1))" if "frame h h1" for h1
        by (rule countAck_keeps [OF goodRound_frame [OF g that]]) (use a True in simp_all)
      note c = this
      have "keeps env h (fst (thenAlways (if p then broadCast env now x h else (h, None)) (countAck env now ph b rd)))"
        for p x
        by (rule keeps_thenFrame [OF _ c]) (simp_all add: broadCast_frame)
      with b Some True show ?thesis
        by (simp add: ackBlockProposal_def withRound_def split: sum.split)
    next
      case False
      obtain h1 r where f: "firstAck env ph b rd h = (h1, r)" by (cases "firstAck env ph b rd h")
      note fr = firstAck_frame [OF f]
      have "keeps env h (fst (countAck env now ph b rd1 h1))" if r: "r = Inr rd1" for rd1
      proof -
        obtain vote x where v: "validVote (currentRound b) vote" "selfAck env ph vote x b rd h1 = Inr rd1"
          using firstAck_Inr(3) [OF f [unfolded r]] by blast
        obtain packet d where d: "ARound d = currentRound b" "ProposalAckVoteType d = vote"
          "rd1 = rd\<lparr>proposalAckPackets := mput (account h1) (NewConsensusPacket packet) (proposalAckPackets rd),
            validatorProposalAcks := mput (account h1) d (validatorProposalAcks rd),
            selfAckd := True, selfAckPacket := Some packet, selfAckProposalVoteType := vote\<rparr>"
          using selfAck_Inr [OF v(2)] by blast
        have acc: "account h1 = account h" using fr by (simp add: frame_def)
        have "goodRound env h1 ph b rd rd1"
          by (rule goodRound_step [OF goodRound_frame [OF g fr]], rule roundInv_selfAck [OF _ False _ d(1,2) v(1) d(3)])
            (use a acc in auto)
        then have "keeps env h1 (fst (countAck env now ph b rd1 h1))"
          by (rule countAck_keeps) (use a d(3) in simp_all)
        then show ?thesis by (rule keeps_trans [OF keeps_frame [OF fr]])
      qed
      with b Some False f fr keeps_frame show ?thesis
        by (simp add: ackBlockProposal_def withRound_def split: sum.split)
    qed
  qed (use b in \<open>simp add: ackBlockProposal_def withRound_def\<close>)
qed (simp add: ackBlockProposal_def withRound_def)

section \<open>Proposals, precommits and commits\<close>

lemma proposeBlock_keeps: "keeps env h (fst (proposeBlock env now ph txns n h))"
proof -
  have "keeps env h (fst (andThen (handleProposeBlockPacket env now (account h) p True h) (broadCast env now (Some p))))" for p
    by (rule keeps_andThen [OF handleProposeBlockPacket_keeps]) (rule keeps_frame [OF broadCast_frame])
  moreover have "keeps env h (fst (broadCast env now p h))" for p by (rule keeps_frame [OF broadCast_frame])
  ultimately show ?thesis
    by (simp add: proposeBlock_def withRound_def split: option.split sum.split)
qed

lemma createPacket_ParentHash: "createPacket env ph t v f h = Inr p \<Longrightarrow> ParentHash p = ph"
  by (auto simp: createPacket_def createConsensusPacket_def split: sum.splits option.splits if_splits)

text \<open>The node's own packet is counted in the block it was made for.\<close>

lemma ownPrecommit_keeps:
  assumes "mget (blockStateDetailsMap h) ph = Some b" and "mget (blockRoundMap b) (currentRound b) = Some rd"
    and "frame h h'" and "ParentHash packet = ph" and "kept (selfPrecommitPacket rd) (Some packet)"
  shows "keeps env h' (fst (handlePrecommitPacket now (account h') packet True h'))"
  by (rule handlePrecommitPacket_keeps) (use assms in \<open>auto simp: frame_def\<close>)

lemma ownCommit_keeps:
  assumes "mget (blockStateDetailsMap h) ph = Some b" and "mget (blockRoundMap b) (currentRound b) = Some rd"
    and "frame h h'" and "ParentHash packet = ph" and "kept (selfCommitPacket rd) (Some packet)"
  shows "keeps env h' (fst (handleCommitPacket env now (account h') packet True h'))"
  by (rule handleCommitPacket_keeps) (use assms in \<open>auto simp: frame_def\<close>)

lemma hinv_round:
  assumes "hinv env h" and "mget (blockStateDetailsMap h) ph = Some b" and "mget (blockRoundMap b) r = Some rd"
  shows "roundInv env (account h) ph (filteredValidatorsDepositMap b) (blockMinWeightedProposalsRequired b) r rd"
  using assms by (simp add: hinv_def blockInv_def)

lemma precommitBlock_keeps: "keeps env h (fst (precommitBlock env now ph h))"
proof (rule keepsI, cases "mget (blockStateDetailsMap h) ph")
  case (Some b)
  note b = Some
  assume hi: "hinv env h"
  show ?thesis
  proof (cases "mget (blockRoundMap b) (currentRound b)")
    case (Some rd)
    note rd = Some
    have own: "ownPrecommit (account h) ph (currentRound b) rd" by (rule roundInvD(5) [OF hinv_round [OF hi b rd]])
    have bf: "frame h1 (fst (broadCast env now x h1))" for h1 x by (rule broadCast_frame)
    have again: "keeps env h (fst (thenAlways (broadCast env now (selfAckPacket rd) h) (\<lambda>h1.
        thenAlways (broadCast env now (selfPrecommitPacket rd) h1) (\<lambda>h2.
          case selfPrecommitPacket rd of None \<Rightarrow> (h2, Some nilPanic)
          | Some packet \<Rightarrow> handlePrecommitPacket now (account h2) packet True h2))))"
    proof (rule keeps_thenFrame [OF bf], rule keeps_thenFrame [OF bf])
      fix h1 h2
      assume "frame h h1" "frame h1 h2"
      then have "frame h h2" by (rule frame_trans)
      then show "keeps env h2 (fst (case selfPrecommitPacket rd of None \<Rightarrow> (h2, Some nilPanic)
          | Some packet \<Rightarrow> handlePrecommitPacket now (account h2) packet True h2))"
        using ownPrecommit_keeps [OF b rd] own by (auto simp: ownPrecommit_def split: option.split)
    qed
    have new: "keeps env h (fst (andThen (handlePrecommitPacket now (account h) packet True h) (\<lambda>h1.
        thenAlways (broadCast env now (selfAckPacket rd) h1) (broadCast env now (Some packet)))))"
      if "createPacket env ph t v f h = Inr packet" "\<not> selfPrecommited rd" for packet t v f
    proof (rule keeps_andThen)
      show "keeps env h (fst (handlePrecommitPacket now (account h) packet True h))"
        using ownPrecommit_keeps [OF b rd frame_refl createPacket_ParentHash [OF that(1)]] own that(2)
        by (simp add: ownPrecommit_def)
    qed (rule keeps_thenFrame [OF bf keeps_frame [OF bf]])
    show ?thesis
      using b rd again new by (simp add: precommitBlock_def withRound_def split: sum.split)
  qed (use b in \<open>simp add: precommitBlock_def withRound_def\<close>)
qed (simp add: precommitBlock_def withRound_def)

lemma commitBlock_keeps: "keeps env h (fst (commitBlock env now ph h))"
proof (rule keepsI, cases "mget (blockStateDetailsMap h) ph")
  case (Some b)
  note b = Some
  assume hi: "hinv env h"
  show ?thesis
  proof (cases "mget (blockRoundMap b) (currentRound b)")
    case (Some rd)
    note rd = Some
    have own: "ownCommit env (account h) ph (currentRound b) rd" by (rule roundInvD(6) [OF hinv_round [OF hi b rd]])
    have bf: "frame h1 (fst (broadCast env now x h1))" for h1 x by (rule broadCast_frame)
    have again: "keeps env h (fst (thenAlways (broadCast env now (selfAckPacket rd) h) (\<lambda>h1.
        thenAlways (broadCast env now (selfPrecommitPacket rd) h1) (\<lambda>h2.
          thenAlways (broadCast env now (selfCommitPacket rd) h2) (\<lambda>h3.
            case selfCommitPacket rd of None \<Rightarrow> (h3, Some nilPanic)
            | Some packet \<Rightarrow> handleCommitPacket env now (account h3) packet True h3)))))"
    proof (rule keeps_thenFrame [OF bf], rule keeps_thenFrame [OF bf], rule keeps_thenFrame [OF bf])
      fix h1 h2 h3
      assume "frame h h1" "frame h1 h2" "frame h2 h3"
      then have "frame h h3" by (blast intro: frame_trans)
      then show "keeps env h3 (fst (case selfCommitPacket rd of None \<Rightarrow> (h3, Some nilPanic)
          | Some packet \<Rightarrow> handleCommitPacket env now (account h3) packet True h3))"
        using ownCommit_keeps [OF b rd] own by (auto simp: ownCommit_def split: option.split)
    qed
    have new: "keeps env h (fst (andThen (handleCommitPacket env now (account h) packet True h) (broadCast env now (Some packet))))"
      if "createPacket env ph t v f h = Inr packet" "\<not> selfCommited rd" for packet t v f
    proof (rule keeps_andThen)
      show "keeps env h (fst (handleCommitPacket env now (account h) packet True h))"
        using ownCommit_keeps [OF b rd frame_refl createPacket_ParentHash [OF that(1)]] own that(2)
        by (simp add: ownCommit_def)
    qed (rule keeps_frame [OF bf])
    show ?thesis
      using b rd again new by (simp add: commitBlock_def withRound_def split: sum.split)
  qed (use b in \<open>simp add: commitBlock_def withRound_def\<close>)
qed (simp add: commitBlock_def withRound_def)

section \<open>The step of the engine\<close>

lemma roundInv_learn:
  assumes "roundInv env acc ph fm q r rd"
  shows "roundInv env acc ph fm q r (learnTxns txns rd) \<and> extends rd (learnTxns txns rd)"
proof
  note i = roundInvD [OF assms]
  show "roundInv env acc ph fm q r (learnTxns txns rd)"
  proof (rule roundInvI)
    show "stateInv env ph r (learnTxns txns rd)" using i(1) by (simp add: stateInv_def decided_def learnTxns_def)
    show "votesInv env fm r (learnTxns txns rd)" using i(2) by (simp add: votesInv_def learnTxns_def)
    show "quorumInv fm q (learnTxns txns rd)" using i(3) by (simp add: quorumInv_def learnTxns_def)
    show "ownAck acc r (learnTxns txns rd)" using i(4) by (simp add: ownAck_def learnTxns_def)
    show "ownPrecommit acc ph r (learnTxns txns rd)" using i(5) by (simp add: ownPrecommit_def learnTxns_def)
    show "ownCommit env acc ph r (learnTxns txns rd)" using i(6) by (simp add: ownCommit_def learnTxns_def)
  qed
qed (simp add: extends_def learnTxns_def)

text \<open>The block and the round after the transactions of the call are recorded.\<close>

lemma learn_lookup:
  assumes "frame (putBlock ph (putRound (learnTxns txns rd) b) h) h1" and "mget (blockStateDetailsMap h1) ph = Some b1"
    and "mget (blockRoundMap b1) (currentRound b1) = Some rd1"
  shows "filteredValidatorsDepositMap b1 = filteredValidatorsDepositMap b" and "state rd1 = state rd"
    and "account h1 = account h"
  using assms by (auto simp: frame_def putBlock_def putRound_def learnTxns_def mget_mput)

lemma consensusStep_keeps:
  assumes "\<And>b. mget (blockStateDetailsMap h) ph = Some b \<Longrightarrow> mhas (filteredValidatorsDepositMap b) (account h)"
  shows "keeps env h (fst (consensusStep env now ph txns n shouldPropose h))"
proof (cases "mget (blockStateDetailsMap h) ph")
  case (Some b)
  note b = Some
  show ?thesis
  proof (cases "mget (blockRoundMap b) (currentRound b)")
    case (Some rd)
    note rd = Some
    let ?h = "putBlock ph (putRound (learnTxns txns rd) b) h"
    have kl: "keeps env h ?h"
      using keeps_storeRound [OF b sameBlock_refl rd roundInv_learn] by (simp add: storeRound_def)
    note ll = learn_lookup [of ph txns rd b h]
    have to: "keeps env h1 (fst (ackBlockProposalTimeout env now ph h1))"
      if "frame ?h h1" "\<not> state rd \<ge> WAITING_FOR_PRECOMMITS" for h1
    proof (rule ackBlockProposalTimeout_keeps)
      fix b1 rd1
      assume l: "mget (blockStateDetailsMap h1) ph = Some b1" "mget (blockRoundMap b1) (currentRound b1) = Some rd1"
      show "mhas (filteredValidatorsDepositMap b1) (account h1) \<and> \<not> state rd1 \<ge> WAITING_FOR_PRECOMMITS"
        using ll [OF that(1) l] that(2) assms [OF b] by simp
    qed
    have ak: "keeps env h1 (fst (ackBlockProposal env now ph h1))"
      if "frame ?h h1" "state rd = WAITING_FOR_PROPOSAL_ACKS" for h1
    proof (rule ackBlockProposal_keeps)
      fix b1 rd1
      assume l: "mget (blockStateDetailsMap h1) ph = Some b1" "mget (blockRoundMap b1) (currentRound b1) = Some rd1"
      show "mhas (filteredValidatorsDepositMap b1) (account h1) \<and> state rd1 = WAITING_FOR_PROPOSAL_ACKS"
        using ll [OF that(1) l] that(2) assms [OF b] by simp
    qed
    have rf: "frame h1 (fst (requestConsensusData env now b1 h1))" for h1 b1 by (rule requestConsensusData_frame)
    note rq = keeps_frame [OF rf]
    have s1: "keeps env h (fst (if shouldPropose then proposeBlock env now ph txns n ?h
         else if c then ackBlockProposalTimeout env now ph ?h
         else requestConsensusData env now b1 ?h))" if "state rd = WAITING_FOR_PROPOSAL" for c b1
    proof -
      have "\<not> state rd \<ge> WAITING_FOR_PRECOMMITS" using that by (simp add: state_order)
      note to1 = keeps_trans [OF kl to [OF frame_refl this]]
      show ?thesis
        by (simp add: to1 keeps_trans [OF kl proposeBlock_keeps] keeps_trans [OF kl rq])
    qed
    have s2: "keeps env h (fst (thenAlways (requestConsensusData env now b1 ?h)
         (if c then ackBlockProposalTimeout env now ph else ackBlockProposal env now ph)))"
      if "state rd = WAITING_FOR_PROPOSAL_ACKS" for c b1
    proof (rule keeps_trans [OF kl], rule keeps_thenFrame [OF rf])
      fix h1
      assume f: "frame ?h h1"
      have "\<not> state rd \<ge> WAITING_FOR_PRECOMMITS" using that by (simp add: state_order)
      then show "keeps env h1 (fst ((if c then ackBlockProposalTimeout env now ph else ackBlockProposal env now ph) h1))"
        by (simp add: to [OF f] ak [OF f that])
    qed
    have s3: "keeps env h (fst (notReady (thenAlways (requestConsensusData env now b h) (precommitBlock env now ph))))"
      by (rule keeps_notReady, rule keeps_thenFrame [OF rf precommitBlock_keeps])
    have s4: "keeps env h (fst (notReady (thenAlways (requestConsensusData env now b h) (commitBlock env now ph))))"
      by (rule keeps_notReady, rule keeps_thenFrame [OF rf commitBlock_keeps])
    have s5: "keeps env h (fst (thenAlways (broadCast env now x h) (\<lambda>h2. (h2, None))))" for x
      by (rule keeps_thenFrame [OF broadCast_frame]) simp
    show ?thesis
    proof (cases "state rd")
      case WAITING_FOR_PROPOSAL
      with b rd keeps_notReady [OF s1] show ?thesis by (simp add: consensusStep_def withRound_def Let_def)
    next
      case WAITING_FOR_PROPOSAL_ACKS
      with b rd keeps_notReady [OF s2] show ?thesis by (simp add: consensusStep_def withRound_def Let_def)
    next
      case WAITING_FOR_PRECOMMITS
      with b rd s3 initializeNewBlockRound_keeps show ?thesis
        by (simp add: consensusStep_def withRound_def Let_def split: sum.split bool.split)
    qed (use b rd s4 s5 in \<open>simp_all add: consensusStep_def withRound_def Let_def\<close>)
  qed (use b in \<open>simp add: consensusStep_def withRound_def\<close>)
qed (simp add: consensusStep_def withRound_def)

end
