(* ===== verification/Pos_Runs.thy ===== *)
theory Pos_Runs
  imports Pos_Votes
begin

text \<open>
  New blocks, the calls of the engine, and the runs of a node. The invariants of
  \<open>Pos_Invariants\<close> hold in every state that a node can reach, and as long as the state of a block
  is kept, its rounds only grow: votes, decisions and recorded votes of others stay.
\<close>

section \<open>New blocks\<close>

text \<open>
  What is relied on of the staking contract: the validators are a map from addresses to deposits
  that are not negative.
\<close>

definition env_ok :: "penv \<Rightarrow> bool" where
  "env_ok env \<longleftrightarrow> (\<forall>ph m. getValidatorsFn env ph = Inr m \<longrightarrow> deposits_ok m)"

text \<open>A state on the way to a new block \<open>ph\<close>: the other blocks are as before.\<close>

definition creates :: "penv \<Rightarrow> hash \<Rightarrow> consensusHandler \<Rightarrow> consensusHandler \<Rightarrow> bool" where
  "creates env ph h h' \<longleftrightarrow> account h' = account h \<and> hinv env h' \<and>
    (\<forall>k b. k \<noteq> ph \<longrightarrow> mget (blockStateDetailsMap h) k = Some b \<longrightarrow>
      (\<exists>b'. mget (blockStateDetailsMap h') k = Some b' \<and> blockGrows b b'))"

lemma creates_refl: "hinv env h \<Longrightarrow> creates env ph h h"
  by (simp add: creates_def)

lemma creates_put:
  "creates env ph h h' \<Longrightarrow> blockInv env (account h) ph b \<Longrightarrow> creates env ph h (putBlock ph b h')"
  by (auto simp: creates_def hinv_def early_ok_def putBlock_def mget_mput wfm_mput)

lemma creates_del: "creates env ph h h' \<Longrightarrow> creates env ph h (delBlock ph h')"
  by (auto simp: creates_def hinv_def early_ok_def delBlock_def mget_mdel wfm_mdel)

lemma creates_keeps:
  assumes "creates env ph h h'" and "keeps env h' h''"
  shows "creates env ph h h''"
  unfolding creates_def
proof (intro conjI allI impI)
  have h: "hinv env h'" "account h' = account h" using assms(1) by (simp_all add: creates_def)
  then show "account h'' = account h" "hinv env h''" using assms(2) by (simp_all add: keeps_def)
  have g: "grows h' h''" using assms(2) h by (simp add: keeps_def)
  fix k b
  assume "k \<noteq> ph" "mget (blockStateDetailsMap h) k = Some b"
  then obtain b1 where b1: "mget (blockStateDetailsMap h') k = Some b1" "blockGrows b b1"
    using assms(1) unfolding creates_def by blast
  then have "rel_option blockGrows (Some b1) (mget (blockStateDetailsMap h'') k)"
    using g unfolding grows_def by metis
  then obtain b2 where "mget (blockStateDetailsMap h'') k = Some b2" "blockGrows b1 b2"
    by (auto simp: option_rel_Some1)
  with b1(2) show "\<exists>b'. mget (blockStateDetailsMap h'') k = Some b' \<and> blockGrows b b'"
    using blockGrows_trans by blast
qed

lemma creates_eq:
  "creates env ph h h' \<Longrightarrow> account h'' = account h' \<Longrightarrow> blockStateDetailsMap h'' = blockStateDetailsMap h' \<Longrightarrow>
    outOfOrderPacketsMap h'' = outOfOrderPacketsMap h' \<Longrightarrow> creates env ph h h''"
  by (auto simp: creates_def hinv_def early_ok_def)

lemma SaveHash_frame: "frame h (fst (SaveHash env ph h))"
  by (simp add: SaveHash_def frame_def split: option.split)

lemma startRound_creates:
  assumes "creates env ph h h'"
  shows "creates env ph h (fst (startRound env now ph n h'))"
proof -
  obtain h1 e where i: "initializeNewBlockRound env now REASON_START h' = (h1, e)"
    by (cases "initializeNewBlockRound env now REASON_START h'")
  have c: "creates env ph h h1"
    using creates_keeps [OF assms initializeNewBlockRound_keeps [of env h' now REASON_START]] i by simp
  have "frame h1 (fst (SaveHash env ph (h1\<lparr>peers := p\<rparr>)))" for p
    using SaveHash_frame [of "h1\<lparr>peers := p\<rparr>" env ph] by (simp add: frame_def)
  then have "creates env ph h (fst (SaveHash env ph (h1\<lparr>peers := p\<rparr>)))" for p
    using creates_keeps [OF c keeps_frame] by blast
  with i c creates_del show ?thesis by (simp add: startRound_def split: option.split)
qed

lemma blockInv_context: "blockInv env acc ph b \<Longrightarrow> blockInv env acc ph (b\<lparr>consensusContext := c\<rparr>)"
  by (simp add: blockInv_def wrapped_def)

lemma finishBlock_creates:
  assumes "creates env ph h h'" and "blockInv env (account h) ph b"
  shows "creates env ph h (fst (finishBlock env now ph n n0 b h'))"
proof -
  let ?h = "(putBlock ph b h')\<lparr>currentParentHash := ph\<rparr>"
  have c: "creates env ph h ?h" by (rule creates_eq [OF creates_put [OF assms]]) simp_all
  have "creates env ph h (fst (startRound env now ph n (putBlock ph (b\<lparr>consensusContext := x\<rparr>) ?h)))" for x
    by (rule startRound_creates, rule creates_put [OF c blockInv_context [OF assms(2)]])
  with c startRound_creates [OF c] show ?thesis
    by (simp add: finishBlock_def Let_def split: sum.split)
qed

lemma low_depositsOf:
  assumes "fst ` set f \<subseteq> fst ` set m" and m: "m = lowDepositRemoved vm" and "wfm vm"
  shows "lowDepositRemoved (depositsOf m f) = depositsOf m f"
proof -
  have wf: "wfm m" unfolding m using assms(3) by (simp add: lowDepositRemoved_def wfm_filter)
  have "\<not> d < MIN_VALIDATOR_DEPOSIT" if vd: "(v, d) \<in> set (depositsOf m f)" for v d
  proof -
    from vd obtain b where b: "(v, b) \<in> set f" and d: "d = dep m v" by (auto simp: depositsOf_def)
    from b have "v \<in> fst ` set f" by (rule rev_image_eqI) simp
    with assms(1) have "v \<in> fst ` set m" by (rule subsetD)
    then obtain d' where d': "(v, d') \<in> set m" by auto
    have "dep m v = d'" using mget_in [OF wf d'] by (simp add: dep_def)
    with d' d show ?thesis unfolding m lowDepositRemoved_def by simp
  qed
  then show ?thesis unfolding lowDepositRemoved_def by (intro filter_True ballI) (simp only: split_paired_all prod.case simp_thms)
qed

lemma roundList_0 [simp]: "roundList 0 = []"
  by (simp add: roundList_def)

lemma blockInv_full:
  assumes "deposits_ok vm" and "filterValidators env' ph vm n = (m, Inr (f, t, q))"
  shows "blockInv env acc ph ((newBlock now ph n)\<lparr>totalBlockDepositValue := t, blockMinWeightedProposalsRequired := q,
    validatorDetailsMap := dm, filteredValidatorsDepositMap := depositsOf m f\<rparr>)"
proof -
  have wf: "wfm vm" using assms(1) by (simp add: deposits_ok_def)
  note r = filterValidators_result [OF wf assms(2)] and o = blockValidators_ok [OF assms]
  have "wfm (depositsOf m f)" using o(2) by (simp add: deposits_ok_def)
  moreover have "lowDepositRemoved (depositsOf m f) = depositsOf m f" by (rule low_depositsOf [OF r(3,1) wf])
  ultimately show ?thesis using r(6) o(3) by (simp add: blockInv_def newBlock_def)
qed

lemma blockInv_empty:
  "blockInv env acc ph ((newBlock now ph n)\<lparr>totalBlockDepositValue := t, blockMinWeightedProposalsRequired := q\<rparr>)"
  "blockInv env acc ph (newBlock now ph n)"
  by (simp_all add: blockInv_def newBlock_def lowDepositRemoved_def)

lemma initialize_creates:
  assumes "env_ok env" and "hinv env h"
  shows "creates env ph h (fst (initializeBlockStateIfRequired env now ph n h))"
proof (cases "mhas (blockStateDetailsMap h) ph")
  case True
  then show ?thesis using creates_refl [OF assms(2)] by (simp add: initializeBlockStateIfRequired_def)
next
  case False
  let ?h = "(putBlock ph (newBlock now ph n) h)\<lparr>lastRequestConsensusDataTime := now\<rparr>"
  have c: "creates env ph h ?h"
    by (rule creates_eq [OF creates_put [OF creates_refl [OF assms(2)] blockInv_empty(2)]]) simp_all
  note d = creates_del [OF c]
  show ?thesis
  proof (cases "getValidatorsFn env ph")
    case (Inl e)
    with False d show ?thesis by (simp add: initializeBlockStateIfRequired_def Let_def)
  next
    case (Inr vm)
    then have ok: "deposits_ok vm" using assms(1) by (simp add: env_ok_def)
    obtain m r where f: "filterValidators env ph vm n = (m, r)" by (cases "filterValidators env ph vm n")
    show ?thesis
    proof (cases r)
      case (Inl e)
      with False Inr f d show ?thesis by (simp add: initializeBlockStateIfRequired_def Let_def)
    next
      case r: (Inr x)
      obtain fl t q where x: "x = (fl, t, q)" by (cases x)
      let ?b = "(newBlock now ph n)\<lparr>totalBlockDepositValue := t, blockMinWeightedProposalsRequired := q\<rparr>"
      let ?d = "if n \<ge> BLOCK_PROPOSER_NIL_BLOCK_START_BLOCK then
          (case listValidatorsFn env ph of Inl e \<Rightarrow> Inl e | Inr dm \<Rightarrow> Inr (Some (pausedRemoved fl dm))) else Inr None"
      let ?f = "\<lambda>dm. fst (finishBlock env now ph n (length vm)
          (?b\<lparr>validatorDetailsMap := dm, filteredValidatorsDepositMap := depositsOf m fl\<rparr>) ?h)"
      have full: "creates env ph h (?f dm)" for dm
        by (rule finishBlock_creates [OF c blockInv_full [OF ok f [unfolded r x]]])
      have half: "creates env ph h (putBlock ph ?b ?h)" by (rule creates_put [OF c blockInv_empty(1)])
      have eq: "fst (initializeBlockStateIfRequired env now ph n h) =
        (case ?d of Inl e \<Rightarrow> putBlock ph ?b ?h
         | Inr dm \<Rightarrow> if t < MIN_BLOCK_DEPOSIT then delBlock ph ?h else ?f dm)"
        using False Inr f r x by (simp add: initializeBlockStateIfRequired_def Let_def del: if_split split: sum.split)
      show ?thesis unfolding eq
        by (cases ?d) (simp_all only: sum.case half d full split: if_split, simp)
    qed
  qed
qed

section \<open>The call of the engine\<close>

text \<open>
  The state after a call: the invariant holds, and every block that is known before and after the
  call has only grown. Blocks may be new, and old ones may have been removed by the cleanup.
\<close>

definition evolves :: "penv \<Rightarrow> consensusHandler \<Rightarrow> consensusHandler \<Rightarrow> bool" where
  "evolves env h h' \<longleftrightarrow> account h' = account h \<and> hinv env h' \<and>
    (\<forall>ph b b'. mget (blockStateDetailsMap h) ph = Some b \<longrightarrow> mget (blockStateDetailsMap h') ph = Some b' \<longrightarrow>
      blockGrows b b')"

lemma evolvesD:
  assumes "evolves env h h'"
  shows "account h' = account h" and "hinv env h'"
    and "mget (blockStateDetailsMap h) ph = Some b \<Longrightarrow> mget (blockStateDetailsMap h') ph = Some b' \<Longrightarrow> blockGrows b b'"
  using assms unfolding evolves_def by blast+

lemma evolves_refl: "hinv env h \<Longrightarrow> evolves env h h"
  by (simp add: evolves_def)

lemma evolves_keeps:
  assumes "evolves env h h1" and "keeps env h1 h2"
  shows "evolves env h h2"
  unfolding evolves_def
proof (intro conjI allI impI)
  note e = evolvesD [OF assms(1)]
  have k: "account h2 = account h1" "hinv env h2" "grows h1 h2" using assms(2) e(2) by (simp_all add: keeps_def)
  show "account h2 = account h" using k(1) e(1) by simp
  show "hinv env h2" by (rule k(2))
  fix ph b b2
  assume b: "mget (blockStateDetailsMap h) ph = Some b" and b2: "mget (blockStateDetailsMap h2) ph = Some b2"
  have "rel_option blockGrows (mget (blockStateDetailsMap h1) ph) (Some b2)" using k(3) b2 by (metis grows_def)
  then obtain b1 where b1: "mget (blockStateDetailsMap h1) ph = Some b1" "blockGrows b1 b2"
    by (auto simp: option_rel_Some2)
  show "blockGrows b b2" by (rule blockGrows_trans [OF e(3) [OF b b1(1)] b1(2)])
qed

lemma keeps_evolves: "hinv env h \<Longrightarrow> keeps env h h' \<Longrightarrow> evolves env h h'"
  by (rule evolves_keeps [OF evolves_refl])

lemma initialize_evolves:
  assumes "env_ok env" and "hinv env h"
  shows "evolves env h (fst (initializeBlockStateIfRequired env now ph n h))"
proof (cases "mhas (blockStateDetailsMap h) ph")
  case True
  then show ?thesis using evolves_refl [OF assms(2)] by (simp add: initializeBlockStateIfRequired_def)
next
  case False
  then have n: "mget (blockStateDetailsMap h) ph = None" by (simp add: mhas_def)
  have c: "creates env ph h (fst (initializeBlockStateIfRequired env now ph n h))"
    by (rule initialize_creates [OF assms])
  show ?thesis unfolding evolves_def
  proof (intro conjI allI impI)
    fix k b b'
    assume b: "mget (blockStateDetailsMap h) k = Some b"
      and b': "mget (blockStateDetailsMap (fst (initializeBlockStateIfRequired env now ph n h))) k = Some b'"
    with n have "k \<noteq> ph" by auto
    with c b b' show "blockGrows b b'" unfolding creates_def by fastforce
  qed (use c in \<open>simp_all add: creates_def\<close>)
qed

text \<open>The cleanup removes blocks and changes none.\<close>

lemma cleanup_get:
  "mget (blockStateDetailsMap (cleanupBlockState now h)) ph = Some b \<Longrightarrow> wfm (blockStateDetailsMap h) \<Longrightarrow>
    mget (blockStateDetailsMap h) ph = Some b"
  by (auto simp: cleanupBlockState_def mget_eq_iff wfm_filter)

lemma cleanup_evolves:
  assumes "evolves env h h1"
  shows "evolves env h (cleanupBlockState now h1)"
proof -
  note e = evolvesD [OF assms]
  have w: "wfm (blockStateDetailsMap h1)" using e(2) by (simp add: hinv_def)
  have s: "account (cleanupBlockState now h1) = account h1"
      "outOfOrderPacketsMap (cleanupBlockState now h1) = outOfOrderPacketsMap h1"
      "wfm (blockStateDetailsMap (cleanupBlockState now h1))"
    using w by (simp_all add: cleanupBlockState_def wfm_filter)
  then have "hinv env (cleanupBlockState now h1)"
    using e(2) cleanup_get [OF _ w] by (simp add: hinv_def early_ok_def)
  with s e(1) show ?thesis unfolding evolves_def using e(3) cleanup_get [OF _ w] by simp
qed

text \<open>The own account stays a validator of the block when packets that came too early are processed.\<close>

lemma keeps_validator:
  assumes "keeps env h h'" and "hinv env h" and "mget (blockStateDetailsMap h) ph = Some b"
    and "mhas (filteredValidatorsDepositMap b) (account h)" and "mget (blockStateDetailsMap h') ph = Some b'"
  shows "mhas (filteredValidatorsDepositMap b') (account h')"
proof -
  have "account h' = account h" "grows h h'" using assms(1,2) by (simp_all add: keeps_def)
  moreover have "rel_option blockGrows (Some b) (Some b')"
    using \<open>grows h h'\<close> assms(3,5) by (metis grows_def)
  ultimately show ?thesis using assms(4) by (simp add: blockGrows_def)
qed

lemma runConsensus_evolves:
  assumes "env_ok env" and "hinv env h"
  shows "evolves env h (fst (runConsensus env now ph txns n h))"
proof -
  obtain h1 e where i: "initializeBlockStateIfRequired env now ph n h = (h1, e)"
    by (cases "initializeBlockStateIfRequired env now ph n h")
  have e1: "evolves env h h1" using initialize_evolves [OF assms, of now ph n] i by simp
  let ?h2 = "cleanupBlockState now h1"
  have e2: "evolves env h ?h2" by (rule cleanup_evolves [OF e1])
  have step: "evolves env h (fst (andThen (processOutOfOrderPackets env now ph ?h2)
      (consensusStep env now ph txns n propose)))"
    if b: "mget (blockStateDetailsMap ?h2) ph = Some b"
      and v: "mhas (filteredValidatorsDepositMap b) (account ?h2)" for b propose
  proof (rule evolves_keeps [OF e2], rule keeps_andThen [OF processOutOfOrderPackets_keeps])
    fix h3
    assume p: "processOutOfOrderPackets env now ph ?h2 = (h3, None)"
    have k: "keeps env ?h2 h3" using processOutOfOrderPackets_keeps [of env ?h2 now ph] p by simp
    show "keeps env h3 (fst (consensusStep env now ph txns n propose h3))"
      by (rule consensusStep_keeps) (rule keeps_validator [OF k evolvesD(2) [OF e2] b v])
  qed
  show ?thesis
    using i e1 e2 step by (simp add: runConsensus_def andThen_def [of "(h1, e)"] Let_def split: option.split sum.split)
qed

lemma HandleConsensus_evolves:
  assumes "env_ok env" and "hinv env h"
  shows "evolves env h (fst (HandleConsensus env now rnd ph txns n h))"
proof -
  have f: "evolves env h h'" if "frame h h'" for h' by (rule keeps_evolves [OF assms(2) keeps_frame [OF that]])
  have r: "evolves env h (fst (runConsensus env now ph txns n h'))" if "frame h h'" for h'
  proof -
    have "hinv env h'" using hinv_frame [OF that] assms(2) by simp
    from runConsensus_evolves [OF assms(1) this, of now ph txns n] that show ?thesis
      by (simp add: evolves_def frame_def)
  qed
  show ?thesis
    by (simp add: HandleConsensus_def Let_def SetLatestBlockNumber_def frame_def f r split: sum.split)
qed

section \<open>The consensus data of a block\<close>

lemma Inner_map:
  assumes "lowDepositRemoved vm = vm"
  shows "fst (ValidateBlockConsensusDataInner env txns ph bcd bacd vm n dm ctx) = vm"
  using assms
  by (simp add: ValidateBlockConsensusDataInner_def filterValidators_def Let_def split: prod.split sum.split option.split)

lemma getBlockConsensusData_keeps: "keeps env h (fst (getBlockConsensusData env ph h))"
proof (rule keepsI)
  assume i: "hinv env h"
  have "keeps env h (putBlock ph (b\<lparr>filteredValidatorsDepositMap := fm, validatorDetailsMap := dm\<rparr>) h)"
    if c: "committedRound ph h = Inr (b, rd)"
      and v: "ValidateBlockConsensusDataInner env txns ph bcd bacd (filteredValidatorsDepositMap b) n dm0 ctx = (fm, dm, e)"
    for b rd txns bcd bacd n dm0 ctx fm dm e
  proof (rule keeps_sameBlock)
    show b: "mget (blockStateDetailsMap h) ph = Some b"
      using c by (auto simp: committedRound_def split: option.splits if_splits)
    have "lowDepositRemoved (filteredValidatorsDepositMap b) = filteredValidatorsDepositMap b"
      using i b by (simp add: hinv_def blockInv_def)
    from Inner_map [OF this] v have "fm = filteredValidatorsDepositMap b" by (metis fst_conv)
    then show "sameBlock b (b\<lparr>filteredValidatorsDepositMap := fm, validatorDetailsMap := dm\<rparr>)"
      by (simp add: sameBlock_def)
  qed
  then show "keeps env h (fst (getBlockConsensusData env ph h))"
    by (simp add: getBlockConsensusData_def Let_def split: sum.split prod.split)
qed

section \<open>Runs of the handler\<close>

text \<open>
  Between two steps everything outside the handler may change (the signer, the files, the
  transaction pool), except the hash function; the staking contract keeps its guarantee.
\<close>

definition sameChain :: "penv \<Rightarrow> penv \<Rightarrow> bool" where
  "sameChain env env' \<longleftrightarrow> keccak env' = keccak env \<and> env_ok env'"

lemma hinv_chain:
  assumes "keccak env' = keccak env"
  shows "hinv env' h = hinv env h"
proof -
  have "getOkVotePreCommitHash env' = getOkVotePreCommitHash env" "getNilVotePreCommitHash env' = getNilVotePreCommitHash env"
      "getCommitHash env' = getCommitHash env"
    using assms by (simp_all add: fun_eq_iff getOkVotePreCommitHash_def getNilVotePreCommitHash_def getCommitHash_def Keccak256Hash_def)
  then show ?thesis
    by (simp add: hinv_def blockInv_def roundInv_def stateInv_def decided_def votesInv_def ownCommit_def)
qed

text \<open>
  The steps that change the state: a packet of another validator, a call of the engine, the
  question for the consensus data of a block, and the background tasks of the peer handler,
  which change only its own part.
\<close>

inductive step :: "penv \<Rightarrow> consensusHandler \<Rightarrow> consensusHandler \<Rightarrow> bool" for env where
  receive: "sameChain env env' \<Longrightarrow> step env h (fst (HandleConsensusPacket env' now packet peer h))"
| engine: "sameChain env env' \<Longrightarrow> step env h (fst (HandleConsensus env' now rndVal ph txns n h))"
| consensusData: "sameChain env env' \<Longrightarrow> step env h (fst (getBlockConsensusData env' ph h))"
| peerTask: "step env h (h\<lparr>peers := p\<rparr>)"

text \<open>The states of a node that was started with the account; the hash file may be left from an earlier run.\<close>

inductive reach :: "penv \<Rightarrow> address \<Rightarrow> consensusHandler \<Rightarrow> bool" for env acc where
  start: "reach env acc ((NewConsensusPacketHandler acc relay)\<lparr>previousHashFile := prev\<rparr>)"
| further: "reach env acc h \<Longrightarrow> step env h h' \<Longrightarrow> reach env acc h'"

inductive_cases stepE: "step env h h'"

lemma chain_evolves:
  assumes "sameChain env env'" and "hinv env h" and "hinv env' h \<Longrightarrow> env_ok env' \<Longrightarrow> evolves env' h h'"
  shows "evolves env h h'"
proof -
  have k: "keccak env' = keccak env" "env_ok env'" using assms(1) by (simp_all add: sameChain_def)
  have "hinv env' h" using hinv_chain [OF k(1), of h] assms(2) by simp
  from assms(3) [OF this k(2)] show ?thesis using hinv_chain [OF k(1), of h'] by (simp add: evolves_def)
qed

lemma step_evolves:
  assumes "step env h h'" and "hinv env h"
  shows "evolves env h h'"
  using assms
proof (induction rule: step.induct)
  case (receive env' h now packet peer)
  show ?case by (rule chain_evolves [OF receive]) (rule keeps_evolves [OF _ HandleConsensusPacket_keeps])
next
  case (engine env' h now rndVal ph txns n)
  show ?case by (rule chain_evolves [OF engine]) (rule HandleConsensus_evolves)
next
  case (consensusData env' h ph)
  show ?case by (rule chain_evolves [OF consensusData]) (rule keeps_evolves [OF _ getBlockConsensusData_keeps])
next
  case (peerTask h p)
  show ?case by (rule keeps_evolves [OF peerTask keeps_frame]) (simp add: frame_def)
qed

lemma new_hinv: "hinv env ((NewConsensusPacketHandler acc relay)\<lparr>previousHashFile := prev\<rparr>)"
  by (simp add: hinv_def early_ok_def NewConsensusPacketHandler_def)

lemma reach_hinv: "reach env acc h \<Longrightarrow> hinv env h \<and> account h = acc"
proof (induction rule: reach.induct)
  case (start relay prev)
  show ?case using new_hinv by (simp add: NewConsensusPacketHandler_def)
next
  case (further h h')
  then show ?case using step_evolves [of env h h'] by (simp add: evolves_def)
qed

text \<open>Runs during which the state of a block is never removed.\<close>

inductive follows :: "penv \<Rightarrow> hash \<Rightarrow> consensusHandler \<Rightarrow> consensusHandler \<Rightarrow> bool" for env ph where
  stay: "follows env ph h h"
| move: "follows env ph h h' \<Longrightarrow> step env h' h'' \<Longrightarrow> mhas (blockStateDetailsMap h'') ph \<Longrightarrow> follows env ph h h''"

lemma follows_grows:
  assumes "follows env ph h h'" and "hinv env h" and "mget (blockStateDetailsMap h) ph = Some b"
  shows "hinv env h' \<and> (\<exists>b'. mget (blockStateDetailsMap h') ph = Some b' \<and> blockGrows b b')"
  using assms
proof (induction rule: follows.induct)
  case (move h h' h'')
  then obtain b1 where i: "hinv env h'" and b1: "mget (blockStateDetailsMap h') ph = Some b1" "blockGrows b b1" by blast
  obtain b2 where b2: "mget (blockStateDetailsMap h'') ph = Some b2" using move.hyps(3) by (auto simp: mhas_def)
  note e = evolvesD [OF step_evolves [OF move.hyps(2) i]]
  from blockGrows_trans [OF b1(2) e(3) [OF b1(1) b2]] b2 e(2) show ?case by blast
qed simp

end
