(* ===== verification/Pos_Safety.thy ===== *)
theory Pos_Safety
  imports Pos_Runs
begin

text \<open>
  What the invariants mean for the protocol: the evidence behind a decided round, the agreement of
  two nodes, the votes that are cast once, the result of a call of the engine, and progress.
\<close>

section \<open>The evidence of a round\<close>

lemma low_ok:
  assumes "lowDepositRemoved m = m" and "wfm m"
  shows "deposits_ok m"
proof -
  have "0 \<le> d" if vd: "(v, d) \<in> set m" for v d
  proof -
    from vd assms(1) have "(v, d) \<in> set (lowDepositRemoved m)" by simp
    then have "\<not> d < MIN_VALIDATOR_DEPOSIT" unfolding lowDepositRemoved_def by simp
    moreover have "0 \<le> MIN_VALIDATOR_DEPOSIT" by (simp add: MIN_VALIDATOR_DEPOSIT_def EtherToWei_def)
    ultimately show ?thesis by linarith
  qed
  with assms(2) show ?thesis by (auto simp: deposits_ok_def nonneg_def)
qed

lemma blockInvD:
  assumes "blockInv env acc ph b"
  shows "wfm (filteredValidatorsDepositMap b)"
    and "lowDepositRemoved (filteredValidatorsDepositMap b) = filteredValidatorsDepositMap b"
    and "deposits_ok (filteredValidatorsDepositMap b)"
    and "mget (blockRoundMap b) r = Some rd \<Longrightarrow>
      roundInv env acc ph (filteredValidatorsDepositMap b) (blockMinWeightedProposalsRequired b) r rd"
    and "mhas (filteredValidatorsDepositMap b) v \<Longrightarrow>
      blockMinWeightedProposalsRequired b =
        SafeRelativePercentageBigInt (total_dep (filteredValidatorsDepositMap b)) (minPercentage (blockNumber b))"
proof -
  show w: "wfm (filteredValidatorsDepositMap b)"
      "lowDepositRemoved (filteredValidatorsDepositMap b) = filteredValidatorsDepositMap b"
    using assms by (simp_all add: blockInv_def)
  show "deposits_ok (filteredValidatorsDepositMap b)" by (rule low_ok [OF w(2,1)])
  show "mget (blockRoundMap b) r = Some rd \<Longrightarrow>
      roundInv env acc ph (filteredValidatorsDepositMap b) (blockMinWeightedProposalsRequired b) r rd"
    using assms by (simp add: blockInv_def)
  show "mhas (filteredValidatorsDepositMap b) v \<Longrightarrow>
      blockMinWeightedProposalsRequired b =
        SafeRelativePercentageBigInt (total_dep (filteredValidatorsDepositMap b)) (minPercentage (blockNumber b))"
    using assms by (auto simp: blockInv_def mhas_iff)
qed

lemma votesOk_keys:
  assumes "votesOk (\<lambda>v d. mhas fm v \<and> P v d) m"
  shows "fst ` set m \<subseteq> fst ` set fm" and "(v, d) \<in> set m \<Longrightarrow> P v d"
  using assms by (auto simp: votesOk_def mhas_iff dest: mget_in)

text \<open>A round with a quorum of precommits: they are for one hash, which the vote of the round determines.\<close>

lemma precommit_evidence:
  assumes "blockInv env acc ph b" and "mget (blockRoundMap b) r = Some rd" and "state rd \<ge> WAITING_FOR_COMMITS"
  shows "blockMinWeightedProposalsRequired b \<le>
      weight (filteredValidatorsDepositMap b) (fst ` set (validatorPrecommits rd))"
    and "blockMinWeightedProposalsRequired b =
      SafeRelativePercentageBigInt (total_dep (filteredValidatorsDepositMap b)) (minPercentage (blockNumber b))"
    and "fst ` set (validatorPrecommits rd) \<subseteq> fst ` set (filteredValidatorsDepositMap b)"
    and "(v, d) \<in> set (validatorPrecommits rd) \<Longrightarrow> PrecommitHash d = precommitHash rd \<and> PCRound d = r"
    and "decided env ph r rd"
proof -
  note i = roundInvD [OF blockInvD(4) [OF assms(1,2)]]
  have s: "state rd \<ge> WAITING_FOR_PRECOMMITS" using assms(3) by (cases "state rd") (simp_all add: state_order)
  have vo: "votesOk (\<lambda>v d. mhas (filteredValidatorsDepositMap b) v \<and> PrecommitHash d = precommitHash rd \<and> PCRound d = r)
      (validatorPrecommits rd)"
    using i(2) by (simp add: votesInv_def)
  have q: "selfPrecommited rd" "blockMinWeightedProposalsRequired b \<le>
      weight (filteredValidatorsDepositMap b) (fst ` set (validatorPrecommits rd))"
    using i(3) assms(3) by (simp_all add: quorumInv_def)
  show "blockMinWeightedProposalsRequired b \<le>
      weight (filteredValidatorsDepositMap b) (fst ` set (validatorPrecommits rd))" by (rule q(2))
  show sub: "fst ` set (validatorPrecommits rd) \<subseteq> fst ` set (filteredValidatorsDepositMap b)"
    by (rule votesOk_keys(1) [OF vo])
  have "mhas (validatorPrecommits rd) acc" using q(1) i(5) by (auto simp: ownPrecommit_def)
  then have "mhas (filteredValidatorsDepositMap b) acc" using sub by (auto simp: mhas_iff)
  then show "blockMinWeightedProposalsRequired b =
      SafeRelativePercentageBigInt (total_dep (filteredValidatorsDepositMap b)) (minPercentage (blockNumber b))"
    by (rule blockInvD(5) [OF assms(1)])
  show "(v, d) \<in> set (validatorPrecommits rd) \<Longrightarrow> PrecommitHash d = precommitHash rd \<and> PCRound d = r"
    by (rule votesOk_keys(2) [OF vo])
  show "decided env ph r rd" using i(1) s by (simp add: stateInv_def)
qed

lemma commit_evidence:
  assumes "blockInv env acc ph b" and "mget (blockRoundMap b) r = Some rd" and "state rd = RECEIVED_COMMITS"
  shows "blockMinWeightedProposalsRequired b \<le>
      weight (filteredValidatorsDepositMap b) (fst ` set (validatorCommits rd))"
    and "fst ` set (validatorCommits rd) \<subseteq> fst ` set (filteredValidatorsDepositMap b)"
    and "(v, d) \<in> set (validatorCommits rd) \<Longrightarrow> CommitHash d = getCommitHash env (precommitHash rd) \<and> CRound d = r"
proof -
  note i = roundInvD [OF blockInvD(4) [OF assms(1,2)]]
  have vo: "votesOk (\<lambda>v d. mhas (filteredValidatorsDepositMap b) v \<and> CommitHash d = getCommitHash env (precommitHash rd) \<and> CRound d = r)
      (validatorCommits rd)"
    using i(2) by (simp add: votesInv_def)
  show "blockMinWeightedProposalsRequired b \<le>
      weight (filteredValidatorsDepositMap b) (fst ` set (validatorCommits rd))"
    using i(3) assms(3) by (simp add: quorumInv_def)
  show "fst ` set (validatorCommits rd) \<subseteq> fst ` set (filteredValidatorsDepositMap b)" by (rule votesOk_keys(1) [OF vo])
  show "(v, d) \<in> set (validatorCommits rd) \<Longrightarrow> CommitHash d = getCommitHash env (precommitHash rd) \<and> CRound d = r"
    by (rule votesOk_keys(2) [OF vo])
qed

section \<open>Two nodes\<close>

text \<open>
  Validators with a precommit in the round of both nodes. When the nodes have decided on
  different hashes, these validators have signed two contradicting precommits.
\<close>

definition doublePrecommits :: "roundDetails \<Rightarrow> roundDetails \<Rightarrow> address set" where
  "doublePrecommits rd1 rd2 =
    {v. \<exists>d1 d2. mget (validatorPrecommits rd1) v = Some d1 \<and> mget (validatorPrecommits rd2) v = Some d2 \<and>
       PCRound d1 = PCRound d2 \<and> PrecommitHash d1 \<noteq> PrecommitHash d2}"

lemma double_votes:
  assumes "blockInv env acc1 ph b1" and "mget (blockRoundMap b1) r = Some rd1" and "state rd1 \<ge> WAITING_FOR_COMMITS"
    and "blockInv env acc2 ph b2" and "mget (blockRoundMap b2) r = Some rd2" and "state rd2 \<ge> WAITING_FOR_COMMITS"
    and "precommitHash rd1 \<noteq> precommitHash rd2"
  shows "fst ` set (validatorPrecommits rd1) \<inter> fst ` set (validatorPrecommits rd2) \<subseteq> doublePrecommits rd1 rd2"
proof
  fix v
  assume "v \<in> fst ` set (validatorPrecommits rd1) \<inter> fst ` set (validatorPrecommits rd2)"
  then obtain d1 d2 where d: "mget (validatorPrecommits rd1) v = Some d1" "mget (validatorPrecommits rd2) v = Some d2"
    by (auto simp: mhas_iff [symmetric] mhas_def)
  from precommit_evidence(4) [OF assms(1-3) mget_SomeD [OF d(1)]]
    precommit_evidence(4) [OF assms(4-6) mget_SomeD [OF d(2)]] d assms(7)
  show "v \<in> doublePrecommits rd1 rd2" by (auto simp: doublePrecommits_def)
qed

lemma two_nodes:
  assumes "blockInv env acc1 ph b1" and "mget (blockRoundMap b1) r = Some rd1" and "state rd1 \<ge> WAITING_FOR_COMMITS"
    and "blockInv env acc2 ph b2" and "mget (blockRoundMap b2) r = Some rd2" and "state rd2 \<ge> WAITING_FOR_COMMITS"
    and "precommitHash rd1 \<noteq> precommitHash rd2"
    and same: "filteredValidatorsDepositMap b2 = filteredValidatorsDepositMap b1" "blockNumber b2 = blockNumber b1"
  shows "total_dep (filteredValidatorsDepositMap b1) \<le>
    5 * weight (filteredValidatorsDepositMap b1)
      (doublePrecommits rd1 rd2 \<inter> fst ` set (filteredValidatorsDepositMap b1)) + 9"
proof -
  let ?fm = "filteredValidatorsDepositMap b1" and ?A = "fst ` set (validatorPrecommits rd1)"
    and ?B = "fst ` set (validatorPrecommits rd2)"
  note e1 = precommit_evidence [OF assms(1-3)] and e2 = precommit_evidence [OF assms(4-6), unfolded same]
  have q: "blockMinWeightedProposalsRequired b2 = blockMinWeightedProposalsRequired b1" using e1(2) e2(2) by simp
  have i: "?A \<inter> fst ` set ?fm = ?A" "?B \<inter> fst ` set ?fm = ?B" using e1(3) e2(3) by (simp_all add: Int_absorb2)
  show ?thesis
    by (rule conflict_weight [OF blockInvD(3) [OF assms(1)] e1(2), of ?A ?B])
      (use e1(1) e2(1) q i double_votes [OF assms(1-7)] in simp_all)
qed

section \<open>Packets that cannot stop the node\<close>

lemma startIndex_le: "startIndex data \<le> 2"
  by (simp add: startIndex_def)

lemma voters_are_validators:
  assumes "votesInv env fm r rd"
  shows "fst ` set (validatorPrecommits rd) \<subseteq> fst ` set fm" and "fst ` set (validatorCommits rd) \<subseteq> fst ` set fm"
proof -
  note a = assms [unfolded votesInv_def]
  show "fst ` set (validatorPrecommits rd) \<subseteq> fst ` set fm"
    by (rule votesOk_keys(1) [OF conjunct1 [OF conjunct2 [OF a]]])
  show "fst ` set (validatorCommits rd) \<subseteq> fst ` set fm"
    by (rule votesOk_keys(1) [OF conjunct1 [OF conjunct2 [OF conjunct2 [OF a]]]])
qed

lemma decodeBody_no_panic:
  assumes "2 \<le> length (ConsensusData packet)" and "\<And>b. length b < 2 ^ 63 \<Longrightarrow> (\<forall>s. dec b \<noteq> Inl (Panic s)) \<and> dec b \<noteq> Inl Diverges"
    and "length (ConsensusData packet) < 2 ^ 63"
  shows "decodeBody dec packet = Inl e \<Longrightarrow> \<not> fatal (Some e)"
proof -
  have "\<not> length (ConsensusData packet) < startIndex (ConsensusData packet)" using assms(1) startIndex_le [of "ConsensusData packet"] by linarith
  moreover have "length (packetBody packet) < 2 ^ 63" using assms(3) by (simp add: packetBody_def)
  ultimately show "decodeBody dec packet = Inl e \<Longrightarrow> \<not> fatal (Some e)"
    using assms(2) [of "packetBody packet"] by (cases e) (auto simp: decodeBody_def)
qed

lemma decodeDetails_not_Diverges: "decodeDetails t conv b \<noteq> Inl Diverges"
  by (simp add: decodeDetails_def split: sum.split option.split)

lemmas message_not_fatal =
  proposal_msg.message_no_panic ack_msg.message_no_panic precommit_msg.message_no_panic commit_msg.message_no_panic
  relay_msg.message_no_panic decodeDetails_not_Diverges

text \<open>A packet that is long enough for its header and fits the memory.\<close>

definition sizedPacket :: "packet \<Rightarrow> bool" where
  "sizedPacket packet \<longleftrightarrow> 2 \<le> length (ConsensusData packet) \<and> length (ConsensusData packet) < 2 ^ 63"

lemma sized_type: "sizedPacket packet \<Longrightarrow> \<exists>t. getPacketType packet = Inr t"
  using startIndex_le [of "ConsensusData packet"] by (auto simp: sizedPacket_def getPacketType_def)

lemma sized_decode:
  assumes "sizedPacket packet"
  shows "decodeBody decodeProposal packet = Inl e \<Longrightarrow> \<not> fatal (Some e)"
    and "decodeBody decodeAck packet = Inl e \<Longrightarrow> \<not> fatal (Some e)"
    and "decodeBody decodePrecommit packet = Inl e \<Longrightarrow> \<not> fatal (Some e)"
    and "decodeBody decodeCommit packet = Inl e \<Longrightarrow> \<not> fatal (Some e)"
proof -
  have l: "2 \<le> length (ConsensusData packet)" "length (ConsensusData packet) < 2 ^ 63"
    using assms by (simp_all add: sizedPacket_def)
  note d = decodeBody_no_panic [OF l(1) _ l(2), of _ e]
  show "decodeBody decodeProposal packet = Inl e \<Longrightarrow> \<not> fatal (Some e)"
    "decodeBody decodeAck packet = Inl e \<Longrightarrow> \<not> fatal (Some e)"
    "decodeBody decodePrecommit packet = Inl e \<Longrightarrow> \<not> fatal (Some e)"
    "decodeBody decodeCommit packet = Inl e \<Longrightarrow> \<not> fatal (Some e)"
    by (erule d [rotated], simp add: message_not_fatal)+
qed

lemma lookupRound_not_fatal: "lookupRound ph h = Inl e \<Longrightarrow> \<not> fatal (Some e)"
  by (auto simp: lookupRound_def split: option.splits if_splits)

lemma checkTxns_not_fatal:
  assumes "\<And>t e. doesFinalizedTransactionExistFn env t = Inl e \<Longrightarrow> \<not> fatal (Some e)"
  shows "\<not> fatal (snd (checkTxns env txns copied))"
  by (induction txns arbitrary: copied) (use assms in \<open>auto simp: Let_def split: sum.split bool.split\<close>)

lemma propose_not_fatal:
  assumes "sizedPacket packet" and "\<And>t e. doesFinalizedTransactionExistFn env t = Inl e \<Longrightarrow> \<not> fatal (Some e)"
  shows "\<not> fatal (snd (handleProposeBlockPacket env now v packet self h))"
proof -
  have c: "\<not> fatal (Some e)" if "checkProposal env now v packet self h b rd = Inl e" for b rd e
    using that sized_decode(1) [OF assms(1)] by (auto simp: checkProposal_def split: sum.splits if_splits)
  have t: "\<not> fatal (Some e)" if "checkTxns env ts [] = (x, Some e)" for ts x e
    using checkTxns_not_fatal [of env ts "[]"] assms(2) that by simp
  show ?thesis
    using c t lookupRound_not_fatal
    by (auto simp: handleProposeBlockPacket_def Let_def split: sum.split prod.split option.split)
qed

lemma ack_not_fatal:
  assumes "sizedPacket packet"
  shows "\<not> fatal (snd (handleAckBlockProposalPacket v packet h))"
  using sized_decode(2) [OF assms] by (simp add: handleAckBlockProposalPacket_def split: sum.split option.split)

text \<open>The votes that are counted come from validators of the block, so their deposits exist.\<close>

lemma tally_Inr: "set vs \<subseteq> fst ` set fm \<Longrightarrow> \<exists>s'. tally fm vs s = Inr s'"
proof (induction vs arbitrary: s)
  case (Cons v vs)
  then obtain d where "mget fm v = Some d" by (auto simp: mhas_iff [symmetric] mhas_def)
  with Cons show ?case by simp
qed simp

lemma precommit_not_fatal:
  assumes "sizedPacket packet" and "hinv env h"
  shows "\<not> fatal (snd (handlePrecommitPacket now v packet self h))"
proof (cases "lookupRound (ParentHash packet) h")
  case (Inl e)
  then show ?thesis using lookupRound_not_fatal by (simp add: handlePrecommitPacket_def)
next
  case (Inr x)
  obtain b rd where x: "x = (b, rd)" by (cases x)
  note l = lookupRound_Inr [OF Inr [unfolded x]]
  have vo: "fst ` set (validatorPrecommits rd) \<subseteq> fst ` set (filteredValidatorsDepositMap b)"
    by (rule voters_are_validators(1) [OF roundInvD(2) [OF hinv_round [OF assms(2) l(1,2)]]])
  show ?thesis
  proof (cases "checkPrecommit v packet self h b rd")
    case (Inl e)
    then have "\<not> fatal (Some e)"
      using sized_decode(3) [OF assms(1)] by (auto simp: checkPrecommit_def split: sum.splits if_splits)
    with Inl Inr x show ?thesis by (simp add: handlePrecommitPacket_def)
  next
    case (Inr d)
    then have "mhas (filteredValidatorsDepositMap b) v" by (auto simp: checkPrecommit_def split: if_splits)
    then have "set (mkeys (mput v d (validatorPrecommits rd))) \<subseteq> fst ` set (filteredValidatorsDepositMap b)"
      using vo by (simp add: set_mkeys fst_set_mput mhas_iff)
    then obtain s where "tally (filteredValidatorsDepositMap b) (mkeys (mput v d (validatorPrecommits rd))) 0 = Inr s"
      using tally_Inr by blast
    with Inr \<open>lookupRound (ParentHash packet) h = Inr x\<close> x show ?thesis by (simp add: handlePrecommitPacket_def Let_def)
  qed
qed

lemma commit_not_fatal:
  assumes "sizedPacket packet" and "hinv env h"
  shows "\<not> fatal (snd (handleCommitPacket env now v packet self h))"
proof (cases "lookupRound (ParentHash packet) h")
  case (Inl e)
  then show ?thesis using lookupRound_not_fatal by (simp add: handleCommitPacket_def)
next
  case (Inr x)
  obtain b rd where x: "x = (b, rd)" by (cases x)
  note l = lookupRound_Inr [OF Inr [unfolded x]]
  have vo: "fst ` set (validatorCommits rd) \<subseteq> fst ` set (filteredValidatorsDepositMap b)"
    by (rule voters_are_validators(2) [OF roundInvD(2) [OF hinv_round [OF assms(2) l(1,2)]]])
  show ?thesis
  proof (cases "checkCommit env v packet self h b rd")
    case (Inl e)
    then have "\<not> fatal (Some e)"
      using sized_decode(4) [OF assms(1)] by (auto simp: checkCommit_def split: sum.splits if_splits)
    with Inl Inr x show ?thesis by (simp add: handleCommitPacket_def)
  next
    case (Inr d)
    then have "mhas (filteredValidatorsDepositMap b) v" by (auto simp: checkCommit_def split: if_splits)
    then have "set (mkeys (mput v d (validatorCommits rd))) \<subseteq> fst ` set (filteredValidatorsDepositMap b)"
      using vo by (simp add: set_mkeys fst_set_mput mhas_iff)
    then obtain s where "tally (filteredValidatorsDepositMap b) (mkeys (mput v d (validatorCommits rd))) 0 = Inr s"
      using tally_Inr by blast
    with Inr \<open>lookupRound (ParentHash packet) h = Inr x\<close> x show ?thesis by (simp add: handleCommitPacket_def Let_def)
  qed
qed

lemma processPacket_not_fatal:
  assumes "sizedPacket packet" and "hinv env h"
    and "\<And>t e. doesFinalizedTransactionExistFn env t = Inl e \<Longrightarrow> \<not> fatal (Some e)"
  shows "\<not> fatal (snd (processPacket env now packet h))"
proof -
  obtain t where t: "getPacketType packet = Inr t" using sized_type [OF assms(1)] by blast
  have s: "\<not> fatal (Some e)" if "signerOf env packet t = Inl e" for e
    using that by (auto simp: signerOf_def Let_def split: option.splits)
  show ?thesis
    using t s propose_not_fatal [OF assms(1,3)] ack_not_fatal [OF assms(1)] precommit_not_fatal [OF assms(1,2)]
      commit_not_fatal [OF assms(1,2)]
    by (simp add: processPacket_def split: sum.split)
qed

lemma peer_not_fatal:
  assumes "sizedPacket packet"
  shows "\<not> fatal (snd (peer_HandleConsensusPacket packet k p))"
proof -
  obtain t where t: "getPacketType packet = Inr t" using sized_type [OF assms] by blast
  have "length (packetBody packet) < 2 ^ 63" using assms by (auto simp: sizedPacket_def packetBody_def)
  then have d: "\<not> fatal (Some e)" if "decodeRelay (packetBody packet) = Inl e" for e
    using that relay_msg.message_no_panic [of "packetBody packet"] decodeDetails_not_Diverges [of T_Relay relay_of "packetBody packet"]
    by (cases e) auto
  show ?thesis using t d by (simp add: peer_HandleConsensusPacket_def Let_def split: sum.split)
qed

lemma packet_not_fatal:
  assumes "sizedPacket packet" and "hinv env h"
    and "\<And>t e. doesFinalizedTransactionExistFn env t = Inl e \<Longrightarrow> \<not> fatal (Some e)"
  shows "\<not> fatal (snd (HandleConsensusPacket env now packet k h))"
proof -
  let ?h = "LogIncomingPacketStats h"
  have "hinv env ?h" using hinv_frame [of h ?h env] assms(2) by (simp add: frame_def LogIncomingPacketStats_def)
  then have p: "\<not> fatal (snd (processPacket env now packet ?h))"
    by (rule processPacket_not_fatal [OF assms(1) _ assms(3)])
  have q: "\<not> fatal (snd r)" if "peer_HandleConsensusPacket packet k p = r" for p r using that peer_not_fatal [OF assms(1), of k p] by simp
  show ?thesis using p
    by (auto simp: HandleConsensusPacket_def split: option.splits prod.splits dest!: q)
qed

section \<open>A call of the engine without an error\<close>

lemma notReady_Some: "snd (notReady r) \<noteq> None"
  by (cases r; cases "snd r") (auto simp: notReady_def thenAlways_def)

text \<open>The precommits have timed out and a new round has begun.\<close>

definition precommitTimedOut :: "consensusHandler \<Rightarrow> bool" where
  "precommitTimedOut h \<longleftrightarrow>
    (\<exists>b rd. mget (blockStateDetailsMap h) (currentParentHash h) = Some b \<and>
       mget (blockRoundMap b) (currentRound b) = Some rd \<and> state rd = WAITING_FOR_PROPOSAL \<and>
       newRoundReason rd = REASON_WAIT_PRECOMMIT_TIMEOUT)"

lemma newRound_None:
  assumes "initializeNewBlockRound env now REASON_WAIT_PRECOMMIT_TIMEOUT h = (h', None)"
  shows "precommitTimedOut h'"
  using assms
  by (auto simp: initializeNewBlockRound_def precommitTimedOut_def putBlock_def newRound_def Let_def mget_mput
      split: option.splits sum.splits)

lemma consensusStep_None:
  assumes "consensusStep env now ph txns n p h = (h', None)"
  shows "precommitTimedOut h' \<or>
    (\<exists>b rd. mget (blockStateDetailsMap h') ph = Some b \<and> mget (blockRoundMap b) (currentRound b) = Some rd \<and>
       state rd = RECEIVED_COMMITS)"
proof -
  obtain b where b: "mget (blockStateDetailsMap h) ph = Some b"
    using assms by (cases "mget (blockStateDetailsMap h) ph") (simp_all add: consensusStep_def withRound_def)
  obtain rd where rd: "mget (blockRoundMap b) (currentRound b) = Some rd"
    using assms b by (cases "mget (blockRoundMap b) (currentRound b)") (simp_all add: consensusStep_def withRound_def)
  note d = assms [unfolded consensusStep_def withRound_def b option.case rd Let_def]
  have nr: "notReady r \<noteq> (h', None)" for r using notReady_Some [of r] by auto
  show ?thesis
  proof (cases "state rd")
    case WAITING_FOR_PRECOMMITS
    then have "shouldMoveToNextRoundPrecommit env now ph b rd h = Inr True"
        "initializeNewBlockRound env now REASON_WAIT_PRECOMMIT_TIMEOUT h = (h', None)"
      using d nr by (auto split: sum.splits bool.splits if_splits)
    then show ?thesis using newRound_None by blast
  next
    case RECEIVED_COMMITS
    then have "h' = fst (broadCast env now (selfCommitPacket rd) h)"
      using d by (cases "broadCast env now (selfCommitPacket rd) h") (auto simp: thenAlways_def split: if_splits)
    then have "frame h h'" using broadCast_frame [of h env now "selfCommitPacket rd"] by simp
    then show ?thesis using b rd RECEIVED_COMMITS by (auto simp: frame_def)
  qed (use d nr in \<open>simp_all\<close>)
qed

lemma engine_None:
  assumes "HandleConsensus env now rnd ph txns n h = (h', None)"
  shows "precommitTimedOut h' \<or>
    (\<exists>b rd. mget (blockStateDetailsMap h') ph = Some b \<and> mget (blockRoundMap b) (currentRound b) = Some rd \<and>
       state rd = RECEIVED_COMMITS)"
proof -
  obtain h1 where "runConsensus env now ph txns n h1 = (h', None)"
    using assms by (auto simp: HandleConsensus_def Let_def split: sum.splits if_splits)
  then obtain p h2 where "consensusStep env now ph txns n p h2 = (h', None)"
    by (auto simp: runConsensus_def andThen_def Let_def split: prod.splits option.splits sum.splits if_splits)
  then show ?thesis by (rule consensusStep_None)
qed

section \<open>The data of a block that is done\<close>

lemma consensusData_Inr:
  assumes "getBlockConsensusData env ph h = (h', Inr (data, additional))"
  obtains b rd txns m d where "committedRound ph h = Inr (b, rd)" and "BRound data = currentRound b"
    and "BPrecommitHash data = precommitHash rd" and "VoteType data = blockVoteType rd"
    and "ValidateBlockConsensusDataInner env txns ph data additional (filteredValidatorsDepositMap b)
      (blockNumber b) (validatorDetailsMap b) (consensusContext b) = (m, d, None)"
proof -
  obtain b rd where c: "committedRound ph h = Inr (b, rd)"
    using assms by (cases "committedRound ph h") (auto simp: getBlockConsensusData_def)
  obtain bcd where bcd: "consensusDataOf env ph b rd = Inr bcd"
    using assms c by (cases "consensusDataOf env ph b rd") (auto simp: getBlockConsensusData_def)
  note d = assms [unfolded getBlockConsensusData_def c sum.case prod.case bcd Let_def]
  obtain packets slashed where p:
    "collectRounds env ph b (VoteType bcd) (loopRounds (currentRound b)) [] [] = Inr (packets, slashed)"
    using d by (auto split: sum.splits)
  have data: "data = bcd\<lparr>SlashedBlockProposers := slashed\<rparr>"
    using d p by (auto split: if_splits prod.splits option.splits)
  have f: "BRound bcd = currentRound b" "BPrecommitHash bcd = precommitHash rd" "VoteType bcd = blockVoteType rd"
    using bcd by (auto simp: consensusDataOf_def split: if_splits option.splits)
  have "\<exists>m d. ValidateBlockConsensusDataInner env (if VoteType bcd = VOTE_TYPE_NIL then [] else proposalTxns rd) ph
      data additional (filteredValidatorsDepositMap b) (blockNumber b) (validatorDetailsMap b) (consensusContext b) =
        (m, d, None)"
    using d p by (auto split: if_splits prod.splits option.splits)
  then show ?thesis using that [OF c] f data by auto
qed

section \<open>Progress\<close>

text \<open>A bound on the length of an encoding; a header has at most 9 bytes.\<close>

fun encBound :: "rval \<Rightarrow> nat" where
  "encBound (VUint i) = 17"
| "encBound (VBool b) = 1"
| "encBound (VBig i) = 9 + (bitlen (nat i) + 7) div 8"
| "encBound (VBytes b) = 9 + length b"
| "encBound (VArray b) = 9 + length b"
| "encBound (VSlice vs) = 9 + sum_list (map encBound vs)"
| "encBound (VStruct vs) = 9 + sum_list (map encBound vs)"

lemma length_puthead_le: "length (puthead st lt n) \<le> 9"
  using nbytes_bounds(2) [of "unat n"] by (simp add: puthead_def Let_def length_putint)

lemma length_enc_uint: "length (enc_uint n) \<le> 9 + (bitlen n + 7) div 8"
  using length_puthead_le [of "0x80" "0xB7"] by (simp add: enc_uint_def Let_def add_mono)

lemma bitlen_le: "n < 2 ^ k \<Longrightarrow> bitlen n \<le> k"
proof (rule ccontr)
  assume n: "n < 2 ^ k" and "\<not> bitlen n \<le> k"
  then have "bitlen n \<noteq> 0" "(2 :: nat) ^ k \<le> 2 ^ (bitlen n - 1)" by (auto intro: power_increasing)
  moreover have "0 < n"
    using \<open>\<not> bitlen n \<le> k\<close> by (cases "n = 0") (simp_all add: bitlen.simps [of 0])
  ultimately show False using bitlen_bounds [of n] n by linarith
qed

lemma length_enc_le: "length (enc v) \<le> encBound v"
proof (induction v rule: enc.induct)
  case (1 i)
  have "bitlen (unat i) \<le> 64" by (rule bitlen_le [OF unat_u64_less])
  then have "(bitlen (unat i) + 7) div 8 \<le> 8" by linarith
  with length_enc_uint [of "unat i"] show ?case by simp
next
  case (3 i)
  show ?case using length_enc_uint [of "nat i"] by simp
next
  case (4 b)
  show ?case using length_puthead_le [of "0x80" "0xB7"] by (simp add: enc_string_def)
next
  case (5 b)
  show ?case using length_puthead_le [of "0x80" "0xB7"] by (simp add: enc_string_def)
next
  case (6 vs)
  then have "sum_list (map (length \<circ> enc) vs) \<le> sum_list (map encBound vs)" by (intro sum_list_mono) auto
  with length_puthead_le [of "0xC0" "0xF7"] show ?case by (simp add: enc_seq_def length_concat o_def add_mono)
next
  case (7 vs)
  then have "sum_list (map (length \<circ> enc) vs) \<le> sum_list (map encBound vs)" by (intro sum_list_mono) auto
  with length_puthead_le [of "0xC0" "0xF7"] show ?case by (simp add: enc_seq_def length_concat o_def add_mono)
qed simp

lemma encode_bounded:
  assumes "encodable v" and "encBound v < 2 ^ 63"
  shows "encodeDetails v = Inr (enc v)" and "length (enc v) < 2 ^ 63"
proof -
  show l: "length (enc v) < 2 ^ 63" using length_enc_le [of v] assms(2) by linarith
  then show "encodeDetails v = Inr (enc v)" using EncodeToBytes_eq [OF assms(1)] by (simp add: encodeDetails_def)
qed

text \<open>The votes that a node signs can be encoded, and are decoded to the same vote.\<close>

lemma ack_encodes:
  assumes "length (ProposalHash d) = 32"
  shows "encodeDetails (V_Ack d) = Inr (enc (V_Ack d))" and "decodeAck (enc (V_Ack d)) = Inr d"
proof -
  note e = encode_bounded [OF ack_msg.val_encodable, of d]
  show "encodeDetails (V_Ack d) = Inr (enc (V_Ack d))" using e(1) assms by (simp add: V_Ack_def)
  then show "decodeAck (enc (V_Ack d)) = Inr d"
    using ack_msg.message_roundtrip [OF assms] e(2) assms by (simp add: V_Ack_def)
qed

lemma precommit_encodes:
  assumes "length (PrecommitHash d) = 32"
  shows "encodeDetails (V_Precommit d) = Inr (enc (V_Precommit d))" and "decodePrecommit (enc (V_Precommit d)) = Inr d"
proof -
  note e = encode_bounded [OF precommit_msg.val_encodable, of d]
  show "encodeDetails (V_Precommit d) = Inr (enc (V_Precommit d))" using e(1) assms by (simp add: V_Precommit_def)
  then show "decodePrecommit (enc (V_Precommit d)) = Inr d"
    using precommit_msg.message_roundtrip [OF assms] e(2) assms by (simp add: V_Precommit_def)
qed

lemma commit_encodes:
  assumes "length (CommitHash d) = 32"
  shows "encodeDetails (V_Commit d) = Inr (enc (V_Commit d))" and "decodeCommit (enc (V_Commit d)) = Inr d"
proof -
  note e = encode_bounded [OF commit_msg.val_encodable, of d]
  show "encodeDetails (V_Commit d) = Inr (enc (V_Commit d))" using e(1) assms by (simp add: V_Commit_def)
  then show "decodeCommit (enc (V_Commit d)) = Inr d"
    using commit_msg.message_roundtrip [OF assms] e(2) assms by (simp add: V_Commit_def)
qed

text \<open>The node can decode what it signs, whichever header the packet has.\<close>

lemma createPacket_decodes:
  assumes "createPacket env ph t v f h = Inr packet" and "t < MinConsensusNetworkProtocolVersion"
    and "encodeDetails v = Inr data"
  shows "decodeBody dec packet = dec data" and "getPacketType packet = Inr t"
  using assms
  by (auto simp: createPacket_def createConsensusPacket_def dataToSend_def decodeBody_def packetBody_def getPacketType_def
      startIndex_def not_le split: sum.splits option.splits if_splits)

lemma createPacket_total:
  assumes "encodeDetails v = Inr data" and "signFn env = Some sign" and "\<And>x. \<exists>s. sign x = Inr s"
  shows "\<exists>packet. createPacket env ph t v False h = Inr packet"
  using assms(3) [of "ph @ dataToSend h t data"] assms(1,2)
  by (auto simp: createPacket_def createConsensusPacket_def)

text \<open>The current round of a block.\<close>

definition atState :: "hash \<Rightarrow> byte \<Rightarrow> BlockRoundState \<Rightarrow> consensusHandler \<Rightarrow> bool" where
  "atState ph r s h \<longleftrightarrow>
    (\<exists>b rd. mget (blockStateDetailsMap h) ph = Some b \<and> currentRound b = r \<and>
       mget (blockRoundMap b) r = Some rd \<and> state rd = s)"

lemma atState_frame: "frame h h' \<Longrightarrow> atState ph r s h' \<longleftrightarrow> atState ph r s h"
  by (simp add: atState_def frame_def)

lemma atState_store:
  "currentRound b = r \<Longrightarrow> state rd = s \<Longrightarrow> atState ph r s (storeRound ph b rd h)"
  by (simp add: atState_def storeRound_def putRound_def putBlock_def mget_mput)

lemma tally_votes:
  assumes "votesOk (\<lambda>v d. mhas fm v \<and> P v d) m" and "mhas fm acc"
  shows "tally fm (mkeys (mput acc d m)) 0 = Inr (weight fm (insert acc (fst ` set m)))"
proof -
  have "set (mkeys (mput acc d m)) \<subseteq> fst ` set fm"
    using votesOk_keys(1) [OF assms(1)] assms(2) by (simp add: set_mkeys fst_set_mput mhas_iff)
  then obtain t where t: "tally fm (mkeys (mput acc d m)) 0 = Inr t" using tally_Inr by blast
  have "wfm (mput acc d m)" using assms(1) by (simp add: votesOk_def wfm_mput)
  from tally_weight [OF t this] t show ?thesis by (simp add: fst_set_mput)
qed

lemma own_commit_counts:
  assumes "lookupRound ph h = Inr (b, rd)" and "checkCommit env (account h) packet True h b rd = Inr d"
    and "ParentHash packet = ph" and "votesInv env (filteredValidatorsDepositMap b) (currentRound b) rd"
    and "blockMinWeightedProposalsRequired b \<le>
      weight (filteredValidatorsDepositMap b) (insert (account h) (fst ` set (validatorCommits rd)))"
  shows "\<exists>h1. handleCommitPacket env now (account h) packet True h = (h1, None) \<and>
    atState ph (currentRound b) RECEIVED_COMMITS h1"
proof -
  have "votesOk (\<lambda>v d. mhas (filteredValidatorsDepositMap b) v \<and>
      (CommitHash d = getCommitHash env (precommitHash rd) \<and> CRound d = currentRound b)) (validatorCommits rd)"
    using assms(4) by (simp add: votesInv_def)
  from tally_votes [OF this lookupRound_Inr(3) [OF assms(1)]] assms(1,2,3,5) show ?thesis
    by (auto simp: handleCommitPacket_def Let_def intro!: atState_store)
qed

lemma own_precommit_counts:
  assumes "lookupRound ph h = Inr (b, rd)" and "checkPrecommit (account h) packet True h b rd = Inr d"
    and "ParentHash packet = ph" and "votesInv env (filteredValidatorsDepositMap b) (currentRound b) rd"
    and "blockMinWeightedProposalsRequired b \<le>
      weight (filteredValidatorsDepositMap b) (insert (account h) (fst ` set (validatorPrecommits rd)))"
  shows "\<exists>h1. handlePrecommitPacket now (account h) packet True h = (h1, None) \<and>
    atState ph (currentRound b) WAITING_FOR_COMMITS h1"
proof -
  have "votesOk (\<lambda>v d. mhas (filteredValidatorsDepositMap b) v \<and>
      (PrecommitHash d = precommitHash rd \<and> PCRound d = currentRound b)) (validatorPrecommits rd)"
    using assms(4) by (simp add: votesInv_def)
  from tally_votes [OF this lookupRound_Inr(3) [OF assms(1)]] assms(1,2,3,5) show ?thesis
    by (auto simp: handlePrecommitPacket_def Let_def intro!: atState_store)
qed

text \<open>A signer that always signs, and hashes of 32 bytes.\<close>

definition canVote :: "penv \<Rightarrow> bool" where
  "canVote env \<longleftrightarrow> (\<forall>x. length (keccak env x) = 32) \<and> (\<exists>sign. signFn env = Some sign \<and> (\<forall>x. \<exists>s. sign x = Inr s))"

lemma commit_progress:
  assumes "hinv env h" and "canVote env" and l: "lookupRound ph h = Inr (b, rd)"
    and s: "state rd = WAITING_FOR_COMMITS" and nc: "\<not> selfCommited rd"
    and "blockMinWeightedProposalsRequired b \<le>
      weight (filteredValidatorsDepositMap b) (insert (account h) (fst ` set (validatorCommits rd)))"
  shows "atState ph (currentRound b) RECEIVED_COMMITS (fst (commitBlock env now ph h))"
proof -
  note b = lookupRound_Inr [OF l]
  note i = roundInvD [OF hinv_round [OF assms(1) b(1,2)]]
  let ?d = "\<lparr>CommitHash = getCommitHash env (precommitHash rd), CRound = Round rd\<rparr>"
  have r: "Round rd = currentRound b" using i(1) by (simp add: stateInv_def)
  have len: "length (CommitHash ?d) = 32" using assms(2) by (simp add: canVote_def getCommitHash_def Keccak256Hash_def)
  note e = commit_encodes [OF len]
  obtain packet where p: "createPacket env ph CONSENSUS_PACKET_TYPE_COMMIT_BLOCK (V_Commit ?d) False h = Inr packet"
    using createPacket_total [OF e(1)] assms(2) unfolding canVote_def by blast
  have d: "decodeBody decodeCommit packet = Inr ?d"
    using createPacket_decodes(1) [OF p _ e(1), of decodeCommit] e(2) by simp
  have c: "checkCommit env (account h) packet True h b rd = Inr ?d"
    using s b(3) d r by (simp add: checkCommit_def getCommitHash_def)
  obtain h1 where h1: "handleCommitPacket env now (account h) packet True h = (h1, None)"
      "atState ph (currentRound b) RECEIVED_COMMITS h1"
    using own_commit_counts [OF l c createPacket_ParentHash [OF p] i(2) assms(6)] by blast
  have "selfAckPacket rd \<noteq> None" "selfPrecommitPacket rd \<noteq> None"
    using i(1,3,4,5) s by (auto simp: stateInv_def quorumInv_def ownAck_def ownPrecommit_def state_order)
  then have "fst (commitBlock env now ph h) = fst (broadCast env now (Some packet) h1)"
    using b p h1 s nc by (auto simp: commitBlock_def withRound_def andThen_def)
  then show ?thesis using atState_frame [OF broadCast_frame] h1(2) by simp
qed

lemma precommit_progress:
  assumes "hinv env h" and "canVote env" and l: "lookupRound ph h = Inr (b, rd)"
    and s: "state rd = WAITING_FOR_PRECOMMITS" and nc: "\<not> selfPrecommited rd"
    and "blockMinWeightedProposalsRequired b \<le>
      weight (filteredValidatorsDepositMap b) (insert (account h) (fst ` set (validatorPrecommits rd)))"
  shows "atState ph (currentRound b) WAITING_FOR_COMMITS (fst (precommitBlock env now ph h))"
proof -
  note b = lookupRound_Inr [OF l]
  note i = roundInvD [OF hinv_round [OF assms(1) b(1,2)]]
  let ?d = "\<lparr>PrecommitHash = precommitHash rd, PCRound = Round rd\<rparr>"
  have r: "Round rd = currentRound b" using i(1) by (simp add: stateInv_def)
  have "decided env ph (currentRound b) rd" using i(1) s by (simp add: stateInv_def)
  then have len: "length (PrecommitHash ?d) = 32"
    using assms(2)
    by (auto simp: decided_def canVote_def getOkVotePreCommitHash_def getNilVotePreCommitHash_def Keccak256Hash_def
        split: if_splits)
  note e = precommit_encodes [OF len]
  obtain packet where p: "createPacket env ph CONSENSUS_PACKET_TYPE_PRECOMMIT_BLOCK (V_Precommit ?d) False h = Inr packet"
    using createPacket_total [OF e(1)] assms(2) unfolding canVote_def by blast
  have d: "decodeBody decodePrecommit packet = Inr ?d"
    using createPacket_decodes(1) [OF p _ e(1), of decodePrecommit] e(2) by simp
  have c: "checkPrecommit (account h) packet True h b rd = Inr ?d"
    using s b(3) d r by (simp add: checkPrecommit_def)
  obtain h1 where h1: "handlePrecommitPacket now (account h) packet True h = (h1, None)"
      "atState ph (currentRound b) WAITING_FOR_COMMITS h1"
    using own_precommit_counts [OF l c createPacket_ParentHash [OF p] i(2) assms(6)] by blast
  have "selfAckPacket rd \<noteq> None" using i(1,4) s by (auto simp: stateInv_def ownAck_def state_order)
  then have "fst (precommitBlock env now ph h) =
      fst (thenAlways (broadCast env now (selfAckPacket rd) h1) (broadCast env now (Some packet)))"
    using b p h1 s nc by (auto simp: precommitBlock_def withRound_def andThen_def)
  moreover have "frame h1 (fst (thenAlways (broadCast env now (selfAckPacket rd) h1) (broadCast env now (Some packet))))"
    using broadCast_frame frame_trans [OF broadCast_frame broadCast_frame]
    by (simp add: thenAlways_def split: prod.split) (metis fst_conv)
  ultimately show ?thesis using atState_frame h1(2) by simp
qed

section \<open>Accepted blocks\<close>

text \<open>The data that a block carries.\<close>

definition blockData :: "consensusBlock \<Rightarrow> perr + blockConsensusData" where
  "blockData block = decodeDetails T_BlockConsensusData blockConsensusData_of (the (cb_ConsensusData block))"

definition blockPackets :: "consensusBlock \<Rightarrow> packet list" where
  "blockPackets block =
    (case decodeDetails T_Additional additional_of (the (cb_UnhashedConsensusData block)) of
       Inl e \<Rightarrow> [] | Inr d \<Rightarrow> ConsensusPackets d)"

lemma accepted_block:
  assumes "ValidateBlockConsensusData env block vm dm = (m, d, None)"
  obtains bcd bacd ctx where "blockData block = Inr bcd" and "blockPackets block = ConsensusPackets bacd"
    and "ValidateBlockConsensusDataInner env (cb_TxHashes block) (cb_ParentHash block) bcd bacd vm
      (Uint64 (cb_Number block)) dm ctx = (m, d, None)"
  using assms
  by (auto simp: ValidateBlockConsensusData_def blockData_def blockPackets_def split: option.splits sum.splits if_splits)

end
