(* ===== verification/Pos_Boundaries.thy ===== *)
theory Pos_Boundaries
  imports Pos_Safety
begin

text \<open>
  The edges of the handler: restarts and the hash file, the limit on repeated broadcasts, clocks,
  packets and calls that stop the node, and bookkeeping that does not do what it is meant to.
\<close>

section \<open>Restarts\<close>

text \<open>A new process of the node finds the hash file that the old one has left.\<close>

definition restarted :: "address \<Rightarrow> bool \<Rightarrow> consensusHandler \<Rightarrow> consensusHandler" where
  "restarted acc relay h = (NewConsensusPacketHandler acc relay)\<lparr>previousHashFile := previousHashFile h\<rparr>"

lemma hash_file:
  assumes "length ph = 32" and "SaveHash env ph h = (h', None)"
    and "\<not> skipHashCheck env'" and "readHashErr env' = None"
  shows "DoesPreviousHashMatch env' (restarted acc relay h') ph' = Inr (ph' = ph)"
proof -
  have "previousHashFile h' = Some (hash_Hex ph)"
    using assms(2) by (auto simp: SaveHash_def split: option.splits)
  with assms(1,3,4) show ?thesis
    by (auto simp: DoesPreviousHashMatch_def restarted_def HexToHash_hash_Hex)
qed

text \<open>
  The node waits for the next block only when the random number is 1; otherwise it starts with the
  block for which the old process may have voted.
\<close>

lemma restart_engine:
  assumes "length ph = 32" and "SaveHash env ph h = (h', None)"
    and "\<not> skipHashCheck env'" and "readHashErr env' = None"
  shows "snd (HandleConsensus env' now 1 ph txns n (restarted acc relay h')) =
      Some (ErrText ''Waiting for previous block to mine'')"
    and "rndVal \<noteq> 1 \<Longrightarrow> initialized (fst (HandleConsensus env' now rndVal ph txns n (restarted acc relay h')))"
proof -
  let ?h = "SetLatestBlockNumber n (restarted acc relay h')"
  have i: "\<not> initialized ?h" by (simp add: restarted_def SetLatestBlockNumber_def NewConsensusPacketHandler_def)
  have m: "DoesPreviousHashMatch env' ?h ph = Inr True"
    using hash_file [OF assms, of acc relay ph] assms(3)
    by (simp add: DoesPreviousHashMatch_def SetLatestBlockNumber_def)
  show "snd (HandleConsensus env' now 1 ph txns n (restarted acc relay h')) =
      Some (ErrText ''Waiting for previous block to mine'')"
    using i m by (simp add: HandleConsensus_def Let_def)
  show "rndVal \<noteq> 1 \<Longrightarrow> initialized (fst (HandleConsensus env' now rndVal ph txns n (restarted acc relay h')))"
    using i m by (simp add: HandleConsensus_def Let_def)
qed

section \<open>Broadcasts\<close>

lemma direct_sent:
  assumes "outbox (fst (broadcastDirect env now packet h)) \<noteq> outbox h"
  shows "mget (packetHashLastSentMap (fst (broadcastDirect env now packet h)))
    (Keccak256Hash env (ParentHash packet @ ConsensusData packet)) = Some now"
proof -
  have f: "mget (filter (\<lambda>(k, v). \<not> Elapsed now v \<ge> BROADCAST_CLEANUP_DELAY) (mput k now m)) k = Some now" for k :: hash and m
    by (induction m) (auto simp: mput_def Elapsed_def)
  show ?thesis using assms
    by (auto simp: broadcastDirect_def cleanupBroadcast_def send_def Let_def f split: sum.splits option.splits if_splits)
qed

lemma direct_again:
  assumes "mget (packetHashLastSentMap h) (Keccak256Hash env (ParentHash packet @ ConsensusData packet)) = Some t"
    and "Elapsed now t \<le> BROADCAST_RESEND_DELAY"
  shows "outbox (fst (broadcastDirect env now packet h)) = outbox h"
  using assms by (auto simp: broadcastDirect_def Let_def split: sum.splits)

lemma broadcast_once:
  assumes "h1 = fst (broadCast env now (Some packet) h)" and "outbox h1 \<noteq> outbox h"
    and "Elapsed now' now \<le> BROADCAST_RESEND_DELAY"
  shows "outbox (fst (broadCast env now' (Some packet) h1)) = outbox h1"
proof -
  have "\<exists>p. h1 = fst (broadcastDirect env now packet (h\<lparr>peers := p\<rparr>))"
    using assms(1,2) by (auto simp: broadCast_def split: if_splits prod.splits intro: exI [of _ "peers h"])
  then obtain p where p: "h1 = fst (broadcastDirect env now packet (h\<lparr>peers := p\<rparr>))" by blast
  then have s: "mget (packetHashLastSentMap h1) (Keccak256Hash env (ParentHash packet @ ConsensusData packet)) = Some now"
    using direct_sent [of env now packet "h\<lparr>peers := p\<rparr>"] assms(2) by simp
  have "outbox (fst (broadcastDirect env now' packet (h1\<lparr>peers := p'\<rparr>))) = outbox h1" for p'
    using direct_again [of "h1\<lparr>peers := p'\<rparr>" env packet now now'] s assms(3) by simp
  from this this [of "peers h1"] show ?thesis by (simp add: broadCast_def split: prod.split)
qed

section \<open>Clocks\<close>

text \<open>The time that a node puts into a proposal is accepted by nodes whose clocks are close.\<close>

lemma minute_start: "unixTime now - unixTime now mod 60 = 60 * (now div 60000)"
proof -
  have "unixTime now - unixTime now mod 60 = 60 * (unixTime now div 60)" by (simp add: minus_mod_eq_mult_div)
  also have "unixTime now div 60 = now div 60000" by (simp add: unixTime_def zdiv_zmult2_eq [symmetric])
  finally show ?thesis .
qed

lemma proposal_minute:
  assumes "timedBlock n" and "0 \<le> now" and "now < 2 ^ 60"
  shows "GetProposalTime now n = word_of_int (60 * (now div 60000))"
proof -
  let ?u = "unixTime now" and ?w = "word_of_int (unixTime now) :: u64"
  have u: "0 \<le> ?u" "?u < 2 ^ 60" using assms(2,3) by (simp_all add: unixTime_def)
  then have "uint ?w = ?u" by (simp add: uint_word_of_int)
  then have "uint (?w mod 60) = ?u mod 60" by (simp add: uint_mod)
  then have m: "?w mod 60 = word_of_int (?u mod 60)" by (metis word_of_int_uint)
  have "GetProposalTime now n = ?w - ?w mod 60" using assms(1) by (simp add: GetProposalTime_def Let_def)
  also have "\<dots> = word_of_int (?u - ?u mod 60)" unfolding m by simp
  finally show ?thesis by (simp only: minute_start)
qed

lemma proposal_time_accepted:
  assumes "60000 \<le> now" and "now < 2 ^ 60" and "\<bar>now' - now\<bar> \<le> 120000"
  shows "ValidateBlockProposalTimeConsensus now' n (GetProposalTime now n)"
proof (cases "timedBlock n")
  case True
  let ?t = "60 * (now div 60000)"
  have t: "0 < ?t" "?t < 2 ^ 60" using assms(1,2) by linarith+
  have g: "GetProposalTime now n = word_of_int ?t" using proposal_minute [OF True] assms(1,2) by simp
  have s: "sint (word_of_int ?t :: u64) = ?t" unfolding int_word_sint using t by simp
  then have nz: "(word_of_int ?t :: u64) \<noteq> 0" using t(1) by (metis less_irrefl sint_0)
  have "\<bar>?t - 60 * (now' div 60000)\<bar> \<le> 180" using assms(3) by linarith
  with True g s nz show ?thesis by (simp add: ValidateBlockProposalTimeConsensus_def Let_def minute_start)
qed (simp add: GetProposalTime_def ValidateBlockProposalTimeConsensus_def)

section \<open>What stops the node\<close>

text \<open>A packet with a protocol version and nothing else is read behind its end, whoever signed it.\<close>

lemma one_byte_packet:
  assumes "ConsensusData packet = [v]" and "MinConsensusNetworkProtocolVersion \<le> v"
    and "CRYPTO_SIGNATURE_BYTES \<le> length (Signature packet)" and "signFn env \<noteq> None"
  shows "snd (HandleConsensusPacket env now packet k h) = Some indexPanic"
proof -
  have t: "getPacketType packet = Inl indexPanic" using assms(1,2) by (simp add: getPacketType_def startIndex_def)
  have s: "Signature packet \<noteq> []" using assms(3) by auto
  have "peer_HandleConsensusPacket packet k p = (p, Some indexPanic)" for p
    using t s assms(1) by (simp add: peer_HandleConsensusPacket_def)
  moreover have "processPacket env now packet h' = (h', Some indexPanic)" for h'
    using t assms(1,3) by (simp add: processPacket_def)
  ultimately show ?thesis using s assms(1,4)
    by (auto simp: HandleConsensusPacket_def)
qed

text \<open>
  When the engine returns to an earlier parent block whose state is older than the cleanup time,
  the state is removed and then dereferenced.
\<close>

lemma old_block_panics:
  assumes "wfm (blockStateDetailsMap h)" and "mget (blockStateDetailsMap h) ph = Some b"
    and "block_parentHash b \<noteq> currentParentHash h" and "BLOCK_CLEANUP_TIME_MS \<le> Elapsed now (block_initTime b)"
    and "initialized h" and "HasExceededTimeThreshold now (initTime h) STARTUP_DELAY_MS"
  shows "snd (HandleConsensus env now rndVal ph txns n h) = Some nilPanic"
proof -
  have c: "mget (blockStateDetailsMap (cleanupBlockState now h')) ph = None"
    if "blockStateDetailsMap h' = blockStateDetailsMap h" "currentParentHash h' = currentParentHash h" for h'
    using assms(1-4) that by (auto simp: cleanupBlockState_def mget_filter)
  have "runConsensus env now ph txns n h' = (cleanupBlockState now h', Some nilPanic)"
    if "blockStateDetailsMap h' = blockStateDetailsMap h" "currentParentHash h' = currentParentHash h" for h'
    using c [OF that] assms(2) that(1)
    by (simp add: runConsensus_def initializeBlockStateIfRequired_def mhas_def andThen_def)
  with assms(5,6) show ?thesis by (simp add: HandleConsensus_def SetLatestBlockNumber_def Let_def)
qed

text \<open>A new round always goes to the newest parent block, not to the block whose precommits timed out.\<close>

lemma round_of_other_block:
  assumes "mget (blockStateDetailsMap h) ph = Some b" and "mget (blockRoundMap b) (currentRound b) = Some rd"
    and "state rd = WAITING_FOR_PRECOMMITS" and "shouldMoveToNextRoundPrecommit env now ph b rd h = Inr True"
    and "currentParentHash h \<noteq> ph"
  shows "mget (blockStateDetailsMap (fst (consensusStep env now ph txns n p h))) ph = Some b"
  using assms
  by (auto simp: consensusStep_def withRound_def initializeNewBlockRound_def putBlock_def mget_mput Let_def
      split: option.split sum.split)

section \<open>Packets that came too early\<close>

text \<open>Of the packets of a block that came too early only the last one is kept.\<close>

lemma early_packet_lost:
  assumes "mget (outOfOrderPacketsMap h) ph = None" and "ParentHash p1 = ph" and "ParentHash p2 = ph"
    and "packet_Hash env (NewConsensusPacket p2) \<noteq> ph"
  shows "mget (outOfOrderPacketsMap (keepOutOfOrder env now2 p2 (keepOutOfOrder env now1 p1 h))) ph =
    Some [(ph, \<lparr>ReceivedTime = now2, OPacket = NewConsensusPacket p2\<rparr>)]"
  using assms by (auto simp: keepOutOfOrder_def Let_def mget_mput mhas_def)

section \<open>Statistics\<close>

text \<open>The keys of the time statistics have two dashes, those made at the start have one.\<close>

lemma bucket_keys: "prefix \<in> {''proposal'', ''ackProposal'', ''precommit'', ''commit'', ''total''} \<Longrightarrow>
  GetTimeStatBucket prefix ms \<notin> set statKeys"
  by (auto simp: GetTimeStatBucket_def statKeys_def timeBuckets_def Let_def)

lemma bucket_boundary: "GetTimeStatBucket prefix 1000 = prefix @ ''--30s+''" "GetTimeStatBucket prefix 10000 = prefix @ ''--30s+''"
  by (simp_all add: GetTimeStatBucket_def Let_def)

text \<open>A lost peer is entered as a new connection.\<close>

lemma disconnect_keeps_peer:
  "mget (peerMap (peers (OnPeerDisconnected k h))) k = Some \<lparr>capabilityDetails = None, pd_peerId = k\<rparr> \<and>
    consensusRelayMap (peers (OnPeerDisconnected k h)) = consensusRelayMap (peers h) \<and>
    syncPeerMap (peers (OnPeerDisconnected k h)) = syncPeerMap (peers h)"
  by (simp add: OnPeerDisconnected_def peer_OnPeerConnected_def go_def mget_mput Let_def)

end
