(* ===== verification/Pos_Example.thy ===== *)
theory Pos_Example
  imports Pos_Boundaries
begin

text \<open>
  A concrete node: one validator with all of the deposit, a hash function and signatures that can
  be computed, and the run of the engine for one block. The properties are applied to this run.
\<close>

section \<open>The environment\<close>

definition exValidator :: address where
  "exValidator = replicate 32 7"

definition exParent :: hash where
  "exParent = replicate 32 9"

definition exTxn :: hash where
  "exTxn = replicate 32 5"

definition exDeposits :: "(address, int) gomap" where
  "exDeposits = [(exValidator, EtherToWei 1000000000000)]"

definition exEnv :: penv where
  "exEnv = \<lparr>keccak = (\<lambda>d. sum_list d # replicate 31 1), keystream = (\<lambda>_ _ _. 0),
    pubKeyFromSig = (\<lambda>_ s. Some s), sigVerify = (\<lambda>_ _ _. True),
    pubKeyFromSigCtx = (\<lambda>_ s _. Some s), sigVerifyCtx = (\<lambda>_ _ _ _. True),
    pubKeyToAddress = (\<lambda>pk. Some (replicate 32 (hd (pk @ [0])))), sigWithPubKeyLength = 1,
    signFn = Some (\<lambda>_. Inr [7]), signFnWithContext = (\<lambda>_ _. Inr [7, 7]),
    getValidatorsFn = (\<lambda>_. Inr exDeposits),
    listValidatorsFn = (\<lambda>_. Inr []), getBlockConsensusContext = (\<lambda>_ _. Inr []),
    doesFinalizedTransactionExistFn = (\<lambda>_. Inr False), requestTransactions = (\<lambda>_. None),
    sendConsensusPacket = (\<lambda>_ _. None), breakglassFile = (\<lambda>_. False), skipHashCheck = False,
    readHashErr = None, saveHashErr = None, writeHashErr = None, floatOverflow = (\<lambda>_. 0), MIN_VALIDATORS = 1\<rparr>"

text \<open>The engine calls the handler every 200 seconds for block 100.\<close>

fun exRun :: "hash list \<Rightarrow> nat \<Rightarrow> consensusHandler" where
  "exRun txns 0 = NewConsensusPacketHandler exValidator False"
| "exRun txns (Suc k) = fst (HandleConsensus exEnv (200000 * int (Suc k)) 2 exParent txns 100 (exRun txns k))"

lemma ex_deposits: "deposits_ok exDeposits"
  by (simp add: deposits_ok_def nonneg_def exDeposits_def EtherToWei_def)

lemma ex_chain: "sameChain exEnv exEnv"
  by (simp add: sameChain_def env_ok_def ex_deposits exEnv_def)

lemma ex_canVote: "canVote exEnv"
  by (simp add: canVote_def exEnv_def)

lemma exRun_reach: "reach exEnv exValidator (exRun txns k)"
proof (induction k)
  case 0
  have "exRun txns 0 = (NewConsensusPacketHandler exValidator False)\<lparr>previousHashFile := None\<rparr>"
    by (simp add: NewConsensusPacketHandler_def)
  then show ?case by (simp only: reach.start)
next
  case (Suc k)
  then show ?case using reach.further [OF _ step.engine [OF ex_chain]] by simp
qed

section \<open>The run\<close>

text \<open>What the run has recorded of round 1.\<close>

definition exRound :: "hash list \<Rightarrow> nat \<Rightarrow> (u64 \<times> (address, int) gomap \<times> int \<times> byte \<times> roundDetails) option" where
  "exRound txns k =
    (case mget (blockStateDetailsMap (exRun txns k)) exParent of
       None \<Rightarrow> None
     | Some b \<Rightarrow> (case mget (blockRoundMap b) 1 of
         None \<Rightarrow> None
       | Some rd \<Rightarrow> Some (blockNumber b, filteredValidatorsDepositMap b, blockMinWeightedProposalsRequired b, currentRound b, rd)))"

lemma exRoundE:
  assumes "map_option f (exRound txns k) = Some y"
  obtains b rd where "mget (blockStateDetailsMap (exRun txns k)) exParent = Some b" and "mget (blockRoundMap b) 1 = Some rd"
    and "f (blockNumber b, filteredValidatorsDepositMap b, blockMinWeightedProposalsRequired b, currentRound b, rd) = y"
  using assms by (auto simp: exRound_def split: option.splits)

lemma exRun_3: "map_option (\<lambda>(n, fm, q, cur, rd). (fm, q, cur, state rd, selfAckd rd, selfPrecommited rd, mkeys (validatorPrecommits rd)))
      (exRound [] 3) =
    Some (exDeposits, 700000000000000000000000000000, 1, WAITING_FOR_PRECOMMITS, True, False, [])"
  by code_simp

lemma exRun_4: "map_option (\<lambda>(n, fm, q, cur, rd). (fm, q, cur, state rd, selfCommited rd, mkeys (validatorCommits rd))) (exRound [] 4) =
    Some (exDeposits, 700000000000000000000000000000, 1, WAITING_FOR_COMMITS, False, [])"
  by code_simp

lemma exRun_5: "map_option (\<lambda>(n, fm, q, cur, rd). (n, fm, cur, state rd, precommitHash rd)) (exRound [] 5) =
    Some (100, exDeposits, 1, RECEIVED_COMMITS, 98 # replicate 31 1)"
  by code_simp

lemma exRun_txn: "map_option (\<lambda>(n, fm, q, cur, rd). (n, fm, cur, state rd, precommitHash rd)) (exRound [exTxn] 5) =
    Some (100, exDeposits, 1, RECEIVED_COMMITS, 2 # replicate 31 1)"
  by code_simp

section \<open>The blocks\<close>

definition exVote :: "byte list \<Rightarrow> packet" where
  "exVote d = \<lparr>ParentHash = exParent, Signature = [7], ConsensusData = d\<rparr>"

definition exData :: "byte \<Rightarrow> byte \<Rightarrow> hash list \<Rightarrow> blockConsensusData" where
  "exData p c txns = \<lparr>BlockProposer = exValidator, VoteType = 1, BProposalHash = p # replicate 31 1,
    BPrecommitHash = c # replicate 31 1, SlashedBlockProposers = [], BRound = 1,
    SelectedTransactions = txns, BBlockTime = 0\<rparr>"

definition exAdditional :: "byte list \<Rightarrow> byte \<Rightarrow> byte \<Rightarrow> byte \<Rightarrow> blockAdditionalConsensusData" where
  "exAdditional prop p c k = \<lparr>ConsensusPackets = [exVote ([0] @ prop),
     exVote ([1, 227, 160, p] @ replicate 31 1 @ [1, 1]), exVote ([2, 226, 160, c] @ replicate 31 1 @ [1]),
     exVote ([3, 226, 160, k] @ replicate 31 1 @ [1])], InitTime = 400000\<rparr>"

lemma exRun_data: "snd (getBlockConsensusData exEnv exParent (exRun [] 5)) =
    Inr (exData 33 98 [], exAdditional [195, 192, 1, 128] 33 98 129)"
  by code_simp

lemma exRun_data_txn: "snd (getBlockConsensusData exEnv exParent (exRun [exTxn] 5)) =
    Inr (exData 193 2 [exTxn], exAdditional ([228, 225, 160] @ exTxn @ [1, 128]) 193 2 33)"
  by code_simp

section \<open>The blocks as another node receives them\<close>

definition exBlock :: "blockConsensusData \<Rightarrow> blockAdditionalConsensusData \<Rightarrow> consensusBlock" where
  "exBlock d a = \<lparr>cb_ParentHash = exParent, cb_Number = 100, cb_ConsensusData = Some (enc (V_BlockConsensusData d)),
    cb_UnhashedConsensusData = Some (enc (V_Additional a)), cb_TxHashes = SelectedTransactions d\<rparr>"

definition exBlock1 :: consensusBlock where
  "exBlock1 = exBlock (exData 33 98 []) (exAdditional [195, 192, 1, 128] 33 98 129)"

definition exBlock2 :: consensusBlock where
  "exBlock2 = exBlock (exData 193 2 [exTxn]) (exAdditional ([228, 225, 160] @ exTxn @ [1, 128]) 193 2 33)"

lemma decodes_enc:
  assumes "go_type t" and "has_type t v" and "encBound v < 2 ^ 63" and "conv v = Some d"
  shows "decodeDetails t conv (enc v) = Inr d"
  using DecodeBytes_enc [OF assms(1,2)] length_enc_le [of v] assms(3,4) by (simp add: decodeDetails_def)

lemmas ex_typed = T_BlockConsensusData_def V_BlockConsensusData_def exData_def exValidator_def exTxn_def
  T_Additional_def V_Additional_def T_ConsensusPacket_def V_ConsensusPacket_def exAdditional_def exVote_def exParent_def

lemma exBlock1_decodes:
  "decodeDetails T_BlockConsensusData blockConsensusData_of (enc (V_BlockConsensusData (exData 33 98 []))) = Inr (exData 33 98 [])"
  "decodeDetails T_Additional additional_of (enc (V_Additional (exAdditional [195, 192, 1, 128] 33 98 129))) =
    Inr (exAdditional [195, 192, 1, 128] 33 98 129)"
  by (rule decodes_enc; simp add: ex_typed blockConsensusData_of_def additional_of_def packet_of_def Let_def)+

lemma exBlock2_decodes:
  "decodeDetails T_BlockConsensusData blockConsensusData_of (enc (V_BlockConsensusData (exData 193 2 [exTxn]))) =
    Inr (exData 193 2 [exTxn])"
  "decodeDetails T_Additional additional_of (enc (V_Additional (exAdditional ([228, 225, 160] @ exTxn @ [1, 128]) 193 2 33))) =
    Inr (exAdditional ([228, 225, 160] @ exTxn @ [1, 128]) 193 2 33)"
  by (rule decodes_enc; simp add: ex_typed blockConsensusData_of_def additional_of_def packet_of_def Let_def)+

lemma ex_inner:
  "ValidateBlockConsensusDataInner exEnv [] exParent (exData 33 98 []) (exAdditional [195, 192, 1, 128] 33 98 129)
    exDeposits 100 None ZERO_HASH = (exDeposits, None, None)"
  "ValidateBlockConsensusDataInner exEnv [exTxn] exParent (exData 193 2 [exTxn])
    (exAdditional ([228, 225, 160] @ exTxn @ [1, 128]) 193 2 33) exDeposits 100 None ZERO_HASH = (exDeposits, None, None)"
  by code_simp+

lemma exBlock_accepted:
  "ValidateBlockConsensusData exEnv exBlock1 exDeposits None = (exDeposits, None, None)"
  "ValidateBlockConsensusData exEnv exBlock2 exDeposits None = (exDeposits, None, None)"
proof -
  have n: "Uint64 100 = 100" by (simp add: Uint64_def)
  have t: "ValidateBlockProposalTime 100 0" by code_simp
  have s: "SelectedTransactions (exData p c ts) = ts" "BBlockTime (exData p c ts) = 0" for p c ts by (simp_all add: exData_def)
  have c: "blockConsensusContext exEnv exParent 100 = Inr ZERO_HASH" by (simp add: blockConsensusContext_def)
  show "ValidateBlockConsensusData exEnv exBlock1 exDeposits None = (exDeposits, None, None)"
    by (simp add: ValidateBlockConsensusData_def exBlock1_def exBlock_def exBlock1_decodes n t s c ex_inner)
  show "ValidateBlockConsensusData exEnv exBlock2 exDeposits None = (exDeposits, None, None)"
    using exBlock2_decodes by (simp add: ValidateBlockConsensusData_def exBlock2_def exBlock_def n t s c ex_inner(2) [simplified])
qed

lemma exBlock_data:
  "blockData exBlock1 = Inr (exData 33 98 [])" "blockData exBlock2 = Inr (exData 193 2 [exTxn])"
  by (simp_all only: blockData_def exBlock1_def exBlock2_def exBlock_def consensusBlock.simps option.sel exBlock1_decodes exBlock2_decodes)

end
