(* ===== verification/Contracts.thy ===== *)
theory Contracts
  imports Pos_Types
begin

text \<open>
  The state of the chain as far as the system contracts use it: the balances of the accounts and
  the storage of the staking, consensus context and conversion contracts
  (\<open>systemcontracts/*/*.sol\<close>), with the checked arithmetic of the contracts, payments, and the
  operations of the two small contracts. A call returns the new state and the value of the function,
  or the reason why it is reverted; a reverted call changes nothing.
\<close>

section \<open>Checked arithmetic\<close>

text \<open>Numbers of the contracts have 256 bits; \<open>+\<close> wraps and \<open>SafeMath\<close> asserts that it did not.\<close>

type_synonym u256 = nat

abbreviation U256 :: nat where
  "U256 \<equiv> 2 ^ 256"

datatype solErr = Revert string | AssertFailed

definition safe_add :: "u256 \<Rightarrow> u256 \<Rightarrow> solErr + u256" where
  "safe_add a b = (let c = (a + b) mod U256 in if c \<ge> a then Inr c else Inl AssertFailed)"

definition safe_sub :: "u256 \<Rightarrow> u256 \<Rightarrow> solErr + u256" where
  "safe_sub a b = (if b \<le> a then Inr (a - b) else Inl AssertFailed)"

text \<open>A sequence of \<open>require\<close> statements and what follows them.\<close>

fun requires :: "(bool \<times> string) list \<Rightarrow> solErr + 'a \<Rightarrow> solErr + 'a" where
  "requires [] k = k"
| "requires ((ok, msg) # gs) k = (if ok then requires gs k else Inl (Revert msg))"

definition sbind :: "solErr + 'a \<Rightarrow> ('a \<Rightarrow> solErr + 'b) \<Rightarrow> solErr + 'b" where
  "sbind r f = (case r of Inl e \<Rightarrow> Inl e | Inr x \<Rightarrow> f x)"

lemma safe_add_Inr:
  assumes "a < U256" and "b < U256"
  shows "safe_add a b = Inr c \<longleftrightarrow> c = a + b \<and> a + b < U256"
proof (cases "a + b < U256")
  case True
  then show ?thesis by (auto simp: safe_add_def)
next
  case False
  then have "(a + b) mod U256 = a + b - U256"
    using assms by (subst mod_if) (simp add: le_mod_geq [symmetric] mod_less)
  also have "\<dots> < a" using assms False by linarith
  finally show ?thesis using False by (simp add: safe_add_def Let_def)
qed

lemma safe_add_less: "safe_add a b = Inr c \<Longrightarrow> c < U256"
  by (auto simp: safe_add_def Let_def split: if_splits)

lemma safe_sub_Inr: "safe_sub a b = Inr c \<longleftrightarrow> b \<le> a \<and> c = a - b"
  by (auto simp: safe_sub_def)

lemma guard_Inr: "(if ok then k else Inl e) = Inr r \<longleftrightarrow> ok \<and> k = Inr r"
  by simp

lemma sbind_Inr: "sbind r f = Inr y \<longleftrightarrow> (\<exists>x. r = Inr x \<and> f x = Inr y)"
  by (cases r) (simp_all add: sbind_def)

lemma sbind_simps [simp]: "sbind (Inr x) f = f x" "sbind (Inl e) f = Inl e"
  by (simp_all add: sbind_def)

section \<open>The state\<close>

record stakingStore =
  validatorList :: "address list"
  depositorBalances :: "address \<Rightarrow> u256"
  totalDepositedBalance :: u256
  depositorCount :: u256
  validatorExists :: "address \<Rightarrow> bool"
  depositorExists :: "address \<Rightarrow> bool"
  validatorEverExisted :: "address \<Rightarrow> bool"
  depositorEverExisted :: "address \<Rightarrow> bool"
  validatorToDepositor :: "address \<Rightarrow> address"
  depositorToValidator :: "address \<Rightarrow> address"
  depositorSlashings :: "address \<Rightarrow> u256"
  depositorRewards :: "address \<Rightarrow> u256"
  depositorWithdrawalRequests :: "address \<Rightarrow> u256"
  validationPaused :: "address \<Rightarrow> bool"
  partialWithdrawalBlock :: "address \<Rightarrow> u256"
  partialWithdrawalAmount :: "address \<Rightarrow> u256"
  validatorLastNilBlock :: "address \<Rightarrow> u256"
  validatorNilBlockCount :: "address \<Rightarrow> u256"

record conversionStore =
  snapshotAmount :: "address \<Rightarrow> u256"
  quantumAddress :: "address \<Rightarrow> address"
  conversionStatus :: "address \<Rightarrow> bool"

text \<open>\<open>contexts\<close> is the mapping of the consensus context contract, where a missing key reads as zeros.\<close>

record chainState =
  balances :: "address \<Rightarrow> nat"
  staking :: stakingStore
  contexts :: "string \<Rightarrow> hash"
  conversions :: conversionStore

text \<open>The message of a call; \<open>accepts\<close> tells which accounts accept a payment.\<close>

record msg =
  sender :: address
  msg_value :: nat
  block_number :: u256
  accepts :: "address \<Rightarrow> bool"

definition transfer :: "address \<Rightarrow> address \<Rightarrow> nat \<Rightarrow> chainState \<Rightarrow> chainState" where
  "transfer a b x w =
    (let m = (balances w)(a := balances w a - x) in w\<lparr>balances := m(b := m b + x)\<rparr>)"

text \<open>\<open>to.call{value: x}("")\<close> of a contract, with the \<open>require\<close> of its success.\<close>

definition callValue :: "msg \<Rightarrow> address \<Rightarrow> address \<Rightarrow> nat \<Rightarrow> string \<Rightarrow> chainState \<Rightarrow> solErr + chainState" where
  "callValue m contract to x failed w =
    (if x \<le> balances w contract \<and> accepts m to then Inr (transfer contract to x w) else Inl (Revert failed))"

text \<open>A call of a contract: the value is paid first, and all is undone when the call is reverted.\<close>

definition transact ::
    "address \<Rightarrow> msg \<Rightarrow> (chainState \<Rightarrow> solErr + chainState \<times> 'r) \<Rightarrow> chainState \<Rightarrow> chainState \<times> (solErr + 'r)" where
  "transact contract m f w =
    (if balances w (sender m) < msg_value m then (w, Inl (Revert ''insufficient balance for transfer''))
     else case f (transfer (sender m) contract (msg_value m) w) of
       Inl e \<Rightarrow> (w, Inl e)
     | Inr (w', r) \<Rightarrow> (w', Inr r))"

lemma transfer_simps [simp]:
  "staking (transfer a b x w) = staking w" "contexts (transfer a b x w) = contexts w"
  "conversions (transfer a b x w) = conversions w"
  by (simp_all add: transfer_def Let_def)

lemma transfer_balance:
  "balances (transfer a b x w) c =
    (if c = b then (if a = b then balances w b - x else balances w b) + x
     else if c = a then balances w a - x else balances w c)"
  by (simp add: transfer_def Let_def)

lemma callValue_Inr:
  "callValue m c to x f w = Inr w' \<longleftrightarrow> x \<le> balances w c \<and> accepts m to \<and> w' = transfer c to x w"
  by (auto simp: callValue_def)

lemmas sol_Inr = guard_Inr sbind_Inr callValue_Inr safe_sub_Inr

section \<open>The consensus context contract\<close>

definition setContext :: "msg \<Rightarrow> string \<Rightarrow> hash \<Rightarrow> chainState \<Rightarrow> solErr + chainState" where
  "setContext m key c w =
    requires [(sender m = ZERO_ADDRESS, ''Only VM calls are allowed'')]
      (Inr (w\<lparr>contexts := (contexts w)(key := c)\<rparr>))"

definition getContext :: "string \<Rightarrow> chainState \<Rightarrow> hash" where
  "getContext key w = contexts w key"

definition deleteContext :: "msg \<Rightarrow> string \<Rightarrow> chainState \<Rightarrow> solErr + chainState" where
  "deleteContext m key w =
    requires [(sender m = ZERO_ADDRESS, ''Only VM calls are allowed'')]
      (Inr (w\<lparr>contexts := (contexts w)(key := ZERO_HASH)\<rparr>))"

section \<open>The conversion contract\<close>

definition getConversionStatus :: "address \<Rightarrow> chainState \<Rightarrow> bool" where
  "getConversionStatus a w = conversionStatus (conversions w) a"

definition getAmount :: "address \<Rightarrow> chainState \<Rightarrow> u256" where
  "getAmount a w = snapshotAmount (conversions w) a"

definition getQuantumAddress :: "address \<Rightarrow> chainState \<Rightarrow> address" where
  "getQuantumAddress a w = quantumAddress (conversions w) a"

definition setConverted ::
    "address \<Rightarrow> msg \<Rightarrow> address \<Rightarrow> address \<Rightarrow> chainState \<Rightarrow> solErr + chainState \<times> u256" where
  "setConverted contract m a q w =
    (let s = conversions w in
     requires [(sender m = ZERO_ADDRESS, ''Only VM calls are allowed''),
               (snapshotAmount s a > 0, ''ethAddress Doesn't exist in snapshot''),
               (conversionStatus s a = False, ''Already converted'')]
       (sbind (callValue m contract q (snapshotAmount s a) ''Transfer Balance failed''
                 (w\<lparr>conversions := s\<lparr>conversionStatus := (conversionStatus s)(a := True),
                                    quantumAddress := (quantumAddress s)(a := q)\<rparr>\<rparr>))
         (\<lambda>w'. Inr (w', snapshotAmount s a))))"

text \<open>A converted address is never converted again, and its coins are paid out when it is converted.\<close>

lemma setConverted_Inr:
  assumes "setConverted c m a q w = Inr (w', x)" and "c \<noteq> q"
  shows "\<not> getConversionStatus a w \<and> getConversionStatus a w' \<and> getQuantumAddress a w' = q \<and> x = getAmount a w \<and>
    balances w' q = balances w q + x \<and> balances w' c + x = balances w c"
  using assms
  by (auto simp: setConverted_def Let_def sol_Inr transfer_balance
      getConversionStatus_def getQuantumAddress_def getAmount_def)

lemma converted_once:
  assumes "getConversionStatus a w" and "sender m = ZERO_ADDRESS" and "getAmount a w > 0"
  shows "setConverted c m a q w = Inl (Revert ''Already converted'')"
  using assms by (simp add: setConverted_def Let_def getConversionStatus_def getAmount_def)

end
