(* ===== verification/Staking.thy ===== *)
theory Staking
  imports Contracts
begin

text \<open>
  The staking contract in its two versions
  (\<open>systemcontracts/staking/stakingv1\<close> and \<open>stakingv2/StakingContract.sol\<close>): every function that changes
  the storage, the functions that read it, and the dispatch of a call. The second version replaces
  the code of the first one at the block \<open>STAKING_CONTRACT_V2_CUTOFF_BLOCK\<close> and keeps the storage.

  The functions make all their changes before they pay; a receiver that calls back acts on the
  state after the call, so its calls are further steps.
\<close>

section \<open>The second version\<close>

definition STAKING_CONTRACT_ADDRESS :: address where
  "STAKING_CONTRACT_ADDRESS = replicate 30 0 @ [0x10, 0]"

definition MINIMUM_DEPOSIT :: u256 where
  "MINIMUM_DEPOSIT = 5000000000000000000000000"

definition WITHDRAWAL_BLOCK_DELAY :: u256 where
  "WITHDRAWAL_BLOCK_DELAY = 32000"

text \<open>What \<open>newDeposit\<close> of both versions enters.\<close>

definition enterDeposit :: "msg \<Rightarrow> address \<Rightarrow> chainState \<Rightarrow> solErr + chainState" where
  "enterDeposit m v w =
    (let s = staking w; d = sender m in
     sbind (safe_add (totalDepositedBalance s) (msg_value m)) (\<lambda>total.
       sbind (safe_add (depositorCount s) 1) (\<lambda>count.
         Inr (w\<lparr>staking := s\<lparr>validatorList := validatorList s @ [v],
           totalDepositedBalance := total, depositorCount := count,
           depositorBalances := (depositorBalances s)(d := msg_value m),
           validatorExists := (validatorExists s)(v := True), depositorExists := (depositorExists s)(d := True),
           validatorEverExisted := (validatorEverExisted s)(v := True),
           depositorEverExisted := (depositorEverExisted s)(d := True),
           validatorToDepositor := (validatorToDepositor s)(v := d),
           depositorToValidator := (depositorToValidator s)(d := v)\<rparr>\<rparr>))))"

definition newDeposit :: "msg \<Rightarrow> address \<Rightarrow> chainState \<Rightarrow> solErr + chainState" where
  "newDeposit m v w =
    (let s = staking w; d = sender m in
     requires [(msg_value m \<ge> MINIMUM_DEPOSIT, ''Deposit amount below minimum deposit amount''),
               (d \<noteq> v, ''Depositor address cannot be same as Validator address''),
               (v \<noteq> ZERO_ADDRESS, ''Invalid validator''),
               (validatorExists s v = False, ''Validator already exists''),
               (validatorEverExisted s v = False, ''Validator existed once''),
               (validatorExists s d = False, ''Validator already exists as new depositor''),
               (validatorEverExisted s d = False, ''Validator existed once as new depositor''),
               (balances w v mod U256 = 0, ''validator balance should be zero''),
               (depositorExists s d = False, ''Depositor already exists''),
               (depositorEverExisted s d = False, ''Depositor existed once''),
               (depositorExists s v = False, ''Depositor already exists as new validator once''),
               (depositorEverExisted s v = False, ''Depositor existed once as new validator'')]
       (enterDeposit m v w))"

definition pauseValidation :: "msg \<Rightarrow> chainState \<Rightarrow> solErr + chainState" where
  "pauseValidation m w =
    (let s = staking w; v = depositorToValidator s (sender m) in
     requires [(depositorExists s (sender m) = True, ''Depositor does not exist''),
               (validationPaused s v = False, ''Validation is already paused'')]
       (Inr (w\<lparr>staking := s\<lparr>validationPaused := (validationPaused s)(v := True)\<rparr>\<rparr>)))"

definition resumeValidation :: "msg \<Rightarrow> chainState \<Rightarrow> solErr + chainState" where
  "resumeValidation m w =
    (let s = staking w; v = depositorToValidator s (sender m) in
     requires [(depositorExists s (sender m) = True, ''Depositor does not exist''),
               (validationPaused s v = True, ''Validation is not paused'')]
       (Inr (w\<lparr>staking := s\<lparr>validationPaused := (validationPaused s)(v := False)\<rparr>\<rparr>)))"

text \<open>What is left to a depositor: the balance and the rewards without the slashings.\<close>

definition completeWithdrawal :: "msg \<Rightarrow> chainState \<Rightarrow> solErr + chainState \<times> u256" where
  "completeWithdrawal m w =
    (let s = staking w; d = sender m in
     requires [(depositorWithdrawalRequests s d > 0, ''Depositor withdrawal request does not exist'')]
       (sbind (safe_add (depositorBalances s d) (depositorRewards s d)) (\<lambda>bal.
         requires [(bal > depositorSlashings s d, ''balance is negative'')]
           (sbind (safe_sub bal (depositorSlashings s d)) (\<lambda>net.
             sbind (safe_sub (totalDepositedBalance s) net) (\<lambda>total.
               sbind (callValue m STAKING_CONTRACT_ADDRESS d net ''Withdraw failed''
                        (w\<lparr>staking := s\<lparr>depositorBalances := (depositorBalances s)(d := 0),
                          depositorRewards := (depositorRewards s)(d := 0),
                          depositorSlashings := (depositorSlashings s)(d := 0),
                          depositorWithdrawalRequests := (depositorWithdrawalRequests s)(d := 0),
                          totalDepositedBalance := total,
                          depositorExists := (depositorExists s)(d := True)\<rparr>\<rparr>))
                 (\<lambda>w'. Inr (w', net))))))))"

definition addDepositorSlashing :: "msg \<Rightarrow> address \<Rightarrow> u256 \<Rightarrow> chainState \<Rightarrow> solErr + chainState \<times> u256" where
  "addDepositorSlashing m d x w =
    (let s = staking w in
     requires [(sender m = ZERO_ADDRESS, ''Only VM calls are allowed'')]
       (sbind (safe_add (depositorSlashings s d) x) (\<lambda>slashed.
         sbind (callValue m STAKING_CONTRACT_ADDRESS ZERO_ADDRESS x ''transfer to zeroAddress failed''
                  (w\<lparr>staking := s\<lparr>depositorSlashings := (depositorSlashings s)(d := slashed)\<rparr>\<rparr>))
           (\<lambda>w'. Inr (w', depositorSlashings (staking w') d)))))"

definition addDepositorReward :: "msg \<Rightarrow> address \<Rightarrow> u256 \<Rightarrow> chainState \<Rightarrow> solErr + chainState \<times> u256" where
  "addDepositorReward m d x w =
    (let s = staking w in
     requires [(sender m = ZERO_ADDRESS, ''Only VM calls are allowed'')]
       (sbind (safe_add (depositorRewards s d) x) (\<lambda>rewards.
         Inr (w\<lparr>staking := s\<lparr>depositorRewards := (depositorRewards s)(d := rewards)\<rparr>\<rparr>, rewards))))"

definition getNetBalanceOfDepositor :: "stakingStore \<Rightarrow> address \<Rightarrow> solErr + u256" where
  "getNetBalanceOfDepositor s d =
    (if depositorExists s d = False then Inr 0
     else if depositorWithdrawalRequests s d > 0 then Inr 0
     else
       sbind (safe_add (depositorBalances s d) (depositorRewards s d)) (\<lambda>bal.
         if bal \<le> depositorSlashings s d then Inr 0 else safe_sub bal (depositorSlashings s d)))"

definition getWithdrawalBlock :: "stakingStore \<Rightarrow> address \<Rightarrow> u256" where
  "getWithdrawalBlock s d =
    (if partialWithdrawalBlock s d > 0 then partialWithdrawalBlock s d
     else if depositorWithdrawalRequests s d > 0 then depositorWithdrawalRequests s d else 0)"

text \<open>The new validator takes over the nil blocks and the pause of the old one.\<close>

definition changeValidator :: "msg \<Rightarrow> address \<Rightarrow> chainState \<Rightarrow> solErr + chainState" where
  "changeValidator m v w =
    (let s = staking w; d = sender m; old = depositorToValidator s d;
         moved = validatorLastNilBlock s old > 0 in
     requires [(validatorExists s v = False, ''Validator already exists''),
               (depositorExists s v = False, ''Validator is a depositor''),
               (validatorEverExisted s v = False, ''Validator already existed''),
               (depositorEverExisted s v = False, ''Depositor already existed''),
               (balances w v mod U256 = 0, ''validator balance should be zero''),
               (v \<noteq> ZERO_ADDRESS, ''Invalid validator''),
               (d \<noteq> v, ''Depositor address cannot be same as Validator address''),
               (depositorExists s d = True, ''Depositor does not exist''),
               (depositorWithdrawalRequests s d = 0, ''Withdrawal is pending'')]
       (Inr (w\<lparr>staking := s\<lparr>
          validatorExists := (validatorExists s)(v := True, old := False),
          validatorEverExisted := (validatorEverExisted s)(v := True),
          validatorLastNilBlock := (if moved
            then (validatorLastNilBlock s)(v := validatorLastNilBlock s old, old := 0) else validatorLastNilBlock s),
          validatorNilBlockCount := (if moved
            then (validatorNilBlockCount s)(v := validatorNilBlockCount s old, old := 0) else validatorNilBlockCount s),
          validatorToDepositor := (validatorToDepositor s)(v := d, old := ZERO_ADDRESS),
          depositorToValidator := (depositorToValidator s)(d := v),
          validatorList := validatorList s @ [v],
          validationPaused := (if validationPaused s old = True
            then (validationPaused s)(old := False, v := True) else validationPaused s)\<rparr>\<rparr>)))"

definition increaseDeposit :: "msg \<Rightarrow> chainState \<Rightarrow> solErr + chainState" where
  "increaseDeposit m w =
    (let s = staking w; d = sender m in
     requires [(depositorExists s d = True, ''Depositor does not exist''),
               (depositorWithdrawalRequests s d = 0, ''Depositor withdrawal request exists''),
               (msg_value m > 0, ''Deposit amount is zero'')]
       (sbind (safe_add (totalDepositedBalance s) (msg_value m)) (\<lambda>total.
         sbind (safe_add (depositorBalances s d) (msg_value m)) (\<lambda>bal.
           Inr (w\<lparr>staking := s\<lparr>totalDepositedBalance := total,
             depositorBalances := (depositorBalances s)(d := bal)\<rparr>\<rparr>)))))"

text \<open>The amount and the slashings are taken from the rewards first and then from the balance.\<close>

definition debit :: "address \<Rightarrow> u256 \<Rightarrow> stakingStore \<Rightarrow> solErr + stakingStore" where
  "debit d x s =
    (if depositorRewards s d \<ge> x then
       sbind (safe_sub (depositorRewards s d) x) (\<lambda>rewards.
         Inr (s\<lparr>depositorRewards := (depositorRewards s)(d := rewards)\<rparr>))
     else
       sbind (safe_sub x (depositorRewards s d)) (\<lambda>remaining.
         sbind (safe_sub (totalDepositedBalance s) remaining) (\<lambda>total.
           sbind (safe_sub (depositorBalances s d) remaining) (\<lambda>bal.
             Inr (s\<lparr>depositorRewards := (depositorRewards s)(d := 0), totalDepositedBalance := total,
               depositorBalances := (depositorBalances s)(d := bal)\<rparr>)))))"

definition initiatePartialWithdrawal :: "msg \<Rightarrow> u256 \<Rightarrow> chainState \<Rightarrow> solErr + chainState \<times> u256" where
  "initiatePartialWithdrawal m x w =
    (let s = staking w; d = sender m in
     requires [(depositorExists s d = True, ''Depositor does not exist''),
               (depositorWithdrawalRequests s d = 0, ''Depositor withdrawal request exists''),
               (partialWithdrawalBlock s d = 0, ''Depositor partial withdrawal request exists'')]
       (sbind (getNetBalanceOfDepositor s d) (\<lambda>net.
         requires [(net \<ge> x, ''Depositor net balance is low'')]
           (sbind (safe_add (depositorSlashings s d) x) (\<lambda>debitAmount.
             sbind (debit d debitAmount s) (\<lambda>s1.
               Inr (w\<lparr>staking := s1\<lparr>depositorSlashings := (depositorSlashings s1)(d := 0),
                 partialWithdrawalBlock := (partialWithdrawalBlock s1)(d := block_number m),
                 partialWithdrawalAmount := (partialWithdrawalAmount s1)(d := x)\<rparr>\<rparr>, x)))))))"

definition completePartialWithdrawal :: "msg \<Rightarrow> chainState \<Rightarrow> solErr + chainState \<times> u256" where
  "completePartialWithdrawal m w =
    (let s = staking w; d = sender m in
     requires [(depositorExists s d = True, ''Depositor does not exist''),
               (depositorWithdrawalRequests s d = 0, ''Depositor withdrawal request exists''),
               (partialWithdrawalBlock s d > 0, ''Depositor partial withdrawal request does not exist'')]
       (sbind (safe_add (partialWithdrawalBlock s d) WITHDRAWAL_BLOCK_DELAY) (\<lambda>due.
         requires [(block_number m \<ge> due, ''Depositor partial withdrawal request cutoff block not reached'')]
           (sbind (callValue m STAKING_CONTRACT_ADDRESS d (partialWithdrawalAmount s d) ''Withdraw failed''
                    (w\<lparr>staking := s\<lparr>partialWithdrawalBlock := (partialWithdrawalBlock s)(d := 0),
                      partialWithdrawalAmount := (partialWithdrawalAmount s)(d := 0)\<rparr>\<rparr>))
             (\<lambda>w'. Inr (w', partialWithdrawalAmount s d))))))"

definition setNilBlock :: "msg \<Rightarrow> address \<Rightarrow> chainState \<Rightarrow> solErr + chainState" where
  "setNilBlock m v w =
    (let s = staking w in
     requires [(sender m = ZERO_ADDRESS, ''Only VM calls are allowed'')]
       (sbind (safe_add (validatorNilBlockCount s v) 1) (\<lambda>count.
         Inr (w\<lparr>staking := s\<lparr>validatorLastNilBlock := (validatorLastNilBlock s)(v := block_number m),
           validatorNilBlockCount := (validatorNilBlockCount s)(v := count)\<rparr>\<rparr>))))"

definition resetNilBlock :: "msg \<Rightarrow> address \<Rightarrow> chainState \<Rightarrow> solErr + chainState" where
  "resetNilBlock m v w =
    (let s = staking w in
     requires [(sender m = ZERO_ADDRESS, ''Only VM calls are allowed'')]
       (Inr (w\<lparr>staking := s\<lparr>validatorLastNilBlock := (validatorLastNilBlock s)(v := 0),
         validatorNilBlockCount := (validatorNilBlockCount s)(v := 0)\<rparr>\<rparr>)))"

record stakingDetails =
  sd_Depositor :: address
  sd_Validator :: address
  sd_Balance :: u256
  sd_NetBalance :: u256
  sd_BlockRewards :: u256
  sd_Slashings :: u256
  sd_IsValidationPaused :: bool
  sd_WithdrawalBlock :: u256
  sd_WithdrawalAmount :: u256
  sd_LastNilBlockNumber :: u256
  sd_NilBlockCount :: u256

definition getStakingDetails :: "stakingStore \<Rightarrow> address \<Rightarrow> solErr + stakingDetails" where
  "getStakingDetails s v =
    requires [(validatorExists s v = True, ''Validator does not exist'')]
      (let d = validatorToDepositor s v in
       sbind (getNetBalanceOfDepositor s d) (\<lambda>net.
         sbind (if partialWithdrawalBlock s d > 0 then
                  sbind (safe_add (partialWithdrawalBlock s d) WITHDRAWAL_BLOCK_DELAY) (\<lambda>due.
                    Inr (due, partialWithdrawalAmount s d))
                else if depositorWithdrawalRequests s d > 0 then
                  sbind (getNetBalanceOfDepositor s d) (\<lambda>amount. Inr (depositorWithdrawalRequests s d, amount))
                else Inr (0, 0))
           (\<lambda>(withdrawalBlock, withdrawalAmount).
             Inr \<lparr>sd_Depositor = d, sd_Validator = v, sd_Balance = depositorBalances s d, sd_NetBalance = net,
               sd_BlockRewards = depositorRewards s d, sd_Slashings = depositorSlashings s d,
               sd_IsValidationPaused = validationPaused s v, sd_WithdrawalBlock = withdrawalBlock,
               sd_WithdrawalAmount = withdrawalAmount, sd_LastNilBlockNumber = validatorLastNilBlock s v,
               sd_NilBlockCount = validatorNilBlockCount s v\<rparr>)))"

section \<open>The first version\<close>

definition WITHDRAWAL_BLOCK_DELAY1 :: u256 where
  "WITHDRAWAL_BLOCK_DELAY1 = 256000"

definition newDeposit1 :: "msg \<Rightarrow> address \<Rightarrow> chainState \<Rightarrow> solErr + chainState" where
  "newDeposit1 m v w =
    (let s = staking w; d = sender m in
     requires [(msg_value m \<ge> MINIMUM_DEPOSIT, ''Deposit amount below minimum deposit amount''),
               (d \<noteq> v, ''Depositor address cannot be same as Validator address''),
               (v \<noteq> ZERO_ADDRESS, ''Invalid validator''),
               (validatorExists s v = False, ''Validator already exists''),
               (validatorEverExisted s v = False, ''Validator existed once''),
               (balances w v mod U256 = 0, ''validator balance should be zero''),
               (depositorExists s d = False, ''Depositor already exists''),
               (depositorEverExisted s d = False, ''Depositor existed once'')]
       (enterDeposit m v w))"

text \<open>The first version reads the wrong mapping, from validators to depositors, with the depositor.\<close>

definition pauseValidation1 :: "msg \<Rightarrow> chainState \<Rightarrow> solErr + chainState" where
  "pauseValidation1 m w =
    (let s = staking w; v = validatorToDepositor s (sender m) in
     requires [(depositorExists s (sender m) = True, ''Depositor does not exist''),
               (validationPaused s v = False, ''Validation is already paused'')]
       (Inr (w\<lparr>staking := s\<lparr>validationPaused := (validationPaused s)(v := True)\<rparr>\<rparr>)))"

definition resumeValidation1 :: "msg \<Rightarrow> chainState \<Rightarrow> solErr + chainState" where
  "resumeValidation1 m w =
    (let s = staking w; v = validatorToDepositor s (sender m) in
     requires [(depositorExists s (sender m) = True, ''Depositor does not exist''),
               (validationPaused s v = True, ''Validation is not paused'')]
       (Inr (w\<lparr>staking := s\<lparr>validationPaused := (validationPaused s)(v := False)\<rparr>\<rparr>)))"

definition initiateWithdrawal :: "msg \<Rightarrow> chainState \<Rightarrow> solErr + chainState \<times> u256" where
  "initiateWithdrawal m w =
    (let s = staking w; d = sender m in
     requires [(depositorExists s d = True, ''Depositor does not exist''),
               (depositorWithdrawalRequests s d = 0, ''Depositor withdrawal request exists''),
               (depositorBalances s d > 0, ''Depositor balance is zero'')]
       (sbind (getNetBalanceOfDepositor s d) (\<lambda>net.
         requires [(net > 0, ''Depositor net balance is zero'')]
           (Inr (w\<lparr>staking := s\<lparr>
              depositorWithdrawalRequests :=
                (depositorWithdrawalRequests s)(d := (block_number m + WITHDRAWAL_BLOCK_DELAY1) mod U256),
              depositorExists := (depositorExists s)(d := False)\<rparr>\<rparr>, net)))))"

definition completeWithdrawal1 :: "msg \<Rightarrow> chainState \<Rightarrow> solErr + chainState \<times> u256" where
  "completeWithdrawal1 m w =
    (let s = staking w; d = sender m in
     requires [(depositorWithdrawalRequests s d > 0, ''Depositor withdrawal request does not exist''),
               (block_number m > depositorWithdrawalRequests s d, ''Depositor withdrawal request pending'')]
       (sbind (safe_add (depositorBalances s d) (depositorRewards s d)) (\<lambda>bal.
         requires [(bal > depositorSlashings s d, ''balance is negative'')]
           (sbind (safe_sub bal (depositorSlashings s d)) (\<lambda>net.
             sbind (callValue m STAKING_CONTRACT_ADDRESS d net ''Withdraw failed''
                      (w\<lparr>staking := s\<lparr>depositorBalances := (depositorBalances s)(d := 0),
                        depositorRewards := (depositorRewards s)(d := 0),
                        depositorSlashings := (depositorSlashings s)(d := 0),
                        depositorExists := (depositorExists s)(d := False),
                        depositorWithdrawalRequests := (depositorWithdrawalRequests s)(d := 0)\<rparr>\<rparr>))
               (\<lambda>w'. Inr (w', net)))))))"

section \<open>Calls\<close>

datatype stakingCall =
    NewDeposit address | PauseValidation | ResumeValidation | InitiateWithdrawal | CompleteWithdrawal
  | AddDepositorSlashing address u256 | AddDepositorReward address u256
  | ChangeValidator address | IncreaseDeposit | InitiatePartialWithdrawal u256 | CompletePartialWithdrawal
  | SetNilBlock address | ResetNilBlock address

fun payable :: "stakingCall \<Rightarrow> bool" where
  "payable (NewDeposit v) = True"
| "payable IncreaseDeposit = True"
| "payable c = False"

definition noResult :: "solErr + chainState \<Rightarrow> solErr + chainState \<times> u256" where
  "noResult r = sbind r (\<lambda>w. Inr (w, 0))"

text \<open>
  A call with an unknown function, and one with a value for a function that is not payable, is
  reverted without a reason.
\<close>

definition execute1 :: "msg \<Rightarrow> stakingCall \<Rightarrow> chainState \<Rightarrow> solErr + chainState \<times> u256" where
  "execute1 m c w =
    (if msg_value m > 0 \<and> \<not> payable c then Inl (Revert '''')
     else case c of
       NewDeposit v \<Rightarrow> noResult (newDeposit1 m v w)
     | PauseValidation \<Rightarrow> noResult (pauseValidation1 m w)
     | ResumeValidation \<Rightarrow> noResult (resumeValidation1 m w)
     | InitiateWithdrawal \<Rightarrow> initiateWithdrawal m w
     | CompleteWithdrawal \<Rightarrow> completeWithdrawal1 m w
     | AddDepositorSlashing d x \<Rightarrow> addDepositorSlashing m d x w
     | AddDepositorReward d x \<Rightarrow> addDepositorReward m d x w
     | _ \<Rightarrow> Inl (Revert ''''))"

definition execute2 :: "msg \<Rightarrow> stakingCall \<Rightarrow> chainState \<Rightarrow> solErr + chainState \<times> u256" where
  "execute2 m c w =
    (if msg_value m > 0 \<and> \<not> payable c then Inl (Revert '''')
     else case c of
       NewDeposit v \<Rightarrow> noResult (newDeposit m v w)
     | PauseValidation \<Rightarrow> noResult (pauseValidation m w)
     | ResumeValidation \<Rightarrow> noResult (resumeValidation m w)
     | CompleteWithdrawal \<Rightarrow> completeWithdrawal m w
     | AddDepositorSlashing d x \<Rightarrow> addDepositorSlashing m d x w
     | AddDepositorReward d x \<Rightarrow> addDepositorReward m d x w
     | ChangeValidator v \<Rightarrow> noResult (changeValidator m v w)
     | IncreaseDeposit \<Rightarrow> noResult (increaseDeposit m w)
     | InitiatePartialWithdrawal x \<Rightarrow> initiatePartialWithdrawal m x w
     | CompletePartialWithdrawal \<Rightarrow> completePartialWithdrawal m w
     | SetNilBlock v \<Rightarrow> noResult (setNilBlock m v w)
     | ResetNilBlock v \<Rightarrow> noResult (resetNilBlock m v w)
     | InitiateWithdrawal \<Rightarrow> Inl (Revert ''''))"

end
