(* ===== verification/Staking_Ledger.thy ===== *)
theory Staking_Ledger
  imports Staking
begin

text \<open>
  What the staking contract keeps: the well-formedness of its numbers, the account of what it owes
  to the depositors against its balance, and the one-to-one relation between depositors and
  validators; for every call of both versions, by users and by the engine.
\<close>

section \<open>What the contract owes\<close>

definition owed :: "stakingStore \<Rightarrow> address \<Rightarrow> int" where
  "owed s d = int (depositorBalances s d) + int (depositorRewards s d) + int (partialWithdrawalAmount s d)
    - int (depositorSlashings s d)"

definition touched :: "stakingStore \<Rightarrow> address set" where
  "touched s = {d. depositorBalances s d \<noteq> 0 \<or> depositorRewards s d \<noteq> 0 \<or> partialWithdrawalAmount s d \<noteq> 0 \<or>
    depositorSlashings s d \<noteq> 0}"

definition ledger :: "stakingStore \<Rightarrow> int" where
  "ledger s = (\<Sum>d\<in>touched s. owed s d)"

text \<open>The part of the balance of the contract that it does not owe.\<close>

definition surplus :: "chainState \<Rightarrow> int" where
  "surplus w = int (balances w STAKING_CONTRACT_ADDRESS) - ledger (staking w)"

definition storeOk :: "stakingStore \<Rightarrow> bool" where
  "storeOk s \<longleftrightarrow> finite (touched s) \<and> totalDepositedBalance s < U256 \<and>
    (\<forall>d. depositorBalances s d < U256 \<and> depositorRewards s d < U256 \<and> depositorSlashings s d < U256 \<and>
      partialWithdrawalBlock s d < U256 \<and>
      (partialWithdrawalBlock s d = 0 \<longrightarrow> partialWithdrawalAmount s d = 0) \<and>
      (\<not> depositorEverExisted s d \<longrightarrow> depositorBalances s d = 0) \<and>
      (depositorExists s d \<longrightarrow> depositorEverExisted s d) \<and>
      (0 < depositorWithdrawalRequests s d \<longrightarrow> depositorEverExisted s d))"

lemma storeOkD:
  assumes "storeOk s"
  shows "finite (touched s)" and "totalDepositedBalance s < U256" and "depositorBalances s d < U256"
    and "depositorRewards s d < U256" and "depositorSlashings s d < U256" and "partialWithdrawalBlock s d < U256"
    and "partialWithdrawalBlock s d = 0 \<Longrightarrow> partialWithdrawalAmount s d = 0"
    and "\<not> depositorEverExisted s d \<Longrightarrow> depositorBalances s d = 0"
    and "depositorExists s d \<Longrightarrow> depositorEverExisted s d"
    and "0 < depositorWithdrawalRequests s d \<Longrightarrow> depositorEverExisted s d"
  using assms by (simp_all add: storeOk_def)

text \<open>A change of one account changes the sum by the change of that account.\<close>

lemma ledger_change:
  assumes "finite (touched s)" and "\<And>c. c \<noteq> d \<Longrightarrow> depositorBalances s' c = depositorBalances s c \<and>
      depositorRewards s' c = depositorRewards s c \<and> partialWithdrawalAmount s' c = partialWithdrawalAmount s c \<and>
      depositorSlashings s' c = depositorSlashings s c"
  shows "finite (touched s')" and "ledger s' = ledger s - owed s d + owed s' d"
proof -
  let ?A = "insert d (touched s)"
  have sub: "touched s' \<subseteq> ?A" using assms(2) by (auto simp: touched_def)
  then show fin: "finite (touched s')" using assms(1) finite_subset by blast
  have z: "owed t c = 0" if "c \<notin> touched t" for t c using that by (auto simp: touched_def owed_def)
  have s: "ledger s = (\<Sum>c\<in>?A. owed s c)" unfolding ledger_def
    by (rule sum.mono_neutral_left) (use assms(1) z in auto)
  have s': "ledger s' = (\<Sum>c\<in>?A. owed s' c)" unfolding ledger_def
    by (rule sum.mono_neutral_left) (use assms(1) z sub in auto)
  have "(\<Sum>c\<in>?A - {d}. owed s' c) = (\<Sum>c\<in>?A - {d}. owed s c)"
    by (rule sum.cong) (use assms(2) in \<open>auto simp: owed_def\<close>)
  then show "ledger s' = ledger s - owed s d + owed s' d"
    unfolding s s' by (simp add: sum.remove [of ?A d] assms(1))
qed

lemma ledger_same:
  assumes "depositorBalances s' = depositorBalances s" and "depositorRewards s' = depositorRewards s"
    and "partialWithdrawalAmount s' = partialWithdrawalAmount s" and "depositorSlashings s' = depositorSlashings s"
  shows "touched s' = touched s" and "ledger s' = ledger s"
proof -
  show "touched s' = touched s" using assms by (simp add: touched_def)
  then show "ledger s' = ledger s" using assms by (simp add: ledger_def owed_def)
qed

section \<open>The calls\<close>

text \<open>
  A call keeps the store well formed and changes the surplus by the amount that the caller gives:
  the value of a deposit is owed from then on, and so is a reward.
\<close>

fun promised :: "msg \<Rightarrow> stakingCall \<Rightarrow> nat" where
  "promised m (AddDepositorReward d x) = x"
| "promised m c = (if payable c then msg_value m else 0)"

fun wfCall :: "stakingCall \<Rightarrow> bool" where
  "wfCall (AddDepositorSlashing d x) = (x < U256)"
| "wfCall (AddDepositorReward d x) = (x < U256)"
| "wfCall (InitiatePartialWithdrawal x) = (x < U256)"
| "wfCall c = True"

definition accounts :: "chainState \<Rightarrow> chainState \<Rightarrow> int \<Rightarrow> bool" where
  "accounts w w' x \<longleftrightarrow> storeOk (staking w') \<and> surplus w' = surplus w - x"

lemma accountsI:
  assumes "storeOk (staking w)" and "\<And>c. c \<noteq> d \<Longrightarrow> depositorBalances (staking w') c = depositorBalances (staking w) c \<and>
      depositorRewards (staking w') c = depositorRewards (staking w) c \<and>
      partialWithdrawalAmount (staking w') c = partialWithdrawalAmount (staking w) c \<and>
      depositorSlashings (staking w') c = depositorSlashings (staking w) c"
    and "finite (touched (staking w')) \<Longrightarrow> storeOk (staking w')"
    and "owed (staking w') d - owed (staking w) d =
      x + int (balances w' STAKING_CONTRACT_ADDRESS) - int (balances w STAKING_CONTRACT_ADDRESS)"
  shows "accounts w w' x"
  using ledger_change [of "staking w" d "staking w'"] assms storeOkD(1) [OF assms(1)]
  by (simp add: accounts_def surplus_def)

lemma enterDeposit_accounts:
  assumes "enterDeposit m v w = Inr w'" and "storeOk (staking w)" and "\<not> depositorEverExisted (staking w) (sender m)"
    and "msg_value m < U256"
  shows "accounts w w' (int (msg_value m))"
proof (rule accountsI [OF assms(2), of "sender m"])
  note w = assms(1) [unfolded enterDeposit_def Let_def sbind_Inr]
  note d = storeOkD [OF assms(2)]
  show "storeOk (staking w')" if "finite (touched (staking w'))"
    using that w assms(2,4) by (auto simp: storeOk_def dest: safe_add_less)
  show "owed (staking w') (sender m) - owed (staking w) (sender m) =
      int (msg_value m) + int (balances w' STAKING_CONTRACT_ADDRESS) - int (balances w STAKING_CONTRACT_ADDRESS)"
    using w d(8) [OF assms(3)] by (auto simp: owed_def)
qed (use assms(1) in \<open>auto simp: enterDeposit_def Let_def sbind_Inr\<close>)

lemma increaseDeposit_accounts:
  assumes "increaseDeposit m w = Inr w'" and "storeOk (staking w)" and "msg_value m < U256"
  shows "accounts w w' (int (msg_value m))"
proof (rule accountsI [OF assms(2), of "sender m"])
  note d = storeOkD [OF assms(2)]
  obtain total bal where w: "safe_add (totalDepositedBalance (staking w)) (msg_value m) = Inr total"
      "safe_add (depositorBalances (staking w) (sender m)) (msg_value m) = Inr bal"
      "depositorExists (staking w) (sender m)"
      "w' = w\<lparr>staking := (staking w)\<lparr>totalDepositedBalance := total,
        depositorBalances := (depositorBalances (staking w))(sender m := bal)\<rparr>\<rparr>"
    using assms(1) by (auto simp: increaseDeposit_def Let_def sol_Inr)
  have b: "bal = depositorBalances (staking w) (sender m) + msg_value m" "bal < U256"
    using w(2) d(3) assms(3) by (simp_all add: safe_add_Inr)
  show "storeOk (staking w')" if "finite (touched (staking w'))"
    using that safe_add_less [OF w(1)] b(2) d(9) w(3) assms(2) by (auto simp: storeOk_def w(4))
  show "owed (staking w') (sender m) - owed (staking w) (sender m) =
      int (msg_value m) + int (balances w' STAKING_CONTRACT_ADDRESS) - int (balances w STAKING_CONTRACT_ADDRESS)"
    by (simp add: owed_def w(4) b(1))
qed (use assms(1) in \<open>auto simp: increaseDeposit_def Let_def sol_Inr\<close>)

text \<open>The withdrawal of all that is left, in either version.\<close>

lemma closing_accounts:
  assumes "storeOk (staking w)" and "d \<noteq> STAKING_CONTRACT_ADDRESS"
    and "safe_add (depositorBalances (staking w) d) (depositorRewards (staking w) d) = Inr bal"
    and "depositorSlashings (staking w) d < bal"
    and "bal - depositorSlashings (staking w) d \<le> balances w STAKING_CONTRACT_ADDRESS"
    and "0 < depositorWithdrawalRequests (staking w) d"
    and "w' = transfer STAKING_CONTRACT_ADDRESS d (bal - depositorSlashings (staking w) d) (w\<lparr>staking := s\<rparr>)"
    and "depositorBalances s = (depositorBalances (staking w))(d := 0)"
    and "depositorRewards s = (depositorRewards (staking w))(d := 0)"
    and "depositorSlashings s = (depositorSlashings (staking w))(d := 0)"
    and "depositorWithdrawalRequests s = (depositorWithdrawalRequests (staking w))(d := 0)"
    and "depositorExists s = (depositorExists (staking w))(d := e)"
    and "totalDepositedBalance s \<le> totalDepositedBalance (staking w)"
    and "partialWithdrawalAmount s = partialWithdrawalAmount (staking w)"
    and "partialWithdrawalBlock s = partialWithdrawalBlock (staking w)"
    and "depositorEverExisted s = depositorEverExisted (staking w)"
  shows "accounts w w' 0"
proof (rule accountsI [OF assms(1), of d])
  note s = storeOkD [OF assms(1)] and upd = assms(8-12) assms(14-16)
  have b: "bal = depositorBalances (staking w) d + depositorRewards (staking w) d"
    using assms(3) s(3,4) by (simp add: safe_add_Inr)
  show "storeOk (staking w')" if "finite (touched (staking w'))"
    using that assms(1,13) s(10) [OF assms(6)] by (auto simp: storeOk_def assms(7) upd)
  show "owed (staking w') d - owed (staking w) d =
      0 + int (balances w' STAKING_CONTRACT_ADDRESS) - int (balances w STAKING_CONTRACT_ADDRESS)"
    using assms(2,4,5) b by (simp add: owed_def assms(7) upd transfer_balance of_nat_diff)
qed (simp_all add: assms(7-16))

lemma completeWithdrawal_accounts:
  assumes "completeWithdrawal m w = Inr (w', r)" and "storeOk (staking w)" and "sender m \<noteq> STAKING_CONTRACT_ADDRESS"
  shows "accounts w w' 0"
proof -
  obtain bal where b: "safe_add (depositorBalances (staking w) (sender m)) (depositorRewards (staking w) (sender m)) = Inr bal"
      "depositorSlashings (staking w) (sender m) < bal"
      "bal - depositorSlashings (staking w) (sender m) \<le> balances w STAKING_CONTRACT_ADDRESS"
      "0 < depositorWithdrawalRequests (staking w) (sender m)"
      "w' = transfer STAKING_CONTRACT_ADDRESS (sender m) (bal - depositorSlashings (staking w) (sender m))
        (w\<lparr>staking := (staking w)\<lparr>depositorBalances := (depositorBalances (staking w))(sender m := 0),
        depositorRewards := (depositorRewards (staking w))(sender m := 0),
        depositorSlashings := (depositorSlashings (staking w))(sender m := 0),
        depositorWithdrawalRequests := (depositorWithdrawalRequests (staking w))(sender m := 0),
        totalDepositedBalance := totalDepositedBalance (staking w) - (bal - depositorSlashings (staking w) (sender m)),
        depositorExists := (depositorExists (staking w))(sender m := True)\<rparr>\<rparr>)"
    using assms(1) by (auto simp: completeWithdrawal_def Let_def sol_Inr)
  show ?thesis by (rule closing_accounts [OF assms(2,3) b]) simp_all
qed

lemma completeWithdrawal1_accounts:
  assumes "completeWithdrawal1 m w = Inr (w', r)" and "storeOk (staking w)" and "sender m \<noteq> STAKING_CONTRACT_ADDRESS"
  shows "accounts w w' 0"
proof -
  obtain bal where b: "safe_add (depositorBalances (staking w) (sender m)) (depositorRewards (staking w) (sender m)) = Inr bal"
      "depositorSlashings (staking w) (sender m) < bal"
      "bal - depositorSlashings (staking w) (sender m) \<le> balances w STAKING_CONTRACT_ADDRESS"
      "0 < depositorWithdrawalRequests (staking w) (sender m)"
      "w' = transfer STAKING_CONTRACT_ADDRESS (sender m) (bal - depositorSlashings (staking w) (sender m))
        (w\<lparr>staking := (staking w)\<lparr>depositorBalances := (depositorBalances (staking w))(sender m := 0),
        depositorRewards := (depositorRewards (staking w))(sender m := 0),
        depositorSlashings := (depositorSlashings (staking w))(sender m := 0),
        depositorExists := (depositorExists (staking w))(sender m := False),
        depositorWithdrawalRequests := (depositorWithdrawalRequests (staking w))(sender m := 0)\<rparr>\<rparr>)"
    using assms(1) by (auto simp: completeWithdrawal1_def Let_def sol_Inr)
  show ?thesis by (rule closing_accounts [OF assms(2,3) b]) simp_all
qed

lemma zero_not_staking: "ZERO_ADDRESS \<noteq> STAKING_CONTRACT_ADDRESS"
  by code_simp

lemma addDepositorSlashing_accounts:
  assumes "addDepositorSlashing m d x w = Inr (w', r)" and "storeOk (staking w)" and "x < U256"
  shows "accounts w w' 0"
proof (rule accountsI [OF assms(2), of d])
  note s = storeOkD [OF assms(2)]
  obtain y where y: "safe_add (depositorSlashings (staking w) d) x = Inr y" "x \<le> balances w STAKING_CONTRACT_ADDRESS"
      "w' = transfer STAKING_CONTRACT_ADDRESS ZERO_ADDRESS x
        (w\<lparr>staking := (staking w)\<lparr>depositorSlashings := (depositorSlashings (staking w))(d := y)\<rparr>\<rparr>)"
    using assms(1) by (auto simp: addDepositorSlashing_def Let_def sol_Inr)
  have b: "y = depositorSlashings (staking w) d + x" "y < U256" using y(1) s(5) assms(3) by (simp_all add: safe_add_Inr)
  show "storeOk (staking w')" if "finite (touched (staking w'))"
    using that b(2) assms(2) by (auto simp: storeOk_def y(3))
  show "owed (staking w') d - owed (staking w) d =
      0 + int (balances w' STAKING_CONTRACT_ADDRESS) - int (balances w STAKING_CONTRACT_ADDRESS)"
    using y(2) b(1) zero_not_staking by (simp add: owed_def y(3) transfer_balance of_nat_diff)
qed (use assms(1) in \<open>auto simp: addDepositorSlashing_def Let_def sol_Inr\<close>)

lemma addDepositorReward_accounts:
  assumes "addDepositorReward m d x w = Inr (w', r)" and "storeOk (staking w)" and "x < U256"
  shows "accounts w w' (int x)"
proof (rule accountsI [OF assms(2), of d])
  note s = storeOkD [OF assms(2)]
  obtain y where y: "safe_add (depositorRewards (staking w) d) x = Inr y"
      "w' = w\<lparr>staking := (staking w)\<lparr>depositorRewards := (depositorRewards (staking w))(d := y)\<rparr>\<rparr>"
    using assms(1) by (auto simp: addDepositorReward_def Let_def sol_Inr)
  have b: "y = depositorRewards (staking w) d + x" "y < U256" using y(1) s(4) assms(3) by (simp_all add: safe_add_Inr)
  show "storeOk (staking w')" if "finite (touched (staking w'))"
    using that b(2) assms(2) by (auto simp: storeOk_def y(2))
  show "owed (staking w') d - owed (staking w) d =
      int x + int (balances w' STAKING_CONTRACT_ADDRESS) - int (balances w STAKING_CONTRACT_ADDRESS)"
    by (simp add: owed_def y(2) b(1))
qed (use assms(1) in \<open>auto simp: addDepositorReward_def Let_def sol_Inr\<close>)

text \<open>A request keeps what is owed: the slashings are settled and the amount is set aside.\<close>

lemma debit_Inr:
  assumes "debit d x s = Inr s'"
  shows "(\<exists>r. s' = s\<lparr>depositorRewards := (depositorRewards s)(d := r)\<rparr> \<and> r + x = depositorRewards s d) \<or>
    (\<exists>b t. s' = s\<lparr>depositorRewards := (depositorRewards s)(d := 0), totalDepositedBalance := t,
               depositorBalances := (depositorBalances s)(d := b)\<rparr> \<and>
       b + x = depositorBalances s d + depositorRewards s d \<and> depositorRewards s d \<le> x \<and>
       t + x = totalDepositedBalance s + depositorRewards s d)"
proof (cases "x \<le> depositorRewards s d")
  case True
  then show ?thesis using assms by (auto simp: debit_def sol_Inr)
next
  case False
  then show ?thesis using assms
    by (intro disjI2 exI [of _ "depositorBalances s d - (x - depositorRewards s d)"]
        exI [of _ "totalDepositedBalance s - (x - depositorRewards s d)"]) (auto simp: debit_def sol_Inr)
qed

lemma initiatePartialWithdrawal_accounts:
  assumes "initiatePartialWithdrawal m x w = Inr (w', r)" and "storeOk (staking w)" and "x < U256"
    and "0 < block_number m" and "block_number m < U256"
  shows "accounts w w' 0"
proof (rule accountsI [OF assms(2), of "sender m"])
  note s = storeOkD [OF assms(2)]
  obtain y s1 where y: "safe_add (depositorSlashings (staking w) (sender m)) x = Inr y"
      "debit (sender m) y (staking w) = Inr s1" "partialWithdrawalBlock (staking w) (sender m) = 0"
      "depositorExists (staking w) (sender m)"
      "w' = w\<lparr>staking := s1\<lparr>depositorSlashings := (depositorSlashings s1)(sender m := 0),
         partialWithdrawalBlock := (partialWithdrawalBlock s1)(sender m := block_number m),
         partialWithdrawalAmount := (partialWithdrawalAmount s1)(sender m := x)\<rparr>\<rparr>"
    using assms(1) by (auto simp: initiatePartialWithdrawal_def Let_def sol_Inr)
  have b: "y = depositorSlashings (staking w) (sender m) + x" using y(1) s(5) assms(3) by (simp add: safe_add_Inr)
  have p: "partialWithdrawalAmount (staking w) (sender m) = 0" by (rule s(7) [OF y(3)])
  note u = debit_Inr [OF y(2)]
  show "depositorBalances (staking w') c = depositorBalances (staking w) c \<and>
      depositorRewards (staking w') c = depositorRewards (staking w) c \<and>
      partialWithdrawalAmount (staking w') c = partialWithdrawalAmount (staking w) c \<and>
      depositorSlashings (staking w') c = depositorSlashings (staking w) c" if "c \<noteq> sender m" for c
    using u that by (auto simp: y(5))
  have less: "b < U256" "t < U256"
    if "b + y = depositorBalances (staking w) (sender m) + depositorRewards (staking w) (sender m)"
      "depositorRewards (staking w) (sender m) \<le> y"
      "t + y = totalDepositedBalance (staking w) + depositorRewards (staking w) (sender m)" for b t
    using that s(2) s(3) [of "sender m"] by linarith+
  have less': "r < U256" if "r + y = depositorRewards (staking w) (sender m)" for r
    using that s(4) [of "sender m"] by linarith
  show "storeOk (staking w')" if "finite (touched (staking w'))"
    using u that assms(2,4,5) less less' s(9) [OF y(4)] unfolding y(5) storeOk_def by auto
  show "owed (staking w') (sender m) - owed (staking w) (sender m) =
      0 + int (balances w' STAKING_CONTRACT_ADDRESS) - int (balances w STAKING_CONTRACT_ADDRESS)"
    using u p b by (auto simp: owed_def y(5))
qed

lemma completePartialWithdrawal_accounts:
  assumes "completePartialWithdrawal m w = Inr (w', r)" and "storeOk (staking w)" and "sender m \<noteq> STAKING_CONTRACT_ADDRESS"
  shows "accounts w w' 0"
proof (rule accountsI [OF assms(2), of "sender m"])
  have w: "w' = transfer STAKING_CONTRACT_ADDRESS (sender m) (partialWithdrawalAmount (staking w) (sender m))
        (w\<lparr>staking := (staking w)\<lparr>partialWithdrawalBlock := (partialWithdrawalBlock (staking w))(sender m := 0),
          partialWithdrawalAmount := (partialWithdrawalAmount (staking w))(sender m := 0)\<rparr>\<rparr>)"
      "partialWithdrawalAmount (staking w) (sender m) \<le> balances w STAKING_CONTRACT_ADDRESS"
    using assms(1) by (auto simp: completePartialWithdrawal_def Let_def sol_Inr)
  show "storeOk (staking w')" if "finite (touched (staking w'))"
    using that assms(2) by (auto simp: storeOk_def w(1))
  show "owed (staking w') (sender m) - owed (staking w) (sender m) =
      0 + int (balances w' STAKING_CONTRACT_ADDRESS) - int (balances w STAKING_CONTRACT_ADDRESS)"
    using assms(3) w(2) by (simp add: owed_def w(1) transfer_balance of_nat_diff)
qed (use assms(1) in \<open>auto simp: completePartialWithdrawal_def Let_def sol_Inr\<close>)

lemma accounts_same:
  assumes "storeOk (staking w)" and "balances w' = balances w"
    and "depositorBalances (staking w') = depositorBalances (staking w)"
    and "depositorRewards (staking w') = depositorRewards (staking w)"
    and "depositorSlashings (staking w') = depositorSlashings (staking w)"
    and "partialWithdrawalAmount (staking w') = partialWithdrawalAmount (staking w)"
    and "partialWithdrawalBlock (staking w') = partialWithdrawalBlock (staking w)"
    and "totalDepositedBalance (staking w') = totalDepositedBalance (staking w)"
    and "depositorEverExisted (staking w') = depositorEverExisted (staking w)"
    and "\<And>d. depositorExists (staking w') d \<Longrightarrow> depositorExists (staking w) d"
    and "\<And>d. 0 < depositorWithdrawalRequests (staking w') d \<Longrightarrow>
      0 < depositorWithdrawalRequests (staking w) d \<or> depositorExists (staking w) d"
  shows "accounts w w' 0"
proof -
  note l = ledger_same [OF assms(3,4,6,5)]
  have "storeOk (staking w')"
    using assms(1) assms(10,11) unfolding storeOk_def l(1) assms(3-9) by blast
  then show ?thesis using l(2) assms(2) by (simp add: accounts_def surplus_def)
qed

lemma neutral_accounts:
  assumes "storeOk (staking w)"
  shows "pauseValidation m w = Inr w' \<Longrightarrow> accounts w w' 0"
    and "resumeValidation m w = Inr w' \<Longrightarrow> accounts w w' 0"
    and "pauseValidation1 m w = Inr w' \<Longrightarrow> accounts w w' 0"
    and "resumeValidation1 m w = Inr w' \<Longrightarrow> accounts w w' 0"
    and "changeValidator m v w = Inr w' \<Longrightarrow> accounts w w' 0"
    and "setNilBlock m v w = Inr w' \<Longrightarrow> accounts w w' 0"
    and "resetNilBlock m v w = Inr w' \<Longrightarrow> accounts w w' 0"
    and "initiateWithdrawal m w = Inr (w', r) \<Longrightarrow> accounts w w' 0"
proof -
  show "pauseValidation m w = Inr w' \<Longrightarrow> accounts w w' 0"
    by (rule accounts_same [OF assms]) (auto simp: pauseValidation_def Let_def sol_Inr)
  show "resumeValidation m w = Inr w' \<Longrightarrow> accounts w w' 0"
    by (rule accounts_same [OF assms]) (auto simp: resumeValidation_def Let_def sol_Inr)
  show "pauseValidation1 m w = Inr w' \<Longrightarrow> accounts w w' 0"
    by (rule accounts_same [OF assms]) (auto simp: pauseValidation1_def Let_def sol_Inr)
  show "resumeValidation1 m w = Inr w' \<Longrightarrow> accounts w w' 0"
    by (rule accounts_same [OF assms]) (auto simp: resumeValidation1_def Let_def sol_Inr)
  show "changeValidator m v w = Inr w' \<Longrightarrow> accounts w w' 0"
    by (rule accounts_same [OF assms]) (auto simp: changeValidator_def Let_def sol_Inr)
  show "setNilBlock m v w = Inr w' \<Longrightarrow> accounts w w' 0"
    by (rule accounts_same [OF assms]) (auto simp: setNilBlock_def Let_def sol_Inr)
  show "resetNilBlock m v w = Inr w' \<Longrightarrow> accounts w w' 0"
    by (rule accounts_same [OF assms]) (auto simp: resetNilBlock_def Let_def sol_Inr)
  show "initiateWithdrawal m w = Inr (w', r) \<Longrightarrow> accounts w w' 0"
    by (rule accounts_same [OF assms]) (auto simp: initiateWithdrawal_def Let_def sol_Inr split: if_splits)
qed

definition wfMsg :: "msg \<Rightarrow> bool" where
  "wfMsg m \<longleftrightarrow> msg_value m < U256 \<and> 0 < block_number m \<and> block_number m < U256 \<and>
    sender m \<noteq> STAKING_CONTRACT_ADDRESS"

lemma newDeposit_accounts:
  assumes "newDeposit m v w = Inr w' \<or> newDeposit1 m v w = Inr w'" and "storeOk (staking w)" and "msg_value m < U256"
  shows "accounts w w' (int (msg_value m))"
proof -
  have "enterDeposit m v w = Inr w'" "\<not> depositorEverExisted (staking w) (sender m)"
    using assms(1) by (auto simp: newDeposit_def newDeposit1_def Let_def sol_Inr)
  from enterDeposit_accounts [OF this(1) assms(2) this(2) assms(3)] show ?thesis .
qed

lemma execute2_accounts:
  assumes "execute2 m c w = Inr (w', r)" and "storeOk (staking w)" and "wfMsg m" and "wfCall c"
  shows "accounts w w' (int (promised m c))"
proof -
  note m = assms(3) [unfolded wfMsg_def]
  show ?thesis using assms(1,4) m
    by (cases c) (auto simp: execute2_def noResult_def sbind_Inr split: if_splits
        intro: newDeposit_accounts [OF _ assms(2)] neutral_accounts [OF assms(2)]
          completeWithdrawal_accounts [OF _ assms(2)] addDepositorSlashing_accounts [OF _ assms(2)]
          addDepositorReward_accounts [OF _ assms(2)] increaseDeposit_accounts [OF _ assms(2)]
          initiatePartialWithdrawal_accounts [OF _ assms(2)] completePartialWithdrawal_accounts [OF _ assms(2)])
qed

lemma execute1_accounts:
  assumes "execute1 m c w = Inr (w', r)" and "storeOk (staking w)" and "wfMsg m" and "wfCall c"
  shows "accounts w w' (int (promised m c))"
proof -
  note m = assms(3) [unfolded wfMsg_def]
  show ?thesis using assms(1,4) m
    by (cases c) (auto simp: execute1_def noResult_def sbind_Inr split: if_splits
        intro: newDeposit_accounts [OF _ assms(2)] neutral_accounts [OF assms(2)]
          completeWithdrawal1_accounts [OF _ assms(2)] addDepositorSlashing_accounts [OF _ assms(2)]
          addDepositorReward_accounts [OF _ assms(2)])
qed

text \<open>A user's call leaves the surplus as it is, whether it succeeds or not.\<close>

lemma execute_sender:
  assumes "execute2 m c w = Inr (w', r) \<or> execute1 m c w = Inr (w', r)" and "sender m \<noteq> ZERO_ADDRESS"
  shows "promised m c = msg_value m"
  using assms
  by (cases c) (auto simp: execute2_def execute1_def addDepositorReward_def Let_def split: if_splits)

lemma transact_accounts:
  assumes "\<And>w1 w2 r. f w1 = Inr (w2, r) \<Longrightarrow> storeOk (staking w1) \<Longrightarrow> accounts w1 w2 (int (msg_value m))"
    and "storeOk (staking w)" and "sender m \<noteq> STAKING_CONTRACT_ADDRESS"
  shows "accounts w (fst (transact STAKING_CONTRACT_ADDRESS m f w)) 0"
proof (cases "f (transfer (sender m) STAKING_CONTRACT_ADDRESS (msg_value m) w)")
  case (Inr p)
  obtain w2 r where p: "p = (w2, r)" by (cases p)
  let ?w1 = "transfer (sender m) STAKING_CONTRACT_ADDRESS (msg_value m) w"
  have "surplus ?w1 = surplus w + int (msg_value m)"
    using assms(3) by (simp add: surplus_def transfer_balance)
  with assms(1) [OF Inr [unfolded p]] assms(2) Inr p show ?thesis
    by (simp add: transact_def accounts_def)
qed (use assms(2) in \<open>simp add: transact_def accounts_def\<close>)

lemma user_call_accounts:
  assumes "storeOk (staking w)" and "wfMsg m" and "wfCall c" and "sender m \<noteq> ZERO_ADDRESS"
  shows "accounts w (fst (transact STAKING_CONTRACT_ADDRESS m (execute2 m c) w)) 0"
    and "accounts w (fst (transact STAKING_CONTRACT_ADDRESS m (execute1 m c) w)) 0"
proof -
  have s: "sender m \<noteq> STAKING_CONTRACT_ADDRESS" using assms(2) by (simp add: wfMsg_def)
  have "accounts w1 w2 (int (msg_value m))" if "execute2 m c w1 = Inr (w2, r)" "storeOk (staking w1)" for w1 w2 r
    using execute2_accounts [OF that assms(2,3)] execute_sender [OF disjI1 [OF that(1)] assms(4)] by simp
  then show "accounts w (fst (transact STAKING_CONTRACT_ADDRESS m (execute2 m c) w)) 0"
    by (rule transact_accounts [OF _ assms(1) s])
  have "accounts w1 w2 (int (msg_value m))" if "execute1 m c w1 = Inr (w2, r)" "storeOk (staking w1)" for w1 w2 r
    using execute1_accounts [OF that assms(2,3)] execute_sender [OF disjI2 [OF that(1)] assms(4)] by simp
  then show "accounts w (fst (transact STAKING_CONTRACT_ADDRESS m (execute1 m c) w)) 0"
    by (rule transact_accounts [OF _ assms(1) s])
qed

section \<open>Depositors and validators\<close>

text \<open>
  Every depositor has exactly one validator and every current validator one depositor; the list of
  the validators has every address that ever was one, once, and never the zero address.
\<close>

definition paired ::
    "(address \<Rightarrow> bool) \<Rightarrow> (address \<Rightarrow> bool) \<Rightarrow> (address \<Rightarrow> address) \<Rightarrow> (address \<Rightarrow> address) \<Rightarrow> bool" where
  "paired vals deps f g \<longleftrightarrow>
    (\<forall>v. vals v \<longrightarrow> deps (f v) \<and> g (f v) = v) \<and> (\<forall>v. \<not> vals v \<longrightarrow> f v = ZERO_ADDRESS) \<and>
    (\<forall>d. deps d \<longrightarrow> vals (g d) \<and> f (g d) = d)"

definition rolesOk :: "stakingStore \<Rightarrow> bool" where
  "rolesOk s \<longleftrightarrow> distinct (validatorList s) \<and> set (validatorList s) = {v. validatorEverExisted s v} \<and>
    \<not> validatorEverExisted s ZERO_ADDRESS \<and> \<not> depositorEverExisted s ZERO_ADDRESS \<and>
    paired (validatorExists s) (depositorEverExisted s) (validatorToDepositor s) (depositorToValidator s) \<and>
    (\<forall>v. validatorExists s v \<longrightarrow> validatorEverExisted s v) \<and>
    (\<forall>d. depositorExists s d \<longrightarrow> depositorEverExisted s d) \<and>
    (\<forall>d. 0 < depositorWithdrawalRequests s d \<longrightarrow> depositorEverExisted s d)"

lemma paired_enter:
  assumes "paired vals deps f g" and "\<not> vals v" and "\<not> deps d"
  shows "paired (vals(v := True)) (deps(d := True)) (f(v := d)) (g(d := v))"
  using assms unfolding paired_def by (simp add: fun_upd_def) metis

lemma paired_change:
  assumes "paired vals deps f g" and "deps d" and "\<not> vals v"
  shows "paired (vals(v := True, g d := False)) deps (f(v := d, g d := ZERO_ADDRESS)) (g(d := v))"
proof -
  have "g d \<noteq> v" using assms unfolding paired_def by metis
  with assms show ?thesis unfolding paired_def by (simp add: fun_upd_def) metis
qed

lemma enterDeposit_roles:
  assumes "enterDeposit m v w = Inr w'" and "rolesOk (staking w)"
    and "\<not> depositorEverExisted (staking w) (sender m)" and "\<not> validatorEverExisted (staking w) v"
    and "sender m \<noteq> ZERO_ADDRESS" and "v \<noteq> ZERO_ADDRESS"
  shows "rolesOk (staking w')"
proof -
  have "\<not> validatorExists (staking w) v" using assms(2,4) by (auto simp: rolesOk_def)
  with paired_enter [of "validatorExists (staking w)" _ _ _ v "sender m"] assms show ?thesis
    unfolding rolesOk_def by (auto simp: enterDeposit_def Let_def sbind_Inr)
qed

lemma changeValidator_roles:
  assumes "changeValidator m v w = Inr w'" and "rolesOk (staking w)"
  shows "rolesOk (staking w')"
proof -
  have g: "\<not> validatorEverExisted (staking w) v" "depositorExists (staking w) (sender m)" "v \<noteq> ZERO_ADDRESS"
    using assms(1) by (auto simp: changeValidator_def Let_def sol_Inr)
  have d: "depositorEverExisted (staking w) (sender m)" "\<not> validatorExists (staking w) v"
    using assms(2) g(1,2) by (auto simp: rolesOk_def)
  have "paired (validatorExists (staking w)) (depositorEverExisted (staking w)) (validatorToDepositor (staking w))
      (depositorToValidator (staking w))" using assms(2) by (simp add: rolesOk_def)
  from paired_change [OF this d] assms g show ?thesis
    unfolding rolesOk_def by (auto simp: changeValidator_def Let_def sol_Inr split: if_splits)
qed

lemma roles_same:
  assumes "rolesOk (staking w)" and "validatorList (staking w') = validatorList (staking w)"
    and "validatorEverExisted (staking w') = validatorEverExisted (staking w)"
    and "depositorEverExisted (staking w') = depositorEverExisted (staking w)"
    and "validatorExists (staking w') = validatorExists (staking w)"
    and "validatorToDepositor (staking w') = validatorToDepositor (staking w)"
    and "depositorToValidator (staking w') = depositorToValidator (staking w)"
    and "\<And>d. depositorExists (staking w') d \<Longrightarrow>
      depositorExists (staking w) d \<or> 0 < depositorWithdrawalRequests (staking w) d"
    and "\<And>d. 0 < depositorWithdrawalRequests (staking w') d \<Longrightarrow>
      0 < depositorWithdrawalRequests (staking w) d \<or> depositorExists (staking w) d"
  shows "rolesOk (staking w')"
  using assms(1) assms(8,9) unfolding rolesOk_def assms(2-7) by blast

lemma debit_roles:
  assumes "debit d x s = Inr s'"
  shows "validatorList s' = validatorList s" "validatorEverExisted s' = validatorEverExisted s"
    "depositorEverExisted s' = depositorEverExisted s" "validatorExists s' = validatorExists s"
    "validatorToDepositor s' = validatorToDepositor s" "depositorToValidator s' = depositorToValidator s"
    "depositorExists s' = depositorExists s" "depositorWithdrawalRequests s' = depositorWithdrawalRequests s"
  using debit_Inr [OF assms] by auto

lemma neutral_roles:
  assumes "rolesOk (staking w)"
  shows "pauseValidation m w = Inr w' \<Longrightarrow> rolesOk (staking w')"
    and "resumeValidation m w = Inr w' \<Longrightarrow> rolesOk (staking w')"
    and "completeWithdrawal m w = Inr (w', r) \<Longrightarrow> rolesOk (staking w')"
    and "addDepositorSlashing m d x w = Inr (w', r) \<Longrightarrow> rolesOk (staking w')"
    and "addDepositorReward m d x w = Inr (w', r) \<Longrightarrow> rolesOk (staking w')"
    and "increaseDeposit m w = Inr w' \<Longrightarrow> rolesOk (staking w')"
    and "completePartialWithdrawal m w = Inr (w', r) \<Longrightarrow> rolesOk (staking w')"
    and "setNilBlock m v w = Inr w' \<Longrightarrow> rolesOk (staking w')"
    and "resetNilBlock m v w = Inr w' \<Longrightarrow> rolesOk (staking w')"
    and "pauseValidation1 m w = Inr w' \<Longrightarrow> rolesOk (staking w')"
    and "resumeValidation1 m w = Inr w' \<Longrightarrow> rolesOk (staking w')"
    and "initiateWithdrawal m w = Inr (w', r) \<Longrightarrow> rolesOk (staking w')"
    and "completeWithdrawal1 m w = Inr (w', r) \<Longrightarrow> rolesOk (staking w')"
    and "initiatePartialWithdrawal m x w = Inr (w', r) \<Longrightarrow> rolesOk (staking w')"
proof -
  show "pauseValidation m w = Inr w' \<Longrightarrow> rolesOk (staking w')"
    by (rule roles_same [OF assms]) (auto simp: pauseValidation_def Let_def sol_Inr)
  show "resumeValidation m w = Inr w' \<Longrightarrow> rolesOk (staking w')"
    by (rule roles_same [OF assms]) (auto simp: resumeValidation_def Let_def sol_Inr)
  show "completeWithdrawal m w = Inr (w', r) \<Longrightarrow> rolesOk (staking w')"
    by (rule roles_same [OF assms]) (auto simp: completeWithdrawal_def Let_def sol_Inr split: if_splits)
  show "addDepositorSlashing m d x w = Inr (w', r) \<Longrightarrow> rolesOk (staking w')"
    by (rule roles_same [OF assms]) (auto simp: addDepositorSlashing_def Let_def sol_Inr)
  show "addDepositorReward m d x w = Inr (w', r) \<Longrightarrow> rolesOk (staking w')"
    by (rule roles_same [OF assms]) (auto simp: addDepositorReward_def Let_def sol_Inr)
  show "increaseDeposit m w = Inr w' \<Longrightarrow> rolesOk (staking w')"
    by (rule roles_same [OF assms]) (auto simp: increaseDeposit_def Let_def sol_Inr)
  show "completePartialWithdrawal m w = Inr (w', r) \<Longrightarrow> rolesOk (staking w')"
    by (rule roles_same [OF assms]) (auto simp: completePartialWithdrawal_def Let_def sol_Inr)
  show "setNilBlock m v w = Inr w' \<Longrightarrow> rolesOk (staking w')"
    by (rule roles_same [OF assms]) (auto simp: setNilBlock_def Let_def sol_Inr)
  show "resetNilBlock m v w = Inr w' \<Longrightarrow> rolesOk (staking w')"
    by (rule roles_same [OF assms]) (auto simp: resetNilBlock_def Let_def sol_Inr)
  show "pauseValidation1 m w = Inr w' \<Longrightarrow> rolesOk (staking w')"
    by (rule roles_same [OF assms]) (auto simp: pauseValidation1_def Let_def sol_Inr)
  show "resumeValidation1 m w = Inr w' \<Longrightarrow> rolesOk (staking w')"
    by (rule roles_same [OF assms]) (auto simp: resumeValidation1_def Let_def sol_Inr)
  show "initiateWithdrawal m w = Inr (w', r) \<Longrightarrow> rolesOk (staking w')"
    by (rule roles_same [OF assms]) (auto simp: initiateWithdrawal_def Let_def sol_Inr split: if_splits)
  show "completeWithdrawal1 m w = Inr (w', r) \<Longrightarrow> rolesOk (staking w')"
    by (rule roles_same [OF assms]) (auto simp: completeWithdrawal1_def Let_def sol_Inr split: if_splits)
  show "initiatePartialWithdrawal m x w = Inr (w', r) \<Longrightarrow> rolesOk (staking w')"
    by (rule roles_same [OF assms]) (auto simp: initiatePartialWithdrawal_def Let_def sol_Inr debit_roles)
qed

lemma newDeposit_roles:
  assumes "newDeposit m v w = Inr w' \<or> newDeposit1 m v w = Inr w'" and "rolesOk (staking w)" and "sender m \<noteq> ZERO_ADDRESS"
  shows "rolesOk (staking w')"
proof -
  have "enterDeposit m v w = Inr w'" "\<not> depositorEverExisted (staking w) (sender m)"
      "\<not> validatorEverExisted (staking w) v" "v \<noteq> ZERO_ADDRESS"
    using assms(1) by (auto simp: newDeposit_def newDeposit1_def Let_def sol_Inr)
  from enterDeposit_roles [OF this(1) assms(2) this(2,3) assms(3) this(4)] show ?thesis .
qed

lemma execute_roles:
  assumes "execute2 m c w = Inr (w', r) \<or> execute1 m c w = Inr (w', r)" and "rolesOk (staking w)"
    and "\<And>v. c = NewDeposit v \<Longrightarrow> sender m \<noteq> ZERO_ADDRESS"
  shows "rolesOk (staking w')"
  using assms(1,3)
  by (cases c) (auto simp: execute2_def execute1_def noResult_def sbind_Inr split: if_splits
      intro: newDeposit_roles [OF _ assms(2)] changeValidator_roles [OF _ assms(2)] neutral_roles [OF assms(2)])

end
