(* ===== verification/Staking_Runs.thy ===== *)
theory Staking_Runs
  imports Staking_Ledger Pos_Validators
begin

text \<open>
  The staking contract over the life of the chain, and what the consensus reads from it:
  \<open>GetValidators\<close> and \<open>ListValidatorsAsMap\<close> of \<open>validator.go\<close>.
\<close>

section \<open>Runs of the chain\<close>

definition emptyStore :: stakingStore where
  "emptyStore = \<lparr>validatorList = [], depositorBalances = (\<lambda>_. 0), totalDepositedBalance = 0, depositorCount = 0,
    validatorExists = (\<lambda>_. False), depositorExists = (\<lambda>_. False),
    validatorEverExisted = (\<lambda>_. False), depositorEverExisted = (\<lambda>_. False),
    validatorToDepositor = (\<lambda>_. ZERO_ADDRESS), depositorToValidator = (\<lambda>_. ZERO_ADDRESS),
    depositorSlashings = (\<lambda>_. 0), depositorRewards = (\<lambda>_. 0), depositorWithdrawalRequests = (\<lambda>_. 0),
    validationPaused = (\<lambda>_. False), partialWithdrawalBlock = (\<lambda>_. 0), partialWithdrawalAmount = (\<lambda>_. 0),
    validatorLastNilBlock = (\<lambda>_. 0), validatorNilBlockCount = (\<lambda>_. 0)\<rparr>"

text \<open>\<open>accumulateBalance\<close> (\<open>blockreward.go\<close>).\<close>

definition accumulateBalance :: "nat \<Rightarrow> address \<Rightarrow> chainState \<Rightarrow> chainState" where
  "accumulateBalance x a w = w\<lparr>balances := (balances w)(a := balances w a + x)\<rparr>"

text \<open>The messages of the engine come from the zero address and carry no value.\<close>

definition vmMsg :: "msg \<Rightarrow> bool" where
  "vmMsg m \<longleftrightarrow> wfMsg m \<and> sender m = ZERO_ADDRESS \<and> msg_value m = 0"

text \<open>
  A step is a call of a user, of the first version up to the change of the code and of the second one
  from then on; a slashing, a reward with the coins for it, or the mark of a nil block by the
  engine; or anything that leaves the contract and its coins alone, or gives it coins.
\<close>

inductive chainStep :: "chainState \<Rightarrow> chainState \<Rightarrow> bool" where
  user1: "wfMsg m \<Longrightarrow> wfCall c \<Longrightarrow> sender m \<noteq> ZERO_ADDRESS \<Longrightarrow>
    chainStep w (fst (transact STAKING_CONTRACT_ADDRESS m (execute1 m c) w))"
| user2: "wfMsg m \<Longrightarrow> wfCall c \<Longrightarrow> sender m \<noteq> ZERO_ADDRESS \<Longrightarrow>
    chainStep w (fst (transact STAKING_CONTRACT_ADDRESS m (execute2 m c) w))"
| slash: "vmMsg m \<Longrightarrow> x < U256 \<Longrightarrow> execute2 m (AddDepositorSlashing d x) w = Inr (w', r) \<Longrightarrow> chainStep w w'"
| reward: "vmMsg m \<Longrightarrow> x < U256 \<Longrightarrow>
    execute2 m (AddDepositorReward d x) (accumulateBalance x STAKING_CONTRACT_ADDRESS w) = Inr (w', r) \<Longrightarrow> chainStep w w'"
| nilBlock: "vmMsg m \<Longrightarrow> c = SetNilBlock v \<or> c = ResetNilBlock v \<Longrightarrow> execute2 m c w = Inr (w', r) \<Longrightarrow> chainStep w w'"
| elsewhere: "staking w' = staking w \<Longrightarrow> balances w STAKING_CONTRACT_ADDRESS \<le> balances w' STAKING_CONTRACT_ADDRESS \<Longrightarrow>
    chainStep w w'"

inductive chainRun :: "chainState \<Rightarrow> bool" where
  deployed: "staking w = emptyStore \<Longrightarrow> chainRun w"
| further: "chainRun w \<Longrightarrow> chainStep w w' \<Longrightarrow> chainRun w'"

definition contractOk :: "chainState \<Rightarrow> bool" where
  "contractOk w \<longleftrightarrow> storeOk (staking w) \<and> rolesOk (staking w) \<and> 0 \<le> surplus w"

lemma transact_roles:
  assumes "rolesOk (staking w)" and "sender m \<noteq> ZERO_ADDRESS"
  shows "rolesOk (staking (fst (transact STAKING_CONTRACT_ADDRESS m (execute2 m c) w)))"
    and "rolesOk (staking (fst (transact STAKING_CONTRACT_ADDRESS m (execute1 m c) w)))"
proof -
  let ?w1 = "transfer (sender m) STAKING_CONTRACT_ADDRESS (msg_value m) w"
  have "rolesOk (staking w2)" if "execute2 m c ?w1 = Inr (w2, r) \<or> execute1 m c ?w1 = Inr (w2, r)" for w2 r
    using execute_roles [OF that] assms by simp
  then show "rolesOk (staking (fst (transact STAKING_CONTRACT_ADDRESS m (execute2 m c) w)))"
      "rolesOk (staking (fst (transact STAKING_CONTRACT_ADDRESS m (execute1 m c) w)))"
    using assms(1) by (auto simp: transact_def split: sum.split)
qed

lemma chainStep_ok:
  assumes "chainStep w w'" and "contractOk w"
  shows "contractOk w'"
  using assms
proof cases
  case (user1 m c)
  then show ?thesis using assms(2) user_call_accounts(2) [of w m c] transact_roles(2) [of w m c]
    by (simp add: contractOk_def accounts_def)
next
  case (user2 m c)
  then show ?thesis using assms(2) user_call_accounts(1) [of w m c] transact_roles(1) [of w m c]
    by (simp add: contractOk_def accounts_def)
next
  case (slash m x d r)
  then show ?thesis using assms(2) execute2_accounts [OF slash(3)] execute_roles [OF disjI1 [OF slash(3)]]
    by (simp add: contractOk_def accounts_def vmMsg_def)
next
  case (reward m x d r)
  let ?w = "accumulateBalance x STAKING_CONTRACT_ADDRESS w"
  have "staking ?w = staking w" "surplus ?w = surplus w + int x" by (simp_all add: accumulateBalance_def surplus_def)
  then show ?thesis using reward(1,2) assms(2) execute2_accounts [OF reward(3)] execute_roles [OF disjI1 [OF reward(3)]]
    by (simp add: contractOk_def accounts_def vmMsg_def)
next
  case (nilBlock m c v r)
  then show ?thesis using assms(2) execute2_accounts [OF nilBlock(3)] execute_roles [OF disjI1 [OF nilBlock(3)]]
    by (auto simp: contractOk_def accounts_def vmMsg_def)
next
  case elsewhere
  then show ?thesis using assms(2) by (simp add: contractOk_def surplus_def)
qed

lemma empty_ok:
  assumes "staking w = emptyStore"
  shows "contractOk w"
proof -
  have "touched emptyStore = {}" by (simp add: touched_def emptyStore_def)
  then show ?thesis
    by (simp add: contractOk_def assms storeOk_def rolesOk_def paired_def surplus_def ledger_def)
      (simp add: emptyStore_def)
qed

lemma chainRun_ok: "chainRun w \<Longrightarrow> contractOk w"
  by (induction rule: chainRun.induct) (auto intro: empty_ok chainStep_ok)

section \<open>Withdrawals\<close>

definition notOverslashed :: "stakingStore \<Rightarrow> bool" where
  "notOverslashed s \<longleftrightarrow> (\<forall>d. depositorSlashings s d \<le> depositorBalances s d + depositorRewards s d)"

lemma set_aside:
  assumes "contractOk w" and "notOverslashed (staking w)"
  shows "partialWithdrawalAmount (staking w) d \<le> balances w STAKING_CONTRACT_ADDRESS"
proof -
  have p: "int (partialWithdrawalAmount (staking w) c) \<le> owed (staking w) c" for c
  proof -
    have "depositorSlashings (staking w) c \<le> depositorBalances (staking w) c + depositorRewards (staking w) c"
      using assms(2) by (simp add: notOverslashed_def)
    then show ?thesis unfolding owed_def by linarith
  qed
  have nn: "0 \<le> owed (staking w) c" for c using p [of c] by linarith
  have fin: "finite (touched (staking w))" using assms(1) by (simp add: contractOk_def storeOk_def)
  have "int (partialWithdrawalAmount (staking w) d) \<le> ledger (staking w)"
  proof (cases "d \<in> touched (staking w)")
    case True
    have "owed (staking w) d \<le> ledger (staking w)" unfolding ledger_def
      by (rule member_le_sum [OF True nn fin])
    with p [of d] show ?thesis by linarith
  next
    case False
    have "0 \<le> ledger (staking w)" unfolding ledger_def
      by (rule sum_nonneg) (rule nn)
    with False show ?thesis by (simp add: touched_def)
  qed
  then show ?thesis using assms(1) by (simp add: contractOk_def surplus_def)
qed

lemma withdrawal_paid:
  assumes "contractOk w" and "notOverslashed (staking w)" and "wfMsg m" and "accepts m (sender m)"
    and "depositorExists (staking w) (sender m)" and "depositorWithdrawalRequests (staking w) (sender m) = 0"
    and "0 < partialWithdrawalBlock (staking w) (sender m)"
    and "partialWithdrawalBlock (staking w) (sender m) + WITHDRAWAL_BLOCK_DELAY \<le> block_number m"
  shows "\<exists>w'. completePartialWithdrawal m w = Inr (w', partialWithdrawalAmount (staking w) (sender m)) \<and>
    balances w' (sender m) = balances w (sender m) + partialWithdrawalAmount (staking w) (sender m) \<and>
    partialWithdrawalBlock (staking w') (sender m) = 0 \<and> partialWithdrawalAmount (staking w') (sender m) = 0"
proof -
  have s: "sender m \<noteq> STAKING_CONTRACT_ADDRESS" "block_number m < U256" using assms(3) by (simp_all add: wfMsg_def)
  have "safe_add (partialWithdrawalBlock (staking w) (sender m)) WITHDRAWAL_BLOCK_DELAY =
      Inr (partialWithdrawalBlock (staking w) (sender m) + WITHDRAWAL_BLOCK_DELAY)"
    using assms(8) s(2) by (subst safe_add_Inr) auto
  with assms(4-8) set_aside [OF assms(1,2), of "sender m"] s(1) show ?thesis
    by (simp add: completePartialWithdrawal_def Let_def callValue_def transfer_balance)
qed

text \<open>A request that is not due is never paid.\<close>

lemma withdrawal_too_early:
  assumes "completePartialWithdrawal m w = Inr (w', r)" and "storeOk (staking w)"
  shows "partialWithdrawalBlock (staking w) (sender m) + WITHDRAWAL_BLOCK_DELAY \<le> block_number m \<and>
    r = partialWithdrawalAmount (staking w) (sender m)"
proof -
  obtain due where d: "safe_add (partialWithdrawalBlock (staking w) (sender m)) WITHDRAWAL_BLOCK_DELAY = Inr due"
      "due \<le> block_number m" "r = partialWithdrawalAmount (staking w) (sender m)"
    using assms(1) by (auto simp: completePartialWithdrawal_def Let_def sol_Inr)
  have "WITHDRAWAL_BLOCK_DELAY < U256" by (simp add: WITHDRAWAL_BLOCK_DELAY_def)
  with d storeOkD(6) [OF assms(2)] show ?thesis by (simp add: safe_add_Inr)
qed

section \<open>What the consensus reads\<close>

text \<open>
  The API call of a view function can fail for reasons of the node; \<open>apiErr\<close> gives the error for a
  function and its argument. An error for one validator drops it silently.
\<close>

type_synonym apiErr = "string \<Rightarrow> address \<Rightarrow> perr option"

definition viewCall :: "apiErr \<Rightarrow> string \<Rightarrow> address \<Rightarrow> solErr + 'a \<Rightarrow> perr + 'a" where
  "viewCall api f a r =
    (case api f a of
       Some e \<Rightarrow> Inl e
     | None \<Rightarrow> (case r of Inl e \<Rightarrow> Inl (ErrText ''execution reverted'') | Inr x \<Rightarrow> Inr x))"

fun collectDeposits :: "apiErr \<Rightarrow> stakingStore \<Rightarrow> address list \<Rightarrow> (address, int) gomap \<Rightarrow> perr + (address, int) gomap" where
  "collectDeposits api s [] m = Inr m"
| "collectDeposits api s (v # vs) m =
    (case viewCall api ''isValidationPaused'' v (Inr (validationPaused s v)) of
       Inl e \<Rightarrow> Inl e
     | Inr True \<Rightarrow> collectDeposits api s vs m
     | Inr False \<Rightarrow>
         (case viewCall api ''getDepositorOfValidator'' v (Inr (validatorToDepositor s v)) of
            Inl e \<Rightarrow> collectDeposits api s vs m
          | Inr d \<Rightarrow>
              if d = ZERO_ADDRESS then collectDeposits api s vs m
              else
                (case viewCall api ''getNetBalanceOfDepositor'' d (getNetBalanceOfDepositor s d) of
                   Inl e \<Rightarrow> collectDeposits api s vs m
                 | Inr bal \<Rightarrow> collectDeposits api s vs (mput v (int bal) m))))"

definition GetValidators :: "apiErr \<Rightarrow> stakingStore \<Rightarrow> perr + (address, int) gomap" where
  "GetValidators api s =
    (case viewCall api ''getDepositorCount'' [] (Inr (depositorCount s)) of
       Inl e \<Rightarrow> Inl e
     | Inr _ \<Rightarrow>
         (case viewCall api ''getTotalDepositedBalance'' [] (Inr (totalDepositedBalance s)) of
            Inl e \<Rightarrow> Inl e
          | Inr _ \<Rightarrow>
              (case viewCall api ''listValidators'' [] (Inr (validatorList s)) of
                 Inl e \<Rightarrow> Inl e
               | Inr vs \<Rightarrow>
                   if ZERO_ADDRESS \<in> set vs then Inl (ErrText ''invalid validator'')
                   else collectDeposits api s vs [])))"

definition detailsOf :: "stakingDetails \<Rightarrow> valdetails" where
  "detailsOf d = \<lparr>IsValidationPaused = sd_IsValidationPaused d, LastNiLBlock = int (sd_LastNilBlockNumber d),
    NilBlockCount = int (sd_NilBlockCount d)\<rparr>"

fun collectDetails ::
    "apiErr \<Rightarrow> stakingStore \<Rightarrow> address list \<Rightarrow> (address, valdetails) gomap \<Rightarrow> perr + (address, valdetails) gomap" where
  "collectDetails api s [] m = Inr m"
| "collectDetails api s (v # vs) m =
    (case viewCall api ''getDepositorOfValidator'' v (Inr (validatorToDepositor s v)) of
       Inl e \<Rightarrow> collectDetails api s vs m
     | Inr d \<Rightarrow>
         if d = ZERO_ADDRESS then collectDetails api s vs m
         else
           (case viewCall api ''getStakingDetails'' v (getStakingDetails s v) of
              Inl e \<Rightarrow> Inl e
            | Inr x \<Rightarrow> collectDetails api s vs (mput v (detailsOf x) m)))"

definition ListValidatorsAsMap :: "apiErr \<Rightarrow> stakingStore \<Rightarrow> perr + (address, valdetails) gomap" where
  "ListValidatorsAsMap api s =
    (case viewCall api ''listValidators'' [] (Inr (validatorList s)) of
       Inl e \<Rightarrow> Inl e
     | Inr vs \<Rightarrow>
         if ZERO_ADDRESS \<in> set vs then Inl (ErrText ''invalid validator'') else collectDetails api s vs [])"

text \<open>The deposit with which a validator takes part.\<close>

definition stakeOf :: "stakingStore \<Rightarrow> address \<Rightarrow> int option" where
  "stakeOf s v =
    (if validationPaused s v \<or> validatorToDepositor s v = ZERO_ADDRESS then None
     else case getNetBalanceOfDepositor s (validatorToDepositor s v) of Inl e \<Rightarrow> None | Inr b \<Rightarrow> Some (int b))"

lemma collectDeposits_sound:
  assumes "collectDeposits api s vs m = Inr m'" and "wfm m" and "\<And>v x. mget m v = Some x \<Longrightarrow> stakeOf s v = Some x"
  shows "wfm m' \<and> (\<forall>v x. mget m' v = Some x \<longrightarrow> stakeOf s v = Some x)"
  using assms
proof (induction vs arbitrary: m)
  case (Cons v vs)
  have step: "wfm (mput v (int b) m) \<and> (\<forall>u x. mget (mput v (int b) m) u = Some x \<longrightarrow> stakeOf s u = Some x)"
    if "\<not> validationPaused s v" "validatorToDepositor s v \<noteq> ZERO_ADDRESS"
      "getNetBalanceOfDepositor s (validatorToDepositor s v) = Inr b" for b
  proof -
    have "stakeOf s v = Some (int b)" using that by (simp add: stakeOf_def)
    then show ?thesis using Cons.prems(2,3) by (simp add: mget_mput wfm_mput)
  qed
  show ?case using Cons.prems Cons.IH [of m] Cons.IH [OF _ conjunct1 [OF step]] step
    by (auto simp: viewCall_def split: option.splits sum.splits if_splits bool.splits)
qed simp

lemma collectDeposits_complete:
  assumes "\<And>f a. api f a = None"
  shows "\<exists>m'. collectDeposits api s vs m = Inr m' \<and>
    (\<forall>v. mget m' v = (if v \<in> set vs \<and> stakeOf s v \<noteq> None then stakeOf s v else mget m v))"
proof (induction vs arbitrary: m)
  case (Cons v vs)
  show ?case
  proof (cases "stakeOf s v")
    case None
    then have "collectDeposits api s (v # vs) m = collectDeposits api s vs m"
      by (auto simp: stakeOf_def viewCall_def assms split: sum.splits if_splits bool.splits)
    with Cons.IH [of m] None show ?thesis by auto
  next
    case (Some x)
    then have "collectDeposits api s (v # vs) m = collectDeposits api s vs (mput v x m)"
      by (auto simp: stakeOf_def viewCall_def assms split: sum.splits if_splits bool.splits)
    with Cons.IH [of "mput v x m"] Some show ?thesis by (auto simp: mget_mput)
  qed
qed simp

lemma stakeOf_validator:
  assumes "rolesOk s" and "stakeOf s v = Some x"
  shows "0 \<le> x \<and> v \<in> set (validatorList s) \<and> validatorExists s v \<and> depositorToValidator s (validatorToDepositor s v) = v"
proof -
  have "validatorToDepositor s v \<noteq> ZERO_ADDRESS" "0 \<le> x"
    using assms(2) by (auto simp: stakeOf_def split: if_splits sum.splits)
  then show ?thesis using assms(1) unfolding rolesOk_def paired_def by auto
qed

lemma GetValidators_sound:
  assumes "rolesOk s" and "GetValidators api s = Inr m"
  shows "deposits_ok m \<and> (\<forall>v x. mget m v = Some x \<longrightarrow> stakeOf s v = Some x)"
proof -
  have "collectDeposits api s (validatorList s) [] = Inr m"
    using assms(2) by (auto simp: GetValidators_def viewCall_def split: sum.splits option.splits if_splits)
  from collectDeposits_sound [OF this] have m: "wfm m" "\<And>v x. mget m v = Some x \<Longrightarrow> stakeOf s v = Some x" by auto
  have "0 \<le> x" if "(v, x) \<in> set m" for v x
    using stakeOf_validator [OF assms(1) m(2) [OF mget_in [OF m(1) that]]] by simp
  then have "nonneg m" by (auto simp: nonneg_def)
  with m show ?thesis by (simp add: deposits_ok_def)
qed

lemma GetValidators_complete:
  assumes "rolesOk s" and "\<And>f a. api f a = None"
  shows "\<exists>m. GetValidators api s = Inr m \<and> (\<forall>v. mget m v = stakeOf s v)"
proof -
  obtain m where m: "collectDeposits api s (validatorList s) [] = Inr m"
      "\<forall>v. mget m v = (if v \<in> set (validatorList s) \<and> stakeOf s v \<noteq> None then stakeOf s v else mget [] v)"
    using collectDeposits_complete [of api s "validatorList s" "[]", OF assms(2)] by blast
  have "ZERO_ADDRESS \<notin> set (validatorList s)" using assms(1) by (simp add: rolesOk_def)
  then have "GetValidators api s = Inr m" using m(1) by (simp add: GetValidators_def viewCall_def assms(2))
  moreover have "mget m v = stakeOf s v" for v
    using m(2) stakeOf_validator [OF assms(1), of v] by (cases "stakeOf s v") auto
  ultimately show ?thesis by blast
qed

end
