(* ===== verification/Staking_Example.thy ===== *)
theory Staking_Example
  imports Staking_Runs
begin

text \<open>
  A history of the staking contract: two deposits, a reward, a withdrawal that was requested in the
  first version and is completed in the second one, and what this means for the other depositor.
\<close>

definition exA :: address where "exA = replicate 32 1"
definition exB :: address where "exB = replicate 32 2"
definition exVA :: address where "exVA = replicate 32 3"
definition exVB :: address where "exVB = replicate 32 4"

definition exMsg :: "address \<Rightarrow> nat \<Rightarrow> nat \<Rightarrow> msg" where
  "exMsg a x n = \<lparr>sender = a, msg_value = x, block_number = n, accepts = (\<lambda>_. True)\<rparr>"

definition exStart :: chainState where
  "exStart = \<lparr>balances = (\<lambda>a. if a = exA \<or> a = exB then MINIMUM_DEPOSIT else 0), staking = emptyStore,
    contexts = (\<lambda>_. ZERO_HASH),
    conversions = \<lparr>snapshotAmount = (\<lambda>_. 0), quantumAddress = (\<lambda>_. ZERO_ADDRESS), conversionStatus = (\<lambda>_. False)\<rparr>\<rparr>"

definition exDeposited :: chainState where
  "exDeposited =
    fst (transact STAKING_CONTRACT_ADDRESS (exMsg exB MINIMUM_DEPOSIT 2) (execute1 (exMsg exB MINIMUM_DEPOSIT 2) (NewDeposit exVB))
      (fst (transact STAKING_CONTRACT_ADDRESS (exMsg exA MINIMUM_DEPOSIT 1) (execute1 (exMsg exA MINIMUM_DEPOSIT 1) (NewDeposit exVA))
        exStart)))"

lemma ex_addresses:
  "exA \<noteq> exB" "exA \<noteq> exVA" "exA \<noteq> exVB" "exB \<noteq> exVA" "exB \<noteq> exVB" "exVA \<noteq> exVB"
  "exA \<noteq> ZERO_ADDRESS" "exB \<noteq> ZERO_ADDRESS" "exVA \<noteq> ZERO_ADDRESS" "exVB \<noteq> ZERO_ADDRESS"
  "exA \<noteq> STAKING_CONTRACT_ADDRESS" "exB \<noteq> STAKING_CONTRACT_ADDRESS" "exVA \<noteq> STAKING_CONTRACT_ADDRESS"
  "exVB \<noteq> STAKING_CONTRACT_ADDRESS"
  by code_simp+

lemmas ex_neq = ex_addresses ex_addresses [symmetric] zero_not_staking zero_not_staking [symmetric]

lemma exDeposited_eq:
  "staking exDeposited = emptyStore\<lparr>validatorList := [exVA, exVB], totalDepositedBalance := 2 * MINIMUM_DEPOSIT,
     depositorCount := 2,
     depositorBalances := (\<lambda>_. 0)(exA := MINIMUM_DEPOSIT, exB := MINIMUM_DEPOSIT),
     validatorExists := (\<lambda>_. False)(exVA := True, exVB := True),
     depositorExists := (\<lambda>_. False)(exA := True, exB := True),
     validatorEverExisted := (\<lambda>_. False)(exVA := True, exVB := True),
     depositorEverExisted := (\<lambda>_. False)(exA := True, exB := True),
     validatorToDepositor := (\<lambda>_. ZERO_ADDRESS)(exVA := exA, exVB := exB),
     depositorToValidator := (\<lambda>_. ZERO_ADDRESS)(exA := exVA, exB := exVB)\<rparr>"
  "balances exDeposited STAKING_CONTRACT_ADDRESS = 2 * MINIMUM_DEPOSIT"
  by (simp_all add: exDeposited_def exStart_def transact_def execute1_def newDeposit1_def enterDeposit_def noResult_def
      exMsg_def Let_def transfer_def emptyStore_def MINIMUM_DEPOSIT_def safe_add_def ex_neq)

lemma user_runs:
  assumes "chainRun w" and "a \<noteq> STAKING_CONTRACT_ADDRESS" and "a \<noteq> ZERO_ADDRESS" and "x < U256" and "0 < n" and "n < U256"
    and "wfCall c"
  shows "chainRun (fst (transact STAKING_CONTRACT_ADDRESS (exMsg a x n) (execute1 (exMsg a x n) c) w))"
    and "chainRun (fst (transact STAKING_CONTRACT_ADDRESS (exMsg a x n) (execute2 (exMsg a x n) c) w))"
proof -
  have m: "wfMsg (exMsg a x n)" "sender (exMsg a x n) \<noteq> ZERO_ADDRESS"
    using assms(2-6) by (simp_all add: wfMsg_def exMsg_def)
  show "chainRun (fst (transact STAKING_CONTRACT_ADDRESS (exMsg a x n) (execute1 (exMsg a x n) c) w))"
    by (rule chainRun.further [OF assms(1) chainStep.user1 [OF m(1) assms(7) m(2)]])
  show "chainRun (fst (transact STAKING_CONTRACT_ADDRESS (exMsg a x n) (execute2 (exMsg a x n) c) w))"
    by (rule chainRun.further [OF assms(1) chainStep.user2 [OF m(1) assms(7) m(2)]])
qed

lemma exDeposited_run: "chainRun exDeposited"
proof -
  have s: "chainRun exStart" by (rule chainRun.deployed) (simp add: exStart_def)
  have d: "MINIMUM_DEPOSIT < U256" by (simp add: MINIMUM_DEPOSIT_def)
  show ?thesis unfolding exDeposited_def
    by (rule user_runs(1) [OF user_runs(1) [OF s]]) (use d in \<open>simp_all add: ex_neq\<close>)
qed

definition exReward :: nat where
  "exReward = 1000000000000000000000000"

definition exRewarded :: chainState where
  "exRewarded = exDeposited\<lparr>
    balances := (balances exDeposited)(STAKING_CONTRACT_ADDRESS := balances exDeposited STAKING_CONTRACT_ADDRESS + exReward),
    staking := (staking exDeposited)\<lparr>depositorRewards := (\<lambda>_. 0)(exA := exReward)\<rparr>\<rparr>"

lemma exRewarded_run: "chainRun exRewarded"
proof -
  have "execute2 (exMsg ZERO_ADDRESS 0 3) (AddDepositorReward exA exReward)
      (accumulateBalance exReward STAKING_CONTRACT_ADDRESS exDeposited) = Inr (exRewarded, exReward)"
    by (simp add: execute2_def addDepositorReward_def accumulateBalance_def exMsg_def exRewarded_def exDeposited_eq
        emptyStore_def exReward_def safe_add_def Let_def)
  moreover have "vmMsg (exMsg ZERO_ADDRESS 0 3)" by (simp add: vmMsg_def wfMsg_def exMsg_def ex_neq)
  moreover have "exReward < U256" by (simp add: exReward_def)
  ultimately show ?thesis using chainRun.further [OF exDeposited_run chainStep.reward] by blast
qed

definition exRequested :: chainState where
  "exRequested = fst (transact STAKING_CONTRACT_ADDRESS (exMsg exA 0 4) (execute1 (exMsg exA 0 4) InitiateWithdrawal) exRewarded)"

definition exWithdrawn :: chainState where
  "exWithdrawn = fst (transact STAKING_CONTRACT_ADDRESS (exMsg exA 0 500000)
     (execute2 (exMsg exA 0 500000) CompleteWithdrawal) exRequested)"

lemma exWithdrawn_run: "chainRun exWithdrawn"
  unfolding exWithdrawn_def exRequested_def
  by (rule user_runs(2) [OF user_runs(1) [OF exRewarded_run]]) (simp_all add: ex_neq)

lemma exRequested_eq:
  "staking exRequested = (staking exRewarded)\<lparr>depositorWithdrawalRequests := (\<lambda>_. 0)(exA := 256004),
     depositorExists := (\<lambda>_. False)(exB := True)\<rparr>"
  "balances exRequested STAKING_CONTRACT_ADDRESS = balances exRewarded STAKING_CONTRACT_ADDRESS"
proof -
  have b: "(\<lambda>_. False)(exA := True, exB := True, exA := False) = (\<lambda>_. False)(exB := True)"
    by (auto simp: fun_eq_iff ex_neq)
  show "staking exRequested = (staking exRewarded)\<lparr>depositorWithdrawalRequests := (\<lambda>_. 0)(exA := 256004),
     depositorExists := (\<lambda>_. False)(exB := True)\<rparr>"
    "balances exRequested STAKING_CONTRACT_ADDRESS = balances exRewarded STAKING_CONTRACT_ADDRESS"
    by (simp_all add: exRequested_def exRewarded_def transact_def execute1_def initiateWithdrawal_def exMsg_def
        getNetBalanceOfDepositor_def Let_def transfer_def exDeposited_eq emptyStore_def MINIMUM_DEPOSIT_def exReward_def
        safe_add_def safe_sub_def WITHDRAWAL_BLOCK_DELAY1_def ex_neq b)
qed

lemma exRequested_facts:
  "depositorBalances (staking exRequested) exA = MINIMUM_DEPOSIT" "depositorBalances (staking exRequested) exB = MINIMUM_DEPOSIT"
  "depositorRewards (staking exRequested) exA = exReward" "depositorRewards (staking exRequested) exB = 0"
  "depositorSlashings (staking exRequested) = (\<lambda>_. 0)" "depositorWithdrawalRequests (staking exRequested) exA = 256004"
  "depositorWithdrawalRequests (staking exRequested) exB = 0" "depositorExists (staking exRequested) exB"
  "partialWithdrawalBlock (staking exRequested) = (\<lambda>_. 0)"
  "totalDepositedBalance (staking exRequested) = 2 * MINIMUM_DEPOSIT"
  "balances exRequested STAKING_CONTRACT_ADDRESS = 2 * MINIMUM_DEPOSIT + exReward"
  by (simp_all add: exRequested_eq exRewarded_def exDeposited_eq ex_neq) (simp_all add: emptyStore_def)

lemma exWithdrawn_step:
  "completeWithdrawal (exMsg exA 0 500000) (transfer exA STAKING_CONTRACT_ADDRESS 0 exRequested) =
    Inr (transfer STAKING_CONTRACT_ADDRESS exA (MINIMUM_DEPOSIT + exReward)
      ((transfer exA STAKING_CONTRACT_ADDRESS 0 exRequested)\<lparr>staking := (staking exRequested)\<lparr>
        depositorBalances := (depositorBalances (staking exRequested))(exA := 0),
        depositorRewards := (depositorRewards (staking exRequested))(exA := 0),
        depositorSlashings := (depositorSlashings (staking exRequested))(exA := 0),
        depositorWithdrawalRequests := (depositorWithdrawalRequests (staking exRequested))(exA := 0),
        totalDepositedBalance := MINIMUM_DEPOSIT - exReward,
        depositorExists := (depositorExists (staking exRequested))(exA := True)\<rparr>\<rparr>), MINIMUM_DEPOSIT + exReward)"
proof -
  have a: "safe_add MINIMUM_DEPOSIT exReward = Inr (MINIMUM_DEPOSIT + exReward)" "0 < MINIMUM_DEPOSIT"
      "2 * MINIMUM_DEPOSIT - (MINIMUM_DEPOSIT + exReward) = MINIMUM_DEPOSIT - exReward"
      "MINIMUM_DEPOSIT + exReward \<le> 2 * MINIMUM_DEPOSIT"
      "MINIMUM_DEPOSIT + exReward \<le> 2 * MINIMUM_DEPOSIT + exReward"
    by (simp_all add: safe_add_def MINIMUM_DEPOSIT_def exReward_def)
  show ?thesis
    by (simp add: completeWithdrawal_def callValue_def exMsg_def Let_def exRequested_facts safe_sub_def a
        transfer_balance ex_neq)
qed

lemma exWithdrawn_eq:
  "totalDepositedBalance (staking exWithdrawn) = MINIMUM_DEPOSIT - exReward"
  "depositorBalances (staking exWithdrawn) exB = MINIMUM_DEPOSIT"
  "depositorRewards (staking exWithdrawn) exB = 0" "depositorSlashings (staking exWithdrawn) exB = 0"
  "depositorExists (staking exWithdrawn) exB" "depositorWithdrawalRequests (staking exWithdrawn) exB = 0"
  "partialWithdrawalBlock (staking exWithdrawn) exB = 0"
  "balances exWithdrawn STAKING_CONTRACT_ADDRESS = MINIMUM_DEPOSIT"
proof -
  have m: "sender (exMsg exA 0 500000) = exA" "msg_value (exMsg exA 0 500000) = 0" by (simp_all add: exMsg_def)
  show "totalDepositedBalance (staking exWithdrawn) = MINIMUM_DEPOSIT - exReward"
  "depositorBalances (staking exWithdrawn) exB = MINIMUM_DEPOSIT"
  "depositorRewards (staking exWithdrawn) exB = 0" "depositorSlashings (staking exWithdrawn) exB = 0"
  "depositorExists (staking exWithdrawn) exB" "depositorWithdrawalRequests (staking exWithdrawn) exB = 0"
  "partialWithdrawalBlock (staking exWithdrawn) exB = 0"
  "balances exWithdrawn STAKING_CONTRACT_ADDRESS = MINIMUM_DEPOSIT"
    by (simp_all add: exWithdrawn_def transact_def execute2_def m exWithdrawn_step exRequested_facts transfer_balance ex_neq)
qed

text \<open>
  The second version takes the net balance, with the rewards, from the sum of the deposits. The
  sum is too small from then on, and the other depositor cannot withdraw the deposit.
\<close>

lemma exWithdrawn_blocked:
  "getNetBalanceOfDepositor (staking exWithdrawn) exB = Inr MINIMUM_DEPOSIT"
  "initiatePartialWithdrawal (exMsg exB 0 500001) MINIMUM_DEPOSIT exWithdrawn = Inl AssertFailed"
proof -
  have a: "safe_add MINIMUM_DEPOSIT 0 = Inr MINIMUM_DEPOSIT" "safe_add 0 MINIMUM_DEPOSIT = Inr MINIMUM_DEPOSIT"
      "0 < MINIMUM_DEPOSIT" "\<not> MINIMUM_DEPOSIT \<le> MINIMUM_DEPOSIT - exReward"
    by (simp_all add: safe_add_def MINIMUM_DEPOSIT_def exReward_def)
  show n: "getNetBalanceOfDepositor (staking exWithdrawn) exB = Inr MINIMUM_DEPOSIT"
    by (simp add: getNetBalanceOfDepositor_def exWithdrawn_eq a safe_sub_def)
  have "debit exB MINIMUM_DEPOSIT (staking exWithdrawn) = Inl AssertFailed"
    using a(3,4) by (simp add: debit_def exWithdrawn_eq safe_sub_def)
  then show "initiatePartialWithdrawal (exMsg exB 0 500001) MINIMUM_DEPOSIT exWithdrawn = Inl AssertFailed"
    by (simp add: initiatePartialWithdrawal_def n exWithdrawn_eq exMsg_def Let_def a)
qed

section \<open>A withdrawal\<close>

definition exPending :: chainState where
  "exPending = fst (transact STAKING_CONTRACT_ADDRESS (exMsg exB 0 10)
     (execute2 (exMsg exB 0 10) (InitiatePartialWithdrawal 1000)) exDeposited)"

lemma exPending_run: "chainRun exPending"
  unfolding exPending_def by (rule user_runs(2) [OF exDeposited_run]) (simp_all add: ex_neq)

lemma exPending_step:
  "initiatePartialWithdrawal (exMsg exB 0 10) 1000 (transfer exB STAKING_CONTRACT_ADDRESS 0 exDeposited) =
    Inr ((transfer exB STAKING_CONTRACT_ADDRESS 0 exDeposited)\<lparr>staking := (staking exDeposited)\<lparr>
      depositorRewards := (depositorRewards (staking exDeposited))(exB := 0),
      totalDepositedBalance := 2 * MINIMUM_DEPOSIT - 1000,
      depositorBalances := (depositorBalances (staking exDeposited))(exB := MINIMUM_DEPOSIT - 1000),
      depositorSlashings := (depositorSlashings (staking exDeposited))(exB := 0),
      partialWithdrawalBlock := (partialWithdrawalBlock (staking exDeposited))(exB := 10),
      partialWithdrawalAmount := (partialWithdrawalAmount (staking exDeposited))(exB := 1000)\<rparr>\<rparr>, 1000)"
proof -
  have a: "safe_add MINIMUM_DEPOSIT 0 = Inr MINIMUM_DEPOSIT" "safe_add 0 1000 = Inr 1000"
      "1000 \<le> MINIMUM_DEPOSIT" "0 < MINIMUM_DEPOSIT" "1000 \<le> 2 * MINIMUM_DEPOSIT"
    by (simp_all add: safe_add_def MINIMUM_DEPOSIT_def)
  show ?thesis
    by (simp add: initiatePartialWithdrawal_def getNetBalanceOfDepositor_def debit_def exDeposited_eq exMsg_def Let_def
        emptyStore_def safe_sub_def a ex_neq)
qed

lemma exPending_facts:
  "depositorExists (staking exPending) exB" "depositorWithdrawalRequests (staking exPending) exB = 0"
  "partialWithdrawalBlock (staking exPending) exB = 10" "partialWithdrawalAmount (staking exPending) exB = 1000"
  "notOverslashed (staking exPending)"
proof -
  have m: "sender (exMsg exB 0 10) = exB" "msg_value (exMsg exB 0 10) = 0" by (simp_all add: exMsg_def)
  have w: "staking exPending = (staking exDeposited)\<lparr>
      depositorRewards := (depositorRewards (staking exDeposited))(exB := 0),
      totalDepositedBalance := 2 * MINIMUM_DEPOSIT - 1000,
      depositorBalances := (depositorBalances (staking exDeposited))(exB := MINIMUM_DEPOSIT - 1000),
      depositorSlashings := (depositorSlashings (staking exDeposited))(exB := 0),
      partialWithdrawalBlock := (partialWithdrawalBlock (staking exDeposited))(exB := 10),
      partialWithdrawalAmount := (partialWithdrawalAmount (staking exDeposited))(exB := 1000)\<rparr>"
    by (simp add: exPending_def transact_def execute2_def m exPending_step)
  show "depositorExists (staking exPending) exB" "depositorWithdrawalRequests (staking exPending) exB = 0"
    "partialWithdrawalBlock (staking exPending) exB = 10" "partialWithdrawalAmount (staking exPending) exB = 1000"
    "notOverslashed (staking exPending)"
    by (simp_all add: w notOverslashed_def exDeposited_eq) (simp_all add: emptyStore_def)
qed

section \<open>Reading the contract\<close>

text \<open>The first version pauses the wrong address, as it looks up the depositor among the validators.\<close>

lemma pause1_misses:
  assumes "rolesOk (staking w)" and "\<not> validatorExists (staking w) (sender m)" and "pauseValidation1 m w = Inr w'"
  shows "validationPaused (staking w') = (validationPaused (staking w))(ZERO_ADDRESS := True)"
proof -
  have "validatorToDepositor (staking w) (sender m) = ZERO_ADDRESS"
    using assms(1,2) by (simp add: rolesOk_def paired_def)
  then show ?thesis using assms(3) by (auto simp: pauseValidation1_def Let_def sol_Inr)
qed

text \<open>The block of a withdrawal is reported without the delay in one place and with it in the other.\<close>

lemma withdrawal_block_views:
  assumes "storeOk s" and "0 < partialWithdrawalBlock s (validatorToDepositor s v)" and "getStakingDetails s v = Inr x"
  shows "sd_WithdrawalBlock x = getWithdrawalBlock s (validatorToDepositor s v) + WITHDRAWAL_BLOCK_DELAY"
proof -
  obtain due where "safe_add (partialWithdrawalBlock s (validatorToDepositor s v)) WITHDRAWAL_BLOCK_DELAY = Inr due"
      "sd_WithdrawalBlock x = due"
    using assms(2,3) by (auto simp: getStakingDetails_def Let_def sol_Inr)
  moreover have "WITHDRAWAL_BLOCK_DELAY < U256" by (simp add: WITHDRAWAL_BLOCK_DELAY_def)
  ultimately show ?thesis
    using storeOkD(6) [OF assms(1)] assms(2) by (simp add: safe_add_Inr getWithdrawalBlock_def)
qed

text \<open>The amount of a withdrawal of the first version is always reported as zero.\<close>

lemma legacy_amount_zero:
  assumes "partialWithdrawalBlock s (validatorToDepositor s v) = 0"
    and "0 < depositorWithdrawalRequests s (validatorToDepositor s v)" and "getStakingDetails s v = Inr x"
  shows "sd_WithdrawalAmount x = 0"
proof -
  have "getNetBalanceOfDepositor s (validatorToDepositor s v) = Inr 0"
    using assms(2) by (simp add: getNetBalanceOfDepositor_def)
  with assms show ?thesis by (auto simp: getStakingDetails_def Let_def sol_Inr)
qed

end
