(* ===== verification/Spec2Isabelle.thy ===== *)
theory Spec2Isabelle
  imports Pos_Example Staking_Example
begin

text \<open>
  \<^bold>\<open>Verification of the proof-of-stake consensus of the node\<close>

  The node runs a proof-of-stake consensus in rounds. For every block the validators of the staking
  contract with enough deposit are selected; a proposer announces a block, the validators
  acknowledge it (or vote for a NIL block after a timeout), then precommit, then commit; a step is
  complete when validators with the required share of the deposit have sent the packet. The signed
  packets are put into the block as evidence, and every node checks them when it receives the block.
  Packets travel between peers and relays in RLP encoding.

  \<^bold>\<open>Theories\<close>, in the order of their imports, with the code under \<open>src/\<close> they model:

  \<^item> \<open>Go_Prelude\<close>: Go's words, slices and maps. A Go map is a list of pairs with distinct keys whose
    order is the order of iteration, so a theorem for all such lists holds for all orders. The locale
    \<open>go_map\<close> is the contract of maps, the locale \<open>stake\<close> that of weighted voting (two quorums overlap).
  \<^item> \<open>Common_Bytes\<close>: \<open>common/bytes.go\<close>, \<open>common/types.go\<close>, \<open>common/hexutil/hexutil.go\<close>.
  \<^item> \<open>Rlp_Encode\<close>, \<open>Rlp_Decode\<close>: \<open>rlp/encode.go\<close> with its two-pass buffer and \<open>rlp/decode.go\<close> with its
    stream and stack of list limits. \<open>enc\<close> is the reference encoding. \<open>Rlp_Codec\<close> proves the decoder
    correct through the locale \<open>codec\<close>, the contract of a decoder of one kind of value.
  \<^item> \<open>Pos_Types\<close>: \<open>consensus/proofofstake\<close>, constants, messages, hashes, context keys
    (\<open>PacketHandler.go\<close>, \<open>context.go\<close>, \<open>proofofstake.go\<close>), and \<open>eth/protocols/eth/protocol.go\<close>; the locale
    \<open>message\<close> is the contract of a message type, interpreted for each of them. The record \<open>penv\<close> holds what
    is outside: hash function, signatures, key stream, the services of the chain, the network, files.
  \<^item> \<open>Pos_Validators\<close>: \<open>filterValidators\<close>, \<open>getBlockProposer\<close>, \<open>canPropose\<close> of \<open>PacketHandler.go\<close> and
    \<open>crypto/drng/ChaCha20/chacha20.go\<close>.
  \<^item> \<open>Pos_Peers\<close>: all of \<open>PeerHandler.go\<close>.
  \<^item> \<open>Pos_BlockValidator\<close>: all of \<open>BlockValidator.go\<close>.
  \<^item> \<open>Pos_State\<close>, \<open>Pos_Handler\<close>: all of \<open>PacketHandler.go\<close>. \<open>roundDetails\<close>, \<open>blockState\<close> and
    \<open>consensusHandler\<close> are \<open>BlockRoundDetails\<close>, \<open>BlockStateDetails\<close> and \<open>ConsensusHandler\<close>. A method returns the
    changed handler and an error; \<open>Panic\<close> and \<open>Diverges\<close> stand for a crash and an endless loop. The time
    in milliseconds is an argument, sends are entered into \<open>outbox\<close> in their order.
  \<^item> \<open>Pos_Invariants\<close>, \<open>Pos_Votes\<close>, \<open>Pos_Runs\<close>: the invariant \<open>hinv\<close> of the handler, that every packet and
    every call keeps it, and the runs of a node (\<open>step\<close>, \<open>reach\<close>, \<open>follows\<close>).
  \<^item> \<open>Pos_Safety\<close>, \<open>Pos_Boundaries\<close>: what the invariant means, and where the guarantees end.
  \<^item> \<open>Pos_Example\<close>: a node that can be evaluated, and its run for one block.
  \<^item> \<open>Contracts\<close>, \<open>Staking\<close>: the system contracts (\<open>systemcontracts/*/*.sol\<close>): the consensus context and the
    conversion contract, and both versions of the staking contract, over a state with the balances
    of all accounts. \<open>execute1\<close> and \<open>execute2\<close> dispatch a call, \<open>transact\<close> pays its value and undoes a
    reverted call. \<open>Staking_Ledger\<close> has the account of the coins and the relation of depositors and
    validators for every function, \<open>Staking_Runs\<close> the histories of the chain and what \<open>validator.go\<close> reads
    (\<open>GetValidators\<close>, \<open>ListValidatorsAsMap\<close>), \<open>Staking_Example\<close> histories that can be evaluated.

  \<^bold>\<open>What is shown.\<close>

  \<^item> Agreement: two accepted blocks with the same parent that differ contain signed packets with
    which validators of a fifth of the deposit contradict themselves; the same holds for the rounds
    that two nodes decide. A decided round has a quorum of precommits and commits for one hash, and
    a node never replaces a vote it has signed as long as it keeps the block. The acknowledgement of a
    NIL block and of a proposal, the precommit hash and the commit hash are tied together.
  \<^item> The engine: success means a decided round; the data for a block carries the evidence of the
    decided round; a quorum moves a round on; no packet of at least two bytes stops a node.
  \<^item> Selection: it does not depend on the order of the maps, succeeds whenever the deposits suffice,
    and is sound; so is the choice of the proposer.
  \<^item> Peers: a packet is started to be sent to a peer at most once until the parent changes.
  \<^item> RLP: the encoder refines the reference, the decoder inverts it, accepts only canonical input and
    always ends.
  \<^item> Staking: after every history the contract holds the coins it owes, depositors and validators are
    one to one, a due withdrawal is paid, and \<open>GetValidators\<close> returns a map of deposits as the consensus
    assumes it (\<open>env_ok\<close>).
  \<^item> Boundaries: states and inputs for which the code panics, loops, waits or refuses its own blocks.

  \<^bold>\<open>Bounds and fuel.\<close> All loops of the handler run over finite maps and are structural recursions. The
  decoder of lists uses the number of remaining bytes plus one as fuel: each element takes at least
  one byte (\<open>DecodeBytes_fuel\<close>). The draw of validators takes one byte of the key stream per
  validator. Numbers of the contracts are \<open>nat\<close> with the reduction modulo \<open>2 ^ 256\<close> written out. The
  loop over the rounds in \<open>ValidateBlockConsensusDataInner\<close> has a byte counter: it ends
  for every round below 255 and never for 255, which is the value \<open>Diverges\<close>. Rounds are \<open>8 word\<close>, block
  numbers \<open>64 word\<close>; deposits are \<open>big.Int\<close> and so \<open>int\<close>. Theorems with the slack \<open>+ 9\<close> round as the integer
  division of the percentage does.

  \<^bold>\<open>Assumptions.\<close> \<open>env_ok\<close>: the staking contract returns a map from addresses to deposits that are not
  negative. Hash function and signatures are not assumed to be anything: the theorems name the
  signed packets, and where different inputs must have different keys this is a hypothesis.

  \<^bold>\<open>Not modelled.\<close> Goroutines and locks: every method is one step, as the lock of the handler makes it;
  background sends of the peer handler are operations of their own that interleave freely. Log
  output, metrics and events. Gas, and the code of accounts that receive a payment: a call of the
  staking contract makes all its changes before it pays, so calls of the receiver are further steps
  of the history. The rest of the engine (\<open>proofofstake.go\<close>): the hooks for headers and for finalizing a
  block work on the state database and on floating point rewards; their calls of the contracts
  are steps of the history. Reflection in \<open>rlp\<close>: the type is an argument. Signature schemes, Keccak and
  ChaCha20 are parameters. The virtual machine, state database, transaction pool, networking, RPC,
  accounts, command line and tools are services of the node whose code the consensus only calls or
  is called from; they are listed with the components of the manifest.
\<close>

section \<open>Agreement\<close>

text \<open>
  C1: when \<open>ValidateBlockConsensusData\<close> accepts two blocks on the same parent with the same number that
  differ in the round or in what was voted, the packets of the two blocks contain contradicting
  signed votes of validators that hold a fifth of the deposit, up to rounding.
\<close>

theorem conflicting_blocks_convict:
  assumes "deposits_ok vm"
    and "ValidateBlockConsensusData env block1 vm dm1 = (m1, d1, None)"
    and "ValidateBlockConsensusData env block2 vm dm2 = (m2, d2, None)"
    and "cb_ParentHash block1 = h" and "cb_ParentHash block2 = h"
    and "Uint64 (cb_Number block1) = n" and "Uint64 (cb_Number block2) = n"
    and "blockData block1 = Inr bcd1" and "blockData block2 = Inr bcd2"
    and "(BRound bcd1, blockVote env h n bcd1) \<noteq> (BRound bcd2, blockVote env h n bcd2)"
  shows "total_dep (blockValidators env h vm n) \<le>
    5 * weight (blockValidators env h vm n)
      (equivocators env h (blockPackets block1) (blockPackets block2) \<inter> fst ` set (blockValidators env h vm n)) + 9"
proof -
  obtain e1 a1 c1 where b1: "blockData block1 = Inr e1" "blockPackets block1 = ConsensusPackets a1"
      "ValidateBlockConsensusDataInner env (cb_TxHashes block1) h e1 a1 vm n dm1 c1 = (m1, d1, None)"
    using accepted_block [OF assms(2)] assms(4,6) by metis
  obtain e2 a2 c2 where b2: "blockData block2 = Inr e2" "blockPackets block2 = ConsensusPackets a2"
      "ValidateBlockConsensusDataInner env (cb_TxHashes block2) h e2 a2 vm n dm2 c2 = (m2, d2, None)"
    using accepted_block [OF assms(3)] assms(5,7) by metis
  have "e1 = bcd1" "e2 = bcd2" using b1(1) b2(1) assms(8,9) by simp_all
  with conflicting_blocks [OF assms(1) b1(3) b2(3)] assms(10) show ?thesis unfolding b1(2) b2(2) by simp
qed

theorem conflicting_blocks_convict_witness:
  "total_dep (blockValidators exEnv exParent exDeposits 100) \<le>
    5 * weight (blockValidators exEnv exParent exDeposits 100)
      (equivocators exEnv exParent (blockPackets exBlock1) (blockPackets exBlock2) \<inter>
        fst ` set (blockValidators exEnv exParent exDeposits 100)) + 9"
proof (rule conflicting_blocks_convict [OF ex_deposits exBlock_accepted _ _ _ _ exBlock_data])
  show "cb_ParentHash exBlock1 = exParent" "cb_ParentHash exBlock2 = exParent"
      "Uint64 (cb_Number exBlock1) = 100" "Uint64 (cb_Number exBlock2) = 100"
    by (simp_all add: exBlock1_def exBlock2_def exBlock_def Uint64_def)
  have "blockVote exEnv exParent 100 (exData 33 98 []) = (1, 33 # replicate 31 1)"
      "blockVote exEnv exParent 100 (exData 193 2 [exTxn]) = (1, 193 # replicate 31 1)"
    by code_simp+
  then show "(BRound (exData 33 98 []), blockVote exEnv exParent 100 (exData 33 98 [])) \<noteq>
      (BRound (exData 193 2 [exTxn]), blockVote exEnv exParent 100 (exData 193 2 [exTxn]))" by simp
qed

text \<open>
  C2: in every state a node can reach, a round that has received its commits records precommits and
  commits of validators of the block; those of each kind hold the required share of the deposit, and
  all are for this round and for the one hash that the decision of the round determines.
\<close>

theorem decided_round_has_quorum:
  assumes "reach env acc h" and "mget (blockStateDetailsMap h) ph = Some b" and "mget (blockRoundMap b) r = Some rd"
    and "state rd = RECEIVED_COMMITS"
  shows "SafeRelativePercentageBigInt (total_dep (filteredValidatorsDepositMap b)) (minPercentage (blockNumber b))
        \<le> min (weight (filteredValidatorsDepositMap b) (fst ` set (validatorPrecommits rd)))
            (weight (filteredValidatorsDepositMap b) (fst ` set (validatorCommits rd))) \<and>
    fst ` set (validatorPrecommits rd) \<union> fst ` set (validatorCommits rd) \<subseteq> fst ` set (filteredValidatorsDepositMap b) \<and>
    (\<forall>(v, d)\<in>set (validatorPrecommits rd). PrecommitHash d = precommitHash rd \<and> PCRound d = r) \<and>
    (\<forall>(v, d)\<in>set (validatorCommits rd). CommitHash d = getCommitHash env (precommitHash rd) \<and> CRound d = r) \<and>
    decided env ph r rd"
proof -
  have i: "blockInv env acc ph b" using reach_hinv [OF assms(1)] assms(2) by (auto simp: hinv_def)
  have s: "state rd \<ge> WAITING_FOR_COMMITS" using assms(4) by (simp add: state_order)
  note p = precommit_evidence [OF i assms(3) s] and c = commit_evidence [OF i assms(3,4)]
  show ?thesis using p(1,3,5) c(1,2) p(4) c(3) unfolding p(2) by auto
qed

theorem decided_round_has_quorum_witness:
  "\<exists>b rd. mget (blockStateDetailsMap (exRun [] 5)) exParent = Some b \<and> mget (blockRoundMap b) 1 = Some rd \<and>
    state rd = RECEIVED_COMMITS \<and> decided exEnv exParent 1 rd"
proof -
  obtain b rd where r: "mget (blockStateDetailsMap (exRun [] 5)) exParent = Some b" "mget (blockRoundMap b) 1 = Some rd"
      "state rd = RECEIVED_COMMITS"
    using exRun_5 by (rule exRoundE) auto
  from decided_round_has_quorum [OF exRun_reach this] r show ?thesis by blast
qed

text \<open>
  C3: when two nodes, in any states they can reach, hold a quorum of precommits for the same round of the
  same block and the same validators, but for different hashes, then validators with a fifth of
  the deposit, up to rounding, have precommitted to both.
\<close>

theorem nodes_agree_or_double_vote:
  assumes "reach env acc1 h1" and "mget (blockStateDetailsMap h1) ph = Some b1" and "mget (blockRoundMap b1) r = Some rd1"
    and "reach env acc2 h2" and "mget (blockStateDetailsMap h2) ph = Some b2" and "mget (blockRoundMap b2) r = Some rd2"
    and "state rd1 \<ge> WAITING_FOR_COMMITS" and "state rd2 \<ge> WAITING_FOR_COMMITS"
    and "filteredValidatorsDepositMap b2 = filteredValidatorsDepositMap b1" and "blockNumber b2 = blockNumber b1"
    and "precommitHash rd1 \<noteq> precommitHash rd2"
  shows "total_dep (filteredValidatorsDepositMap b1) \<le>
    5 * weight (filteredValidatorsDepositMap b1)
      (doublePrecommits rd1 rd2 \<inter> fst ` set (filteredValidatorsDepositMap b1)) + 9"
proof -
  have "blockInv env acc1 ph b1" "blockInv env acc2 ph b2"
    using reach_hinv [OF assms(1)] reach_hinv [OF assms(4)] assms(2,5) by (auto simp: hinv_def)
  from two_nodes [OF this(1) assms(3,7) this(2) assms(6,8,11,9,10)] show ?thesis .
qed

theorem nodes_agree_or_double_vote_witness:
  "\<exists>b1 b2 rd1 rd2. mget (blockStateDetailsMap (exRun [] 5)) exParent = Some b1 \<and> mget (blockRoundMap b1) 1 = Some rd1 \<and>
    mget (blockStateDetailsMap (exRun [exTxn] 5)) exParent = Some b2 \<and> mget (blockRoundMap b2) 1 = Some rd2 \<and>
    precommitHash rd1 \<noteq> precommitHash rd2 \<and>
    total_dep exDeposits \<le> 5 * weight exDeposits (doublePrecommits rd1 rd2 \<inter> fst ` set exDeposits) + 9"
proof -
  obtain b1 rd1 where r1: "mget (blockStateDetailsMap (exRun [] 5)) exParent = Some b1" "mget (blockRoundMap b1) 1 = Some rd1"
      "blockNumber b1 = 100" "filteredValidatorsDepositMap b1 = exDeposits" "state rd1 = RECEIVED_COMMITS"
      "precommitHash rd1 = 98 # replicate 31 1"
    using exRun_5 by (rule exRoundE) auto
  obtain b2 rd2 where r2: "mget (blockStateDetailsMap (exRun [exTxn] 5)) exParent = Some b2" "mget (blockRoundMap b2) 1 = Some rd2"
      "blockNumber b2 = 100" "filteredValidatorsDepositMap b2 = exDeposits" "state rd2 = RECEIVED_COMMITS"
      "precommitHash rd2 = 2 # replicate 31 1"
    using exRun_txn by (rule exRoundE) auto
  have ne: "precommitHash rd1 \<noteq> precommitHash rd2" using r1(6) r2(6) by simp
  have "total_dep exDeposits \<le> 5 * weight exDeposits (doublePrecommits rd1 rd2 \<inter> fst ` set exDeposits) + 9"
    using nodes_agree_or_double_vote [OF exRun_reach r1(1,2) exRun_reach r2(1,2) _ _ _ _ ne] r1 r2 by (simp add: state_order)
  with r1(1,2) r2(1,2) ne show ?thesis by blast
qed

text \<open>
  C4: as long as the state of a block is kept, whatever the node receives or is asked to do, a round
  never goes back, the packets the node has signed for it are never replaced, its decision stays, and
  recorded precommits and commits are not forgotten; the only exception is a block whose
  one-byte round counter has wrapped to 0.
\<close>

theorem own_votes_are_final:
  assumes "reach env acc h" and "follows env ph h h'"
    and "mget (blockStateDetailsMap h) ph = Some b" and "mget (blockRoundMap b) r = Some rd"
  shows "\<exists>b'. mget (blockStateDetailsMap h') ph = Some b' \<and>
    (mhas (blockRoundMap b') 0 \<or> (\<exists>rd'. mget (blockRoundMap b') r = Some rd' \<and> extends rd rd'))"
proof -
  have "hinv env h" using reach_hinv [OF assms(1)] by simp
  with follows_grows [OF assms(2) _ assms(3)] obtain b' where
    "mget (blockStateDetailsMap h') ph = Some b'" "blockGrows b b'" by blast
  with assms(4) show ?thesis unfolding blockGrows_def wrapped_def by blast
qed

theorem own_votes_are_final_witness:
  "\<exists>b rd rd'. mget (blockStateDetailsMap (exRun [] 3)) exParent = Some b \<and> mget (blockRoundMap b) 1 = Some rd \<and>
    selfAckPacket rd \<noteq> None \<and>
    (\<exists>b'. mget (blockStateDetailsMap (exRun [] 5)) exParent = Some b' \<and>
      (mhas (blockRoundMap b') 0 \<or> (mget (blockRoundMap b') 1 = Some rd' \<and> extends rd rd')))"
proof -
  obtain b rd where r: "mget (blockStateDetailsMap (exRun [] 3)) exParent = Some b" "mget (blockRoundMap b) 1 = Some rd"
      "selfAckd rd"
    using exRun_3 by (rule exRoundE) auto
  obtain b4 where b4: "mget (blockStateDetailsMap (exRun [] 4)) exParent = Some b4" using exRun_4 by (rule exRoundE)
  obtain b5 where b5: "mget (blockStateDetailsMap (exRun [] 5)) exParent = Some b5" using exRun_5 by (rule exRoundE)
  have st: "step exEnv (exRun [] k) (exRun [] (Suc k))" for k using step.engine [OF ex_chain] by simp
  have "follows exEnv exParent (exRun [] 3) (exRun [] 4)"
    using follows.move [OF follows.stay, of exEnv "exRun [] 3" "exRun [] 4" exParent] st [of 3] b4
    by (simp add: mhas_def eval_nat_numeral)
  then have "follows exEnv exParent (exRun [] 3) (exRun [] 5)"
    using follows.move [of exEnv exParent "exRun [] 3" "exRun [] 4" "exRun [] 5"] st [of 4] b5
    by (simp add: mhas_def eval_nat_numeral)
  from own_votes_are_final [OF exRun_reach this r(1,2)] have
    "\<exists>rd' b'. mget (blockStateDetailsMap (exRun [] 5)) exParent = Some b' \<and>
      (mhas (blockRoundMap b') 0 \<or> (mget (blockRoundMap b') 1 = Some rd' \<and> extends rd rd'))" by blast
  moreover have "selfAckPacket rd \<noteq> None"
    using roundInvD(4) [OF hinv_round [OF conjunct1 [OF reach_hinv [OF exRun_reach]] r(1,2)]] r(3) by (simp add: ownAck_def)
  ultimately show ?thesis using r(1,2) by blast
qed

section \<open>The handler\<close>



text \<open>
  C6: what \<open>getBlockConsensusData\<close> returns is of the current round of the block, and its packets contain
  acknowledgements of the proposal and commits, signed by validators with the required deposit.
\<close>

theorem produced_block_carries_evidence:
  assumes "reach env acc h" and "getBlockConsensusData env' ph h = (h', Inr (data, additional))"
  shows "\<exists>b rd. committedRound ph h = Inr (b, rd) \<and> BRound data = currentRound b \<and> VoteType data = blockVoteType rd \<and>
    BPrecommitHash data = precommitHash rd \<and>
    (let vm = filteredValidatorsDepositMap b; n = blockNumber b; bv = blockValidators env' ph vm n in
     quorum env' ph vm n \<le> weight bv
       (ackers env' ph (ConsensusPackets additional) (BRound data) (blockVote env' ph n data) \<inter> fst ` set bv) \<and>
     quorum env' ph vm n \<le> weight bv
       (committers env' ph (ConsensusPackets additional) (BRound data) \<inter> fst ` set bv))"
proof -
  obtain b rd txns m d where c: "committedRound ph h = Inr (b, rd)" "BRound data = currentRound b"
      "BPrecommitHash data = precommitHash rd" "VoteType data = blockVoteType rd"
    and v: "ValidateBlockConsensusDataInner env' txns ph data additional (filteredValidatorsDepositMap b)
      (blockNumber b) (validatorDetailsMap b) (consensusContext b) = (m, d, None)"
    by (rule consensusData_Inr [OF assms(2)])
  have "mget (blockStateDetailsMap h) ph = Some b"
    using c(1) by (auto simp: committedRound_def split: option.splits if_splits)
  then have "blockInv env acc ph b" using reach_hinv [OF assms(1)] by (auto simp: hinv_def)
  from accepted_evidence(1,2) [OF blockInvD(3) [OF this] v] c show ?thesis by (auto simp: Let_def)
qed

theorem produced_block_carries_evidence_witness:
  "\<exists>b rd. committedRound exParent (exRun [] 5) = Inr (b, rd) \<and> BRound (exData 33 98 []) = currentRound b \<and>
    VoteType (exData 33 98 []) = blockVoteType rd"
proof -
  obtain h' where "getBlockConsensusData exEnv exParent (exRun [] 5) =
      (h', Inr (exData 33 98 [], exAdditional [195, 192, 1, 128] 33 98 129))"
    using exRun_data by (cases "getBlockConsensusData exEnv exParent (exRun [] 5)") simp
  from produced_block_carries_evidence [OF exRun_reach this] show ?thesis by blast
qed

text \<open>
  C7: in every reachable state each block is stored under its parent hash, every validator of it has
  at least the minimum deposit, its rounds are those from 1 to the current one unless the counter has
  wrapped, and each round is stored under its number and is in a known state.
\<close>

theorem handler_state_wellformed:
  assumes "reach env acc h" and "mget (blockStateDetailsMap h) ph = Some b"
  shows "block_parentHash b = ph \<and> wfm (filteredValidatorsDepositMap b) \<and>
    (\<forall>v d. mget (filteredValidatorsDepositMap b) v = Some d \<longrightarrow> MIN_VALIDATOR_DEPOSIT \<le> d) \<and>
    (mhas (blockRoundMap b) 0 \<or> fst ` set (blockRoundMap b) = set (roundList (currentRound b))) \<and>
    (\<forall>r rd. mget (blockRoundMap b) r = Some rd \<longrightarrow> Round rd = r \<and> state rd \<noteq> UNKNOWN)"
proof -
  have i: "blockInv env acc ph b" using reach_hinv [OF assms(1)] assms(2) by (auto simp: hinv_def)
  have "MIN_VALIDATOR_DEPOSIT \<le> d" if "mget (filteredValidatorsDepositMap b) v = Some d" for v d
  proof -
    have "(v, d) \<in> set (lowDepositRemoved (filteredValidatorsDepositMap b))"
      using mget_SomeD [OF that] blockInvD(2) [OF i] by simp
    then show ?thesis unfolding lowDepositRemoved_def by simp
  qed
  moreover have "Round rd = r \<and> state rd \<noteq> UNKNOWN" if "mget (blockRoundMap b) r = Some rd" for r rd
    using roundInvD(1) [OF blockInvD(4) [OF i that]] by (simp add: stateInv_def)
  ultimately show ?thesis using i unfolding blockInv_def wrapped_def by blast
qed

theorem handler_state_wellformed_witness:
  "\<exists>b. mget (blockStateDetailsMap (exRun [] 5)) exParent = Some b \<and> block_parentHash b = exParent \<and>
    wfm (filteredValidatorsDepositMap b)"
proof -
  obtain b where "mget (blockStateDetailsMap (exRun [] 5)) exParent = Some b" using exRun_5 by (rule exRoundE)
  with handler_state_wellformed [OF exRun_reach this] show ?thesis by blast
qed

text \<open>
  C8: when the deposits of the recorded commits together with the own deposit reach the required amount,
  \<open>commitBlock\<close> casts the commit of the node and the round ends.
\<close>

theorem commit_quorum_ends_round:
  assumes "reach env acc h" and "canVote env" and "lookupRound ph h = Inr (b, rd)"
    and "state rd = WAITING_FOR_COMMITS" and "\<not> selfCommited rd"
    and "blockMinWeightedProposalsRequired b \<le>
      weight (filteredValidatorsDepositMap b) (insert acc (fst ` set (validatorCommits rd)))"
  shows "atState ph (currentRound b) RECEIVED_COMMITS (fst (commitBlock env now ph h))"
proof -
  have "hinv env h" "account h = acc" using reach_hinv [OF assms(1)] by simp_all
  with commit_progress [OF _ assms(2-5)] assms(6) show ?thesis by simp
qed

theorem commit_quorum_ends_round_witness:
  "atState exParent 1 RECEIVED_COMMITS (fst (commitBlock exEnv 1000000 exParent (exRun [] 4)))"
proof -
  obtain b rd where r: "mget (blockStateDetailsMap (exRun [] 4)) exParent = Some b" "mget (blockRoundMap b) 1 = Some rd"
      "filteredValidatorsDepositMap b = exDeposits" "blockMinWeightedProposalsRequired b = 700000000000000000000000000000"
      "currentRound b = 1" "state rd = WAITING_FOR_COMMITS" "\<not> selfCommited rd" "validatorCommits rd = []"
    using exRun_4 by (rule exRoundE) (auto simp: mkeys_def)
  have "account (exRun [] 4) = exValidator" using reach_hinv [OF exRun_reach] by simp
  then have l: "lookupRound exParent (exRun [] 4) = Inr (b, rd)"
    using r by (simp add: lookupRound_def exDeposits_def mhas_def)
  have "weight exDeposits {exValidator} = 1000000000000000000000000000000"
    by (simp add: weight_def dep_def exDeposits_def EtherToWei_def)
  with commit_quorum_ends_round [OF exRun_reach ex_canVote l r(6,7)] r show ?thesis by simp
qed

text \<open>
  C9: when the deposits of the recorded precommits together with the own deposit reach the required
  amount, \<open>precommitBlock\<close> casts the precommit of the node and the round waits for the commits.
\<close>

theorem precommit_quorum_moves_on:
  assumes "reach env acc h" and "canVote env" and "lookupRound ph h = Inr (b, rd)"
    and "state rd = WAITING_FOR_PRECOMMITS" and "\<not> selfPrecommited rd"
    and "blockMinWeightedProposalsRequired b \<le>
      weight (filteredValidatorsDepositMap b) (insert acc (fst ` set (validatorPrecommits rd)))"
  shows "atState ph (currentRound b) WAITING_FOR_COMMITS (fst (precommitBlock env now ph h))"
proof -
  have "hinv env h" "account h = acc" using reach_hinv [OF assms(1)] by simp_all
  with precommit_progress [OF _ assms(2-5)] assms(6) show ?thesis by simp
qed

theorem precommit_quorum_moves_on_witness:
  "atState exParent 1 WAITING_FOR_COMMITS (fst (precommitBlock exEnv 800000 exParent (exRun [] 3)))"
proof -
  obtain b rd where r: "mget (blockStateDetailsMap (exRun [] 3)) exParent = Some b" "mget (blockRoundMap b) 1 = Some rd"
      "filteredValidatorsDepositMap b = exDeposits" "blockMinWeightedProposalsRequired b = 700000000000000000000000000000"
      "currentRound b = 1" "state rd = WAITING_FOR_PRECOMMITS" "\<not> selfPrecommited rd" "validatorPrecommits rd = []"
    using exRun_3 by (rule exRoundE) (auto simp: mkeys_def)
  have "account (exRun [] 3) = exValidator" using reach_hinv [OF exRun_reach] by simp
  then have l: "lookupRound exParent (exRun [] 3) = Inr (b, rd)"
    using r by (simp add: lookupRound_def exDeposits_def mhas_def)
  have "weight exDeposits {exValidator} = 1000000000000000000000000000000"
    by (simp add: weight_def dep_def exDeposits_def EtherToWei_def)
  with precommit_quorum_moves_on [OF exRun_reach ex_canVote l r(6,7)] r show ?thesis by simp
qed

text \<open>
  C10: in no reachable state does a packet with at least two bytes of data make \<open>HandleConsensusPacket\<close>
  panic, whatever it contains and whoever sends it.
\<close>

theorem packets_cannot_stop_node:
  assumes "reach env acc h" and "2 \<le> length (ConsensusData packet)" and "length (ConsensusData packet) < 2 ^ 63"
    and "\<And>t e. doesFinalizedTransactionExistFn env t = Inl e \<Longrightarrow> \<not> fatal (Some e)"
  shows "\<not> fatal (snd (HandleConsensusPacket env now packet peer h))"
proof (rule packet_not_fatal)
  show "sizedPacket packet" using assms(2,3) by (simp add: sizedPacket_def)
  show "hinv env h" using reach_hinv [OF assms(1)] by simp
qed (rule assms(4))

theorem packets_cannot_stop_node_witness:
  "\<not> fatal (snd (HandleConsensusPacket exEnv 1000000 (exVote [3, 226, 160]) ''peer'' (exRun [] 4)))"
  by (rule packets_cannot_stop_node [OF exRun_reach]) (simp_all add: exVote_def exEnv_def)

text \<open>
  C11: a vote with hashes of 32 bytes that \<open>createPacket\<close> signs is read by the handlers with the same
  type, parent hash and content, with either of the two packet headers.
\<close>

theorem vote_packets_are_readable:
  assumes "length (ProposalHash a) = 32" and "length (PrecommitHash p) = 32" and "length (CommitHash c) = 32"
  shows "(createPacket env ph CONSENSUS_PACKET_TYPE_ACK_BLOCK_PROPOSAL (V_Ack a) full h = Inr pkt \<longrightarrow>
      getPacketType pkt = Inr CONSENSUS_PACKET_TYPE_ACK_BLOCK_PROPOSAL \<and> ParentHash pkt = ph \<and>
      decodeBody decodeAck pkt = Inr a) \<and>
    (createPacket env ph CONSENSUS_PACKET_TYPE_PRECOMMIT_BLOCK (V_Precommit p) full h = Inr pkt \<longrightarrow>
      getPacketType pkt = Inr CONSENSUS_PACKET_TYPE_PRECOMMIT_BLOCK \<and> ParentHash pkt = ph \<and>
      decodeBody decodePrecommit pkt = Inr p) \<and>
    (createPacket env ph CONSENSUS_PACKET_TYPE_COMMIT_BLOCK (V_Commit c) full h = Inr pkt \<longrightarrow>
      getPacketType pkt = Inr CONSENSUS_PACKET_TYPE_COMMIT_BLOCK \<and> ParentHash pkt = ph \<and>
      decodeBody decodeCommit pkt = Inr c)"
proof (intro conjI impI; (erule createPacket_ParentHash)?)
  note a = ack_encodes [OF assms(1)] and p = precommit_encodes [OF assms(2)] and c = commit_encodes [OF assms(3)]
  {
    assume k: "createPacket env ph CONSENSUS_PACKET_TYPE_ACK_BLOCK_PROPOSAL (V_Ack a) full h = Inr pkt"
    show "getPacketType pkt = Inr CONSENSUS_PACKET_TYPE_ACK_BLOCK_PROPOSAL" "decodeBody decodeAck pkt = Inr a"
      using createPacket_decodes(2) [OF k _ a(1)] createPacket_decodes(1) [OF k _ a(1), of decodeAck] a(2) by simp_all
  next
    assume k: "createPacket env ph CONSENSUS_PACKET_TYPE_PRECOMMIT_BLOCK (V_Precommit p) full h = Inr pkt"
    show "getPacketType pkt = Inr CONSENSUS_PACKET_TYPE_PRECOMMIT_BLOCK" "decodeBody decodePrecommit pkt = Inr p"
      using createPacket_decodes(2) [OF k _ p(1)] createPacket_decodes(1) [OF k _ p(1), of decodePrecommit] p(2) by simp_all
  next
    assume k: "createPacket env ph CONSENSUS_PACKET_TYPE_COMMIT_BLOCK (V_Commit c) full h = Inr pkt"
    show "getPacketType pkt = Inr CONSENSUS_PACKET_TYPE_COMMIT_BLOCK" "decodeBody decodeCommit pkt = Inr c"
      using createPacket_decodes(2) [OF k _ c(1)] createPacket_decodes(1) [OF k _ c(1), of decodeCommit] c(2) by simp_all
  }
qed

theorem vote_packets_are_readable_witness:
  "\<exists>pkt. createPacket exEnv exParent CONSENSUS_PACKET_TYPE_COMMIT_BLOCK (V_Commit \<lparr>CommitHash = exTxn, CRound = 1\<rparr>) False (exRun [] 0) = Inr pkt \<and>
    decodeBody decodeCommit pkt = Inr \<lparr>CommitHash = exTxn, CRound = 1\<rparr>"
proof -
  have l: "length exTxn = 32" by (simp add: exTxn_def)
  obtain pkt where "createPacket exEnv exParent CONSENSUS_PACKET_TYPE_COMMIT_BLOCK (V_Commit \<lparr>CommitHash = exTxn, CRound = 1\<rparr>) False (exRun [] 0) = Inr pkt"
    using createPacket_total [OF commit_encodes(1), of "\<lparr>CommitHash = exTxn, CRound = 1\<rparr>" exEnv] l ex_canVote
    unfolding canVote_def by fastforce
  with vote_packets_are_readable [of "\<lparr>ProposalHash = exTxn, ProposalAckVoteType = 1, ARound = 1\<rparr>"
      "\<lparr>PrecommitHash = exTxn, PCRound = 1\<rparr>" "\<lparr>CommitHash = exTxn, CRound = 1\<rparr>" exEnv exParent False "exRun [] 0" pkt] l
  show ?thesis by auto
qed

section \<open>The staking contract\<close>

text \<open>
  C12: after every history of the chain, with calls of users to either version of the contract, rewards,
  slashings and nil blocks by the engine and anything else, the staking contract holds what it owes to
  the depositors together; depositors and current validators determine each other, and the list of
  validators has no address twice and never the zero address.
\<close>

theorem staking_contract_is_solvent:
  assumes "chainRun w"
  shows "ledger (staking w) \<le> int (balances w STAKING_CONTRACT_ADDRESS) \<and>
    distinct (validatorList (staking w)) \<and> ZERO_ADDRESS \<notin> set (validatorList (staking w)) \<and>
    (\<forall>d. depositorEverExisted (staking w) d \<longrightarrow>
      validatorExists (staking w) (depositorToValidator (staking w) d) \<and>
      validatorToDepositor (staking w) (depositorToValidator (staking w) d) = d) \<and>
    (\<forall>v. validatorExists (staking w) v \<longrightarrow>
      v \<in> set (validatorList (staking w)) \<and> depositorToValidator (staking w) (validatorToDepositor (staking w) v) = v)"
  using chainRun_ok [OF assms] by (auto simp: contractOk_def surplus_def rolesOk_def paired_def)

theorem staking_contract_is_solvent_witness:
  "ledger (staking exDeposited) \<le> int (balances exDeposited STAKING_CONTRACT_ADDRESS) \<and>
    depositorEverExisted (staking exDeposited) exA \<and>
    validatorToDepositor (staking exDeposited) (depositorToValidator (staking exDeposited) exA) = exA"
proof -
  have "depositorEverExisted (staking exDeposited) exA" by (simp add: exDeposited_eq)
  with staking_contract_is_solvent [OF exDeposited_run] show ?thesis by blast
qed

text \<open>
  C13: as long as no depositor has been slashed beyond balance and rewards, a partial withdrawal whose delay
  is over is paid in full and closed; the contract always has the coins for it.
\<close>

theorem withdrawal_is_paid:
  assumes "chainRun w" and "\<forall>d. depositorSlashings (staking w) d \<le> depositorBalances (staking w) d + depositorRewards (staking w) d"
    and "wfMsg m" and "accepts m (sender m)"
    and "depositorExists (staking w) (sender m)" and "depositorWithdrawalRequests (staking w) (sender m) = 0"
    and "0 < partialWithdrawalBlock (staking w) (sender m)"
    and "partialWithdrawalBlock (staking w) (sender m) + WITHDRAWAL_BLOCK_DELAY \<le> block_number m"
  shows "\<exists>w'. completePartialWithdrawal m w = Inr (w', partialWithdrawalAmount (staking w) (sender m)) \<and>
    balances w' (sender m) = balances w (sender m) + partialWithdrawalAmount (staking w) (sender m) \<and>
    partialWithdrawalBlock (staking w') (sender m) = 0 \<and> partialWithdrawalAmount (staking w') (sender m) = 0"
  using withdrawal_paid [OF chainRun_ok [OF assms(1)] _ assms(3-8)] assms(2) by (simp add: notOverslashed_def)

theorem withdrawal_is_paid_witness:
  "\<exists>w'. completePartialWithdrawal (exMsg exB 0 40000) exPending = Inr (w', 1000) \<and>
    balances w' exB = balances exPending exB + 1000"
proof -
  have m: "sender (exMsg exB 0 40000) = exB" "wfMsg (exMsg exB 0 40000)" "accepts (exMsg exB 0 40000) exB"
      "block_number (exMsg exB 0 40000) = 40000"
    by (simp_all add: exMsg_def wfMsg_def ex_neq)
  show ?thesis
    using withdrawal_is_paid [OF exPending_run _ m(2)] exPending_facts
    by (auto simp: m notOverslashed_def WITHDRAWAL_BLOCK_DELAY_def)
qed

text \<open>
  C14: \<open>GetValidators\<close> returns a map without duplicates or negative deposits; every entry is a current validator
  with the net balance of its own depositor, and when no API call fails all such validators are in
  the map.
\<close>

theorem consensus_reads_the_stakes:
  assumes "chainRun w"
  shows "(\<forall>api m. GetValidators api (staking w) = Inr m \<longrightarrow> deposits_ok m \<and>
      (\<forall>v x. mget m v = Some x \<longrightarrow> stakeOf (staking w) v = Some x \<and> validatorExists (staking w) v)) \<and>
    (\<exists>m. GetValidators (\<lambda>f a. None) (staking w) = Inr m \<and> (\<forall>v. mget m v = stakeOf (staking w) v))"
proof -
  have r: "rolesOk (staking w)" using chainRun_ok [OF assms] by (simp add: contractOk_def)
  show ?thesis
    using GetValidators_sound [OF r] GetValidators_complete [OF r, of "\<lambda>f a. None"] stakeOf_validator [OF r] by blast
qed

theorem consensus_reads_the_stakes_witness:
  "\<exists>m. GetValidators (\<lambda>f a. None) (staking exDeposited) = Inr m \<and> deposits_ok m \<and>
    mget m exVA = Some (int MINIMUM_DEPOSIT)"
proof -
  have a: "safe_add MINIMUM_DEPOSIT 0 = Inr MINIMUM_DEPOSIT" "0 < MINIMUM_DEPOSIT"
    by (simp_all add: safe_add_def MINIMUM_DEPOSIT_def)
  have "stakeOf (staking exDeposited) exVA = Some (int MINIMUM_DEPOSIT)"
    by (simp add: stakeOf_def exDeposited_eq getNetBalanceOfDepositor_def emptyStore_def safe_sub_def a ex_neq)
  with consensus_reads_the_stakes [OF exDeposited_run] show ?thesis by metis
qed

text \<open>
  C15: there is a history after which a depositor cannot withdraw the untouched deposit, although the
  contract holds the coins: the completion of an old withdrawal takes the net balance, with the
  rewards, from the sum of the deposits, and a later checked subtraction from that sum fails.
\<close>

theorem legacy_withdrawal_blocks_depositor:
  "\<exists>w d x n. chainRun w \<and> depositorBalances (staking w) d = x \<and> getNetBalanceOfDepositor (staking w) d = Inr x \<and>
    x \<le> balances w STAKING_CONTRACT_ADDRESS \<and> initiatePartialWithdrawal (exMsg d 0 n) x w = Inl AssertFailed"
  by (intro exI [of _ exWithdrawn] exI [of _ exB] exI [of _ MINIMUM_DEPOSIT] exI [of _ 500001])
    (simp add: exWithdrawn_run exWithdrawn_eq exWithdrawn_blocked)

section \<open>Blocks and validators\<close>

text \<open>
  C16: a block that \<open>ValidateBlockConsensusData\<close> accepts is of round 1 or 2 and carries acknowledgements
  of its vote and commits, signed by selected validators with the required deposit, which is at
  least the minimum block deposit.
\<close>

theorem accepted_block_carries_evidence:
  assumes "deposits_ok vm" and "ValidateBlockConsensusData env block vm dm = (m, d, None)" and "blockData block = Inr bcd"
  shows "let h = cb_ParentHash block; n = Uint64 (cb_Number block); bv = blockValidators env h vm n in
    1 \<le> BRound bcd \<and> BRound bcd \<le> MAX_ROUND \<and> MIN_BLOCK_DEPOSIT \<le> quorum env h vm n \<and>
    quorum env h vm n \<le> weight bv (ackers env h (blockPackets block) (BRound bcd) (blockVote env h n bcd) \<inter> fst ` set bv) \<and>
    quorum env h vm n \<le> weight bv (committers env h (blockPackets block) (BRound bcd) \<inter> fst ` set bv)"
proof -
  obtain e a c where b: "blockData block = Inr e" "blockPackets block = ConsensusPackets a"
      "ValidateBlockConsensusDataInner env (cb_TxHashes block) (cb_ParentHash block) e a vm (Uint64 (cb_Number block)) dm c =
        (m, d, None)"
    by (rule accepted_block [OF assms(2)])
  then have "e = bcd" using assms(3) by simp
  with accepted_evidence [OF assms(1) b(3)] b(2) show ?thesis by (simp add: Let_def)
qed

theorem accepted_block_carries_evidence_witness:
  "MIN_BLOCK_DEPOSIT \<le> quorum exEnv exParent exDeposits 100 \<and>
    quorum exEnv exParent exDeposits 100 \<le> weight (blockValidators exEnv exParent exDeposits 100)
      (committers exEnv exParent (blockPackets exBlock1) 1 \<inter> fst ` set (blockValidators exEnv exParent exDeposits 100))"
  using accepted_block_carries_evidence [OF ex_deposits exBlock_accepted(1) exBlock_data(1)]
  by (simp add: Let_def exBlock1_def exBlock_def Uint64_def exData_def)



text \<open>
  C18: \<open>filterValidators\<close> gives the same validators, deposit and required deposit, or the same error, for
  every order of the iteration over the deposit map.
\<close>

theorem selection_ignores_map_order:
  assumes "wfm m" and "mset m = mset m'" and "inj_on (validatorKey env p) (fst ` set m)"
  shows "rel_sum (=) (\<lambda>(f, d, q) (f', d', q'). mset f = mset f' \<and> d = d' \<and> q = q')
    (snd (filterValidators env p m n)) (snd (filterValidators env p m' n))"
  using assms by (rule filterValidators_mset)

theorem selection_ignores_map_order_witness:
  "rel_sum (=) (\<lambda>(f, d, q) (f', d', q'). mset f = mset f' \<and> d = d' \<and> q = q')
    (snd (filterValidators exEnv exParent [(exValidator, EtherToWei 600000000000), (exTxn, EtherToWei 600000000000)] 100))
    (snd (filterValidators exEnv exParent [(exTxn, EtherToWei 600000000000), (exValidator, EtherToWei 600000000000)] 100))"
proof (rule selection_ignores_map_order)
  have "validatorKey exEnv exParent exValidator \<noteq> validatorKey exEnv exParent exTxn" by code_simp
  then show "inj_on (validatorKey exEnv exParent)
      (fst ` set [(exValidator, EtherToWei 600000000000), (exTxn, EtherToWei 600000000000)])" by (auto simp: inj_on_def)
qed (simp_all add: exValidator_def exTxn_def)

text \<open>
  C19: what \<open>filterValidators\<close> returns: the selected validators are among those with the minimum deposit
  and as many as required; the reported deposit is theirs and at least the minimum block deposit, and
  the required deposit is the percentage of it.
\<close>

theorem selection_is_sound:
  assumes "wfm vm" and "filterValidators env p vm n = (m, Inr (f, d, q))"
  shows "m = filter (\<lambda>(v, d). MIN_VALIDATOR_DEPOSIT \<le> d) vm \<and> wfm f \<and> fst ` set f \<subseteq> fst ` set m \<and>
    d = weight m (fst ` set f) \<and> MIN_BLOCK_DEPOSIT \<le> d \<and> q = d * minPercentage n div 100 \<and>
    min (MIN_VALIDATORS env) MAX_VALIDATORS \<le> length f"
  using filterValidators_result [OF assms] by (simp add: lowDepositRemoved_def not_less SafeRelativePercentageBigInt_def)

theorem selection_is_sound_witness:
  "\<exists>f d q. filterValidators exEnv exParent exDeposits 100 = (exDeposits, Inr (f, d, q)) \<and>
    d = weight exDeposits (fst ` set f) \<and> q = d * minPercentage 100 div 100"
proof -
  have e: "filterValidators exEnv exParent exDeposits 100 =
      (exDeposits, Inr ([(exValidator, True)], 1000000000000000000000000000000, 700000000000000000000000000000))"
    by code_simp
  from selection_is_sound [OF _ e] ex_deposits e show ?thesis by (simp add: deposits_ok_def)
qed

text \<open>
  C20: \<open>filterValidators\<close> succeeds whenever enough validators have the minimum deposit and they hold the
  minimum block deposit together; drawing and filling up always end with a valid selection.
\<close>

theorem selection_succeeds:
  assumes "deposits_ok vm" and "m = lowDepositRemoved vm"
    and "MIN_VALIDATORS env \<le> length m" and "MIN_BLOCK_DEPOSIT \<le> total_dep m"
  shows "\<exists>f d q. filterValidators env p vm n = (m, Inr (f, d, q))"
  using assms by (rule filterValidators_complete)

theorem selection_succeeds_witness: "\<exists>f d q. filterValidators exEnv exParent exDeposits 100 = (exDeposits, Inr (f, d, q))"
proof (rule selection_succeeds [OF ex_deposits])
  show "exDeposits = lowDepositRemoved exDeposits"
    by (simp add: lowDepositRemoved_def exDeposits_def MIN_VALIDATOR_DEPOSIT_def EtherToWei_def)
  show "MIN_VALIDATORS exEnv \<le> length exDeposits" by (simp add: exEnv_def exDeposits_def)
  show "MIN_BLOCK_DEPOSIT \<le> total_dep exDeposits" by (simp add: exDeposits_def MIN_BLOCK_DEPOSIT_def EtherToWei_def)
qed





section \<open>Peers, clocks and restarts\<close>





text \<open>
  C25: the time that \<open>GetProposalTime\<close> puts into a proposal passes \<open>ValidateBlockProposalTimeConsensus\<close> on
  every node whose clock differs by at most two minutes.
\<close>

theorem honest_time_is_accepted:
  assumes "60000 \<le> now" and "now < 2 ^ 60" and "\<bar>now' - now\<bar> \<le> 120000"
  shows "ValidateBlockProposalTimeConsensus now' n (GetProposalTime now n)"
  using assms by (rule proposal_time_accepted)

theorem honest_time_is_accepted_witness:
  "ValidateBlockProposalTimeConsensus 1700000100000 64 (GetProposalTime 1700000000000 64)"
  by (rule honest_time_is_accepted) simp_all

text \<open>
  C26: after \<open>SaveHash\<close> and a restart of the node, \<open>DoesPreviousHashMatch\<close> answers yes exactly for the hash
  that was saved.
\<close>

theorem hash_survives_restart:
  assumes "length ph = 32" and "SaveHash env ph h = (h', None)"
    and "\<not> skipHashCheck env'" and "readHashErr env' = None"
  shows "DoesPreviousHashMatch env' (restarted acc relay h') ph' = Inr (ph' = ph)"
  using assms by (rule hash_file)

theorem hash_survives_restart_witness:
  "DoesPreviousHashMatch exEnv (restarted exValidator False (fst (SaveHash exEnv exParent (exRun [] 0)))) exParent = Inr True"
proof -
  have "SaveHash exEnv exParent (exRun [] 0) = (fst (SaveHash exEnv exParent (exRun [] 0)), None)"
    by (simp add: SaveHash_def exEnv_def)
  from hash_survives_restart [OF _ this, of exEnv exValidator False exParent] show ?thesis by (simp add: exParent_def exEnv_def)
qed

section \<open>Boundaries of the guarantees\<close>

text \<open>
  C27: after a restart on the block whose hash was saved, \<open>HandleConsensus\<close> waits for the block only when
  the random number is 1; with every other number the node is started for the same block again.
\<close>

theorem restart_waits_only_sometimes:
  assumes "length ph = 32" and "SaveHash env ph h = (h', None)"
    and "\<not> skipHashCheck env'" and "readHashErr env' = None"
  shows "snd (HandleConsensus env' now 1 ph txns n (restarted acc relay h')) =
      Some (ErrText ''Waiting for previous block to mine'') \<and>
    (\<forall>r. r \<noteq> 1 \<longrightarrow> initialized (fst (HandleConsensus env' now r ph txns n (restarted acc relay h'))))"
  using restart_engine [OF assms] by blast

theorem restart_waits_only_sometimes_witness:
  "initialized (fst (HandleConsensus exEnv 0 2 exParent [] 100
    (restarted exValidator False (fst (SaveHash exEnv exParent (exRun [] 0))))))"
proof -
  have "SaveHash exEnv exParent (exRun [] 0) = (fst (SaveHash exEnv exParent (exRun [] 0)), None)"
    by (simp add: SaveHash_def exEnv_def)
  from restart_waits_only_sometimes [OF _ this, of exEnv 0 "[]" 100 exValidator False] show ?thesis
    by (simp add: exParent_def exEnv_def)
qed

text \<open>
  C28: a packet whose data is one byte with a protocol version is indexed past its end, in
  \<open>HandleConsensusPacket\<close> of every node that signs and in \<open>ParseConsensusPackets\<close> for a block, before a
  signature is checked.
\<close>

theorem short_packet_stops_node:
  assumes "ConsensusData packet = [v]" and "MinConsensusNetworkProtocolVersion \<le> v"
    and "CRYPTO_SIGNATURE_BYTES \<le> length (Signature packet)" and "signFn env \<noteq> None"
  shows "snd (HandleConsensusPacket env now packet k h) = Some (Panic ''index out of range'') \<and>
    ParseConsensusPackets env (ParentHash packet) (packet # pks) fm n dm ctx = Inl (Panic ''index out of range'')"
proof -
  have "Signature packet \<noteq> []" using assms(3) by auto
  with one_byte_packet [OF assms] short_packet_panics [OF refl _ assms(1,2)] show ?thesis by simp
qed

theorem short_packet_stops_node_witness:
  "snd (HandleConsensusPacket exEnv 1000000
    \<lparr>ParentHash = exParent, Signature = replicate CRYPTO_SIGNATURE_BYTES 0, ConsensusData = [5]\<rparr> ''peer'' (exRun [] 5)) =
      Some (Panic ''index out of range'')"
  using short_packet_stops_node
    [of "\<lparr>ParentHash = exParent, Signature = replicate CRYPTO_SIGNATURE_BYTES 0, ConsensusData = [5]\<rparr>" 5 exEnv]
  by (simp add: exEnv_def)

text \<open>
  C29: a call of \<open>HandleConsensus\<close> for a block that is not the current one and is older than the cleanup
  time removes the state of the block and then dereferences it.
\<close>

theorem replaced_block_stops_node:
  assumes "wfm (blockStateDetailsMap h)" and "mget (blockStateDetailsMap h) ph = Some b"
    and "block_parentHash b \<noteq> currentParentHash h" and "BLOCK_CLEANUP_TIME_MS \<le> Elapsed now (block_initTime b)"
    and "initialized h" and "HasExceededTimeThreshold now (initTime h) STARTUP_DELAY_MS"
  shows "snd (HandleConsensus env now rndVal ph txns n h) = Some (Panic ''nil pointer dereference'')"
  using assms by (rule old_block_panics)

theorem replaced_block_stops_node_witness:
  "snd (HandleConsensus exEnv 100000000 2 exParent [] 100 ((exRun [] 5)\<lparr>currentParentHash := exTxn\<rparr>)) =
    Some (Panic ''nil pointer dereference'')"
proof -
  let ?h = "(exRun [] 5)\<lparr>currentParentHash := exTxn\<rparr>"
  have "(case mget (blockStateDetailsMap ?h) exParent of None \<Rightarrow> False | Some b \<Rightarrow>
      block_parentHash b \<noteq> currentParentHash ?h \<and> BLOCK_CLEANUP_TIME_MS \<le> Elapsed 100000000 (block_initTime b)) \<and>
      wfm (blockStateDetailsMap ?h) \<and> initialized ?h \<and> HasExceededTimeThreshold 100000000 (initTime ?h) STARTUP_DELAY_MS"
    by code_simp
  then obtain b where b: "mget (blockStateDetailsMap ?h) exParent = Some b" "block_parentHash b \<noteq> currentParentHash ?h"
      "BLOCK_CLEANUP_TIME_MS \<le> Elapsed 100000000 (block_initTime b)" "wfm (blockStateDetailsMap ?h)" "initialized ?h"
      "HasExceededTimeThreshold 100000000 (initTime ?h) STARTUP_DELAY_MS"
    by (auto split: option.splits)
  show ?thesis by (rule replaced_block_stops_node [OF b(4,1-3,5,6)])
qed







section \<open>RLP\<close>

text \<open>
  C33: for a value with no negative integer whose encoding fits a 64-bit length, the two-pass buffer of
  \<open>EncodeToBytes\<close> produces the reference RLP encoding.
\<close>

theorem encode_refines_reference:
  assumes "encodable v" and "length (enc v) < 2 ^ 64"
  shows "EncodeToBytes v = Inr (enc v)"
  using assms by (rule EncodeToBytes_eq)

theorem encode_refines_reference_witness:
  "EncodeToBytes (VStruct [VUint 5, VBytes [1, 2]]) = Inr [0xC4, 5, 0x82, 1, 2]"
proof -
  have e: "enc (VStruct [VUint 5, VBytes [1, 2]]) = [0xC4, 5, 0x82, 1, 2]" by code_simp
  show ?thesis
    by (subst encode_refines_reference) (simp_all only: e, simp_all)
qed

text \<open>
  C34: \<open>EncodeToBytes\<close> fails exactly when the value contains a negative big integer, and then with the
  error for negative integers.
\<close>

theorem encode_fails_only_on_negative:
  "EncodeToBytes v = Inl e \<longleftrightarrow> e = ErrNegativeBigInt \<and> \<not> encodable v"
  using write_error(1) [of v encbuf_reset]
  by (auto simp: EncodeToBytes_def split: sum.splits)

text \<open>
  C35: decoding the encoding of a value of a Go type gives the value back.
\<close>

theorem decode_inverts_encode:
  assumes "go_type t" and "has_type t v" and "length (enc v) < 2 ^ 63" and "EncodeToBytes v = Inr b"
  shows "DecodeBytes t b = Inr v"
proof -
  have "encodable v"
    using write_error(1) [of v encbuf_reset] assms(4) by (auto simp: EncodeToBytes_def split: sum.splits)
  then have "b = enc v" using EncodeToBytes_eq [of v] assms(3,4) by simp
  then show ?thesis using DecodeBytes_enc [OF assms(1-3)] by simp
qed

theorem decode_inverts_encode_witness:
  "DecodeBytes (TStruct [TUint 8, TBytes]) [0xC4, 5, 0x82, 1, 2] = Inr (VStruct [VUint 5, VBytes [1, 2]])"
proof -
  have e: "enc (VStruct [VUint 5, VBytes [1, 2]]) = [0xC4, 5, 0x82, 1, 2]" by code_simp
  have "EncodeToBytes (VStruct [VUint 5, VBytes [1, 2]]) = Inr [0xC4, 5, 0x82, 1, 2]"
    by (subst EncodeToBytes_eq) (simp_all only: e, simp_all)
  then show ?thesis by (rule decode_inverts_encode [rotated 3]) (simp_all only: e, simp_all)
qed

text \<open>
  C36: what \<open>DecodeBytes\<close> accepts is a value of the type and the input is exactly its reference
  encoding, so no two inputs decode to the same value.
\<close>

theorem decode_is_canonical:
  assumes "go_type t" and "length b < 2 ^ 63" and "DecodeBytes t b = Inr v"
  shows "has_type t v \<and> b = enc v"
  using assms by (rule DecodeBytes_canonical)

theorem decode_is_canonical_witness: "DecodeBytes (TUint 8) [0x81, 5] \<noteq> Inr (VUint 5)"
proof
  assume "DecodeBytes (TUint 8) [0x81, 5] = Inr (VUint 5)"
  from decode_is_canonical [OF _ _ this] have "[0x81, 5] = enc (VUint 5)" by simp
  moreover have "enc (VUint 5) = [5]" by code_simp
  ultimately show False by simp
qed

text \<open>
  C37: the loops of the decoder end: with the fuel the model gives them (the bytes left in the input),
  \<open>DecodeBytes\<close> never runs out of it.
\<close>

theorem decode_terminates:
  assumes "go_type t" and "length b < 2 ^ 63"
  shows "\<exists>r. DecodeBytes t b = r \<and> r \<noteq> Inl OutOfFuel"
  using DecodeBytes_fuel [OF assms] by simp

theorem decode_terminates_witness:
  "\<exists>r. DecodeBytes (TSlice TBytes) [0xC3, 1, 2, 3] = r \<and> r \<noteq> Inl OutOfFuel"
  by (rule decode_terminates) simp_all

section \<open>Bytes and hexadecimal strings\<close>

text \<open>
  C38: the word-by-word \<open>DecodeBig\<close> agrees with the positional value of the digits on every input,
  errors included.
\<close>

theorem decode_big_is_positional:
  "DecodeBig input =
    (case checkNumber input of
       Inl e \<Rightarrow> Inl e
     | Inr raw \<Rightarrow> if length raw > 64 then Inl ErrBig256Range
         else case hex_value raw 0 of None \<Rightarrow> Inl ErrSyntax | Some v \<Rightarrow> Inr v)"
  by (rule DecodeBig_eq)

text \<open>
  C39: \<open>DecodeUint64\<close> inverts \<open>EncodeUint64\<close>, and \<open>DecodeBig\<close> inverts \<open>EncodeBig\<close> on the numbers from 0
  below \<open>2 ^ 256\<close>.
\<close>

theorem hex_quantities_roundtrip:
  "DecodeUint64 (EncodeUint64 i) = Inr i \<and>
   (0 \<le> x \<and> x < 2 ^ 256 \<longrightarrow> DecodeBig (EncodeBig x) = Inr (nat x))"
  using DecodeUint64_EncodeUint64 DecodeBig_EncodeBig by blast

theorem hex_quantities_roundtrip_witness:
  "DecodeUint64 (EncodeUint64 255) = Inr 255 \<and> DecodeBig (EncodeBig 4096) = Inr 4096"
  using hex_quantities_roundtrip [of 255 4096] by simp

text \<open>
  C40: for non-empty parts, \<open>ExtractTwoParts\<close> returns \<open>p\<close> and \<open>q\<close> exactly for the record that
  \<open>CombineTwoParts\<close> builds from them.
\<close>

theorem two_parts_roundtrip:
  assumes "p \<noteq> []" and "q \<noteq> []"
  shows "ExtractTwoParts b = Inr (p, q) \<longleftrightarrow> CombineTwoParts p q = Inr b"
  using Combine_Extract [OF _ assms] Extract_Combine by blast

theorem two_parts_roundtrip_witness: "ExtractTwoParts [3, 0, 1, 0, 7, 8, 9] = Inr ([7], [8, 9])"
proof -
  have "CombineTwoParts [7] [8, 9] = Inr [3, 0, 1, 0, 7, 8, 9]"
    by (simp add: CombineTwoParts_def LenToBytes_eq numeral_2_eq_2)
  then show ?thesis by (subst two_parts_roundtrip) simp_all
qed

end
